(* ===== verification/Prelude.thy ===== *)
theory Prelude
  imports Complex_Main "HOL-Library.Sublist" "HOL-Library.Char_ord"
    "HOL-Library.List_Lexorder" "HOL-Library.AList"
begin

text \<open>
  Prelude of the atlas development: the part of Python that the modelled sources use.

  \<^item> Exceptions are values: \<open>exn\<close> carries the class name and \<open>str(exc)\<close>; a fallible
    function returns \<open>'a result\<close>, with \<open>Inl\<close> for a raised exception.
  \<^item> \<open>str\<close> is \<open>string\<close>. A \<open>char\<close> is a code point below 256, so the string methods below
    (\<open>lower\<close>, \<open>strip\<close>, \<open>split\<close>, ...) are Python's on that range; larger code points are
    outside the model.
  \<^item> \<open>dict[str, v]\<close> is an association list in insertion order, with distinct keys;
    \<open>dict_get\<close>/\<open>dict_set\<close>/\<open>dict_merge\<close> are \<open>d.get(k)\<close>, \<open>d[k] = v\<close> and
    \<open>{**a, **b}\<close>.
  \<^item> The lemma collections \<open>py_str\<close> (string functions) and \<open>py_dict\<close> (dictionaries) carry
    the component proofs.
\<close>

named_theorems py_str "laws of the Python string functions"
named_theorems py_dict "laws of the Python dictionary functions"

section \<open>Exceptions as values\<close>

datatype exn = Exn (exc_class: string) (exc_msg: string)

type_synonym 'a result = "exn + 'a"

definition result_bind :: "'a result \<Rightarrow> ('a \<Rightarrow> 'b result) \<Rightarrow> 'b result" where
  "result_bind r f = (case r of Inl e \<Rightarrow> Inl e | Inr x \<Rightarrow> f x)"

lemma result_bind_simps [simp]:
  "result_bind (Inl e) f = Inl e"
  "result_bind (Inr x) f = f x"
  by (simp_all add: result_bind_def)

lemma result_bind_Inr_iff: "result_bind r f = Inr y \<longleftrightarrow> (\<exists>x. r = Inr x \<and> f x = Inr y)"
  by (cases r) auto

lemma result_bind_Inl_iff:
  "result_bind r f = Inl e \<longleftrightarrow> r = Inl e \<or> (\<exists>x. r = Inr x \<and> f x = Inl e)"
  by (cases r) auto

definition is_ok :: "'a result \<Rightarrow> bool" where
  "is_ok r = (case r of Inl _ \<Rightarrow> False | Inr _ \<Rightarrow> True)"

lemma is_ok_simps [simp]: "is_ok (Inr x)" "\<not> is_ok (Inl e)"
  by (simp_all add: is_ok_def)

section \<open>Characters and strings\<close>

abbreviation cp :: "char \<Rightarrow> nat" where
  "cp c \<equiv> of_char c"

text \<open>\<open>str.isspace\<close> on one code point below 256.\<close>

definition is_space :: "char \<Rightarrow> bool" where
  "is_space c = (let n = cp c in
     (9 \<le> n \<and> n \<le> 13) \<or> (28 \<le> n \<and> n \<le> 32) \<or> n = 133 \<or> n = 160)"

text \<open>\<open>str.lower\<close>: A-Z and the Latin-1 capitals, the multiplication sign (215) excepted.\<close>

definition is_upper_cp :: "nat \<Rightarrow> bool" where
  "is_upper_cp n = ((65 \<le> n \<and> n \<le> 90) \<or> (192 \<le> n \<and> n \<le> 222 \<and> n \<noteq> 215))"

definition lower_char :: "char \<Rightarrow> char" where
  "lower_char c = (if is_upper_cp (cp c) then char_of (cp c + 32) else c)"

definition lower :: "string \<Rightarrow> string" where
  "lower s = map lower_char s"

definition lstrip :: "string \<Rightarrow> string" where
  "lstrip s = dropWhile is_space s"

definition rstrip :: "string \<Rightarrow> string" where
  "rstrip s = rev (dropWhile is_space (rev s))"

definition strip :: "string \<Rightarrow> string" where
  "strip s = rstrip (lstrip s)"

text \<open>\<open>startswith\<close>, \<open>endswith\<close> and \<open>in\<close>.\<close>

abbreviation startswith :: "string \<Rightarrow> string \<Rightarrow> bool" where
  "startswith s p \<equiv> prefix p s"

abbreviation endswith :: "string \<Rightarrow> string \<Rightarrow> bool" where
  "endswith s p \<equiv> suffix p s"

fun str_in :: "string \<Rightarrow> string \<Rightarrow> bool" where
  "str_in p [] = (p = [])"
| "str_in p (c # s) = (prefix p (c # s) \<or> str_in p s)"

text \<open>\<open>str.split()\<close> on runs of white space, and \<open>str.split(sep)\<close> on one character.\<close>

function split_ws :: "string \<Rightarrow> string list" where
  "split_ws [] = []"
| "split_ws (c # s) =
     (if is_space c then split_ws s
      else (c # takeWhile (Not \<circ> is_space) s) # split_ws (dropWhile (Not \<circ> is_space) s))"
  by pat_completeness auto
termination
  by (relation "measure length") (auto simp: le_imp_less_Suc length_dropWhile_le)

fun split_on :: "char \<Rightarrow> string \<Rightarrow> string list" where
  "split_on sep [] = [[]]"
| "split_on sep (c # s) =
     (if c = sep then [] # split_on sep s
      else case split_on sep s of [] \<Rightarrow> [[c]] | w # ws \<Rightarrow> (c # w) # ws)"

fun join :: "string \<Rightarrow> string list \<Rightarrow> string" where
  "join sep [] = []"
| "join sep [w] = w"
| "join sep (w # v # ws) = w @ sep @ join sep (v # ws)"

text \<open>\<open>s.rpartition(c)[2]\<close> (all of \<open>s\<close> when \<open>c\<close> does not occur), \<open>s.partition(c)\<close> and
  the two parts of \<open>s.rsplit(c, 1)\<close> (\<open>None\<close> when there is no separator).\<close>

definition after_last :: "char \<Rightarrow> string \<Rightarrow> string" where
  "after_last c s = rev (takeWhile (\<lambda>x. x \<noteq> c) (rev s))"

definition before_first :: "char \<Rightarrow> string \<Rightarrow> string" where
  "before_first c s = takeWhile (\<lambda>x. x \<noteq> c) s"

definition after_first :: "char \<Rightarrow> string \<Rightarrow> string" where
  "after_first c s = drop 1 (dropWhile (\<lambda>x. x \<noteq> c) s)"

definition rsplit1 :: "char \<Rightarrow> string \<Rightarrow> (string \<times> string) option" where
  "rsplit1 c s =
     (case dropWhile (\<lambda>x. x \<noteq> c) (rev s) of
        [] \<Rightarrow> None
      | _ # r \<Rightarrow> Some (rev r, after_last c s))"

section \<open>Laws of the string functions\<close>

lemma takeWhile_all: "\<forall>x \<in> set xs. P x \<Longrightarrow> takeWhile P xs = xs"
  by simp

lemma dropWhile_all: "\<forall>x \<in> set xs. P x \<Longrightarrow> dropWhile P xs = []"
  by simp

lemma takeWhile_neq: "c \<notin> set xs \<Longrightarrow> takeWhile (\<lambda>x. x \<noteq> c) xs = xs"
  by (induction xs) auto

lemma dropWhile_none: "\<forall>x \<in> set xs. \<not> P x \<Longrightarrow> dropWhile P xs = xs"
  by (cases xs) auto

lemma cp_less_256: "cp c < 256"
  by (metis mod_less_divisor of_char_mod_256 zero_less_numeral)

lemma cp_char_of [simp]: "n < 256 \<Longrightarrow> cp (char_of n) = n"
  by simp

lemma lower_char_idem [simp]: "lower_char (lower_char c) = lower_char c"
proof (cases "is_upper_cp (cp c)")
  case True
  then have "cp c + 32 < 256" and "\<not> is_upper_cp (cp c + 32)"
    by (auto simp: is_upper_cp_def)
  then show ?thesis by (simp add: lower_char_def)
qed (simp add: lower_char_def)

lemma lower_lower [simp, py_str]: "lower (lower s) = lower s"
  by (simp add: lower_def)

lemma lower_Nil_iff [simp, py_str]: "lower s = [] \<longleftrightarrow> s = []"
  by (simp add: lower_def)

lemma lower_simps [simp]:
  "lower [] = []" "lower (c # s) = lower_char c # lower s" "lower (s @ t) = lower s @ lower t"
  by (simp_all add: lower_def)

lemma is_space_lower [simp]: "is_space (lower_char c) = is_space c"
proof (cases "is_upper_cp (cp c)")
  case True
  then have "cp c + 32 < 256" by (auto simp: is_upper_cp_def)
  with True show ?thesis
    by (auto simp: lower_char_def is_space_def is_upper_cp_def Let_def)
qed (simp add: lower_char_def)

lemma dropWhile_space_lower: "dropWhile is_space (lower s) = lower (dropWhile is_space s)"
  by (induction s) (auto simp: lower_def)

lemma lower_rev: "lower (rev s) = rev (lower s)"
  by (simp add: lower_def rev_map)

lemma strip_lower [py_str]: "strip (lower s) = lower (strip s)"
  by (simp add: strip_def lstrip_def rstrip_def dropWhile_space_lower flip: lower_rev)

lemma dropWhile_rev_dropWhile_idem:
  "dropWhile P (rev (dropWhile P (rev (dropWhile P s)))) = rev (dropWhile P (rev (dropWhile P s)))"
proof (cases "dropWhile P s")
  case (Cons x xs)
  then have x: "\<not> P x" by (metis dropWhile_eq_Cons_conv)
  then have "dropWhile P (rev xs @ [x]) = dropWhile P (rev xs) @ [x]"
    by (induction "rev xs" arbitrary: xs) (auto simp: dropWhile_append)
  with Cons x show ?thesis by simp
next
  case Nil
  then show ?thesis by (simp only: rev.simps dropWhile.simps)
qed

lemma dropWhile_idem_same: "dropWhile P (dropWhile P s) = dropWhile P s"
  by (induction s) auto

lemma lstrip_strip [py_str]: "lstrip (strip s) = strip s"
  by (simp add: strip_def lstrip_def rstrip_def dropWhile_rev_dropWhile_idem)

lemma rstrip_rstrip: "rstrip (rstrip s) = rstrip s"
  by (simp add: rstrip_def dropWhile_idem_same)

lemma strip_strip [simp, py_str]: "strip (strip s) = strip s"
  by (metis lstrip_strip rstrip_rstrip strip_def)

lemma strip_no_space: "\<forall>c \<in> set s. \<not> is_space c \<Longrightarrow> strip s = s"
  by (simp add: strip_def lstrip_def rstrip_def dropWhile_none)

lemma set_strip: "set (strip s) \<subseteq> set s"
  unfolding strip_def lstrip_def rstrip_def
  by (metis dual_order.trans set_dropWhileD set_rev subsetI)

lemma str_in_iff [py_str]: "str_in p s \<longleftrightarrow> sublist p s"
  by (induction s) (auto simp: sublist_Cons_right)

lemma split_ws_nonempty: "w \<in> set (split_ws s) \<Longrightarrow> w \<noteq> []"
  by (induction s rule: split_ws.induct) (auto split: if_splits)

lemma split_ws_no_space: "w \<in> set (split_ws s) \<Longrightarrow> c \<in> set w \<Longrightarrow> \<not> is_space c"
  by (induction s rule: split_ws.induct)
    (auto split: if_splits dest!: set_takeWhileD [where P = "Not \<circ> is_space"])

lemma split_ws_word: "w \<noteq> [] \<Longrightarrow> \<forall>c \<in> set w. \<not> is_space c \<Longrightarrow> split_ws w = [w]"
  by (cases w) (auto simp: takeWhile_all dropWhile_all)

lemma split_on_nonempty [simp]: "split_on sep s \<noteq> []"
  by (induction s) (auto split: list.splits)

lemma split_on_no_sep: "w \<in> set (split_on sep s) \<Longrightarrow> sep \<notin> set w"
  by (induction s arbitrary: w) (auto split: if_splits list.splits)

lemma after_last_no_sep: "c \<notin> set (after_last c s)"
  by (auto simp: after_last_def dest: set_takeWhileD)

lemma after_last_append [simp, py_str]:
  "c \<notin> set t \<Longrightarrow> after_last c (s @ c # t) = t"
  by (simp add: after_last_def takeWhile_tail takeWhile_neq)

lemma after_last_none: "c \<notin> set s \<Longrightarrow> after_last c s = s"
  by (simp add: after_last_def takeWhile_neq)

lemma dropWhile_neq_tail: "c \<notin> set r \<Longrightarrow> dropWhile (\<lambda>x. x \<noteq> c) (r @ c # t) = c # t"
  by (induction r) auto

lemma rsplit1_append [simp, py_str]:
  "c \<notin> set t \<Longrightarrow> rsplit1 c (s @ c # t) = Some (s, t)"
  by (simp add: rsplit1_def dropWhile_neq_tail)

section \<open>Numbers as text\<close>

definition digit_char :: "nat \<Rightarrow> char" where
  "digit_char d = (if d < 10 then char_of (48 + d) else char_of (87 + d))"

definition is_digit :: "char \<Rightarrow> bool" where
  "is_digit c = (48 \<le> cp c \<and> cp c \<le> 57)"

text \<open>\<open>str(n)\<close> for a natural number, and \<open>str(i)\<close> for an integer.\<close>

fun nat_str :: "nat \<Rightarrow> string" where
  "nat_str n = (if n < 10 then [digit_char n] else nat_str (n div 10) @ [digit_char (n mod 10)])"

declare nat_str.simps [simp del]

definition int_str :: "int \<Rightarrow> string" where
  "int_str i = (if i < 0 then CHR ''-'' # nat_str (nat (- i)) else nat_str (nat i))"

text \<open>\<open>f"{n:04d}"\<close>.\<close>

definition pad4 :: "nat \<Rightarrow> string" where
  "pad4 n = (let s = nat_str n in replicate (4 - length s) (CHR ''0'') @ s)"

definition digits_val :: "string \<Rightarrow> nat" where
  "digits_val s = foldl (\<lambda>a c. 10 * a + (cp c - 48)) 0 s"

lemma digits_val_snoc [simp]: "digits_val (s @ [c]) = 10 * digits_val s + (cp c - 48)"
  by (simp add: digits_val_def)

lemma cp_digit_char: "d < 10 \<Longrightarrow> cp (digit_char d) = 48 + d"
  by (simp add: digit_char_def)

lemma digits_val_nat_str [simp]: "digits_val (nat_str n) = n"
proof (induction n rule: nat_str.induct)
  case (1 n)
  show ?case
  proof (cases "n < 10")
    case True
    then have "digits_val [digit_char n] = n"
      by (simp add: digits_val_def cp_digit_char)
    with True show ?thesis by (subst nat_str.simps) simp
  next
    case False
    with 1 show ?thesis by (subst nat_str.simps) (simp add: cp_digit_char)
  qed
qed

lemma nat_str_inject [simp]: "nat_str m = nat_str n \<longleftrightarrow> m = n"
  by (metis digits_val_nat_str)

lemma nat_str_digits: "c \<in> set (nat_str n) \<Longrightarrow> is_digit c"
proof (induction n rule: nat_str.induct)
  case (1 n)
  have d: "is_digit (digit_char (n mod 10))" "n < 10 \<Longrightarrow> is_digit (digit_char n)"
    by (simp_all add: is_digit_def cp_digit_char)
  from 1 d show ?case
    by (subst (asm) nat_str.simps) (auto split: if_splits)
qed

lemma nat_str_nonempty [simp]: "nat_str n \<noteq> []"
  by (subst nat_str.simps) simp

lemma digits_val_zeros: "digits_val (replicate k (CHR ''0'') @ s) = digits_val s"
  by (induction k) (simp_all add: digits_val_def)

lemma pad4_inject [simp]: "pad4 m = pad4 n \<longleftrightarrow> m = n"
  by (metis digits_val_nat_str digits_val_zeros pad4_def)

lemma pad4_digits: "c \<in> set (pad4 n) \<Longrightarrow> is_digit c"
  by (auto simp: pad4_def Let_def is_digit_def dest: nat_str_digits)

section \<open>Dictionaries\<close>

type_synonym 'v dict = "(string \<times> 'v) list"

abbreviation dict_get :: "'v dict \<Rightarrow> string \<Rightarrow> 'v option" where
  "dict_get d k \<equiv> map_of d k"

abbreviation dict_set :: "string \<Rightarrow> 'v \<Rightarrow> 'v dict \<Rightarrow> 'v dict" where
  "dict_set k v d \<equiv> AList.update k v d"

definition dict_merge :: "'v dict \<Rightarrow> 'v dict \<Rightarrow> 'v dict" where
  "dict_merge a b = foldl (\<lambda>d (k, v). dict_set k v d) a b"

definition dict_keys :: "'v dict \<Rightarrow> string list" where
  "dict_keys d = map fst d"

definition dict_ok :: "'v dict \<Rightarrow> bool" where
  "dict_ok d = distinct (dict_keys d)"

lemma dict_get_set [simp, py_dict]:
  "dict_get (dict_set k v d) k' = (if k' = k then Some v else dict_get d k')"
  by (simp add: update_conv')

lemma dict_ok_set [simp, py_dict]: "dict_ok d \<Longrightarrow> dict_ok (dict_set k v d)"
  by (simp add: dict_ok_def dict_keys_def distinct_update)

lemma dict_merge_Nil [simp]: "dict_merge a [] = a"
  by (simp add: dict_merge_def)

lemma dict_merge_Cons [simp]: "dict_merge a ((k, v) # b) = dict_merge (dict_set k v a) b"
  by (simp add: dict_merge_def)

lemma dict_ok_merge [simp, py_dict]: "dict_ok a \<Longrightarrow> dict_ok (dict_merge a b)"
  by (induction b arbitrary: a) auto

lemma dict_get_merge [py_dict]:
  assumes "dict_ok b"
  shows "dict_get (dict_merge a b) k = (case dict_get b k of None \<Rightarrow> dict_get a k | Some v \<Rightarrow> Some v)"
  using assms
proof (induction b arbitrary: a)
  case (Cons p b)
  obtain k0 v where p: "p = (k0, v)" by (cases p)
  from Cons.prems p have "k0 \<notin> fst ` set b" and "dict_ok b"
    by (auto simp: dict_ok_def dict_keys_def)
  moreover from this have "dict_get b k0 = None" by (simp add: map_of_eq_None_iff)
  ultimately show ?case using Cons.IH p by (auto split: option.splits)
qed simp

section \<open>Lists\<close>

text \<open>Keeping the first occurrence of each element, as a loop with a \<open>seen\<close> set does.\<close>

fun dedup_seen :: "'a list \<Rightarrow> 'a list \<Rightarrow> 'a list" where
  "dedup_seen seen [] = []"
| "dedup_seen seen (x # xs) =
     (if x \<in> set seen then dedup_seen seen xs else x # dedup_seen (x # seen) xs)"

lemma set_dedup_seen [simp]: "set (dedup_seen seen xs) = set xs - set seen"
  by (induction seen xs rule: dedup_seen.induct) auto

lemma distinct_dedup_seen [simp]: "distinct (dedup_seen seen xs)"
  by (induction seen xs rule: dedup_seen.induct) auto

lemma take_filter_subset: "set (take n (filter P xs)) \<subseteq> {x \<in> set xs. P x}"
  using set_take_subset by fastforce

end
