(* ===== verification/Pyvalue.thy ===== *)
theory Pyvalue
  imports Prelude
begin

text \<open>
  JSON-like Python values, their \<open>repr\<close>, and the canonical serialisation of
  \<^verbatim>\<open>src/src/atlas/governance/audit.py\<close>: \<open>json.dumps(..., sort_keys=True,
  separators=(",", ":"), ensure_ascii=False)\<close> followed by \<open>.encode("utf-8")\<close>.

  The main result, \<open>json_bytes_inject\<close>, is that two values with the same canonical bytes
  are equal up to the order of dictionary keys (\<open>canon\<close>): the serialiser never confuses
  two different events. Floats, bytes and other objects are outside the value type.
\<close>

datatype pyval =
    PNone
  | PBool bool
  | PInt int
  | PStr string
  | PList "pyval list"
  | PDict "(string \<times> pyval) list"

type_synonym pydict = "pyval dict"

definition truthy :: "pyval \<Rightarrow> bool" where
  "truthy v = (case v of
     PNone \<Rightarrow> False | PBool b \<Rightarrow> b | PInt i \<Rightarrow> i \<noteq> 0 | PStr s \<Rightarrow> s \<noteq> []
   | PList xs \<Rightarrow> xs \<noteq> [] | PDict d \<Rightarrow> d \<noteq> [])"

section \<open>repr and str\<close>

text \<open>\<open>repr\<close> of a string: the quote is the double one only when the text has a single quote
  and no double quote; unprintable code points are written as hexadecimal escapes.\<close>

definition hex2 :: "nat \<Rightarrow> string" where
  "hex2 n = [digit_char (n div 16), digit_char (n mod 16)]"

definition repr_char :: "char \<Rightarrow> char \<Rightarrow> string" where
  "repr_char q c = (let n = cp c in
     if c = q \<or> n = 92 then [CHR 0x5C, c]
     else if n = 10 then [CHR 0x5C, CHR ''n'']
     else if n = 13 then [CHR 0x5C, CHR ''r'']
     else if n = 9 then [CHR 0x5C, CHR ''t'']
     else if n < 32 \<or> (127 \<le> n \<and> n \<le> 160) \<or> n = 173 then [CHR 0x5C, CHR ''x''] @ hex2 n
     else [c])"

definition repr_str :: "string \<Rightarrow> string" where
  "repr_str s =
     (let q = (if CHR 0x27 \<in> set s \<and> CHR 0x22 \<notin> set s then CHR 0x22 else CHR 0x27)
      in q # concat (map (repr_char q) s) @ [q])"

fun py_repr :: "pyval \<Rightarrow> string" and py_reprs :: "pyval list \<Rightarrow> string list"
  and py_repr_items :: "(string \<times> pyval) list \<Rightarrow> string list" where
  "py_repr PNone = ''None''"
| "py_repr (PBool b) = (if b then ''True'' else ''False'')"
| "py_repr (PInt i) = int_str i"
| "py_repr (PStr s) = repr_str s"
| "py_repr (PList xs) = ''['' @ join '', '' (py_reprs xs) @ '']''"
| "py_repr (PDict d) = ''{'' @ join '', '' (py_repr_items d) @ ''}''"
| "py_reprs [] = []"
| "py_reprs (x # xs) = py_repr x # py_reprs xs"
| "py_repr_items [] = []"
| "py_repr_items ((k, v) # d) = (repr_str k @ '': '' @ py_repr v) # py_repr_items d"

text \<open>\<open>str(v)\<close>: a string is itself, anything else its \<open>repr\<close>.\<close>

definition py_str :: "pyval \<Rightarrow> string" where
  "py_str v = (case v of PStr s \<Rightarrow> s | _ \<Rightarrow> py_repr v)"

section \<open>Canonical JSON\<close>

definition json_char :: "char \<Rightarrow> string" where
  "json_char c = (let n = cp c in
     if n = 34 \<or> n = 92 then [CHR 0x5C, c]
     else if n = 10 then [CHR 0x5C, CHR ''n'']
     else if n = 13 then [CHR 0x5C, CHR ''r'']
     else if n = 9 then [CHR 0x5C, CHR ''t'']
     else if n = 8 then [CHR 0x5C, CHR ''b'']
     else if n = 12 then [CHR 0x5C, CHR ''f'']
     else if n < 32 then [CHR 0x5C, CHR ''u'', CHR ''0'', CHR ''0''] @ hex2 n
     else [c])"

definition json_quote :: "string \<Rightarrow> string" where
  "json_quote s = CHR 0x22 # concat (map json_char s) @ [CHR 0x22]"

fun dumps :: "pyval \<Rightarrow> string" and dumps_elems :: "pyval list \<Rightarrow> string"
  and dumps_items :: "(string \<times> pyval) list \<Rightarrow> string" where
  "dumps PNone = ''null''"
| "dumps (PBool b) = (if b then ''true'' else ''false'')"
| "dumps (PInt i) = int_str i"
| "dumps (PStr s) = json_quote s"
| "dumps (PList xs) = ''['' @ dumps_elems xs @ '']''"
| "dumps (PDict d) = ''{'' @ dumps_items d @ ''}''"
| "dumps_elems [] = []"
| "dumps_elems (x # xs) = dumps x @ (if xs = [] then [] else '','' @ dumps_elems xs)"
| "dumps_items [] = []"
| "dumps_items ((k, v) # d) =
     json_quote k @ '':'' @ dumps v @ (if d = [] then [] else '','' @ dumps_items d)"

text \<open>\<open>sort_keys=True\<close>: the keys of every dictionary in code-point order.\<close>

fun canon :: "pyval \<Rightarrow> pyval" and canon_list :: "pyval list \<Rightarrow> pyval list"
  and canon_items :: "(string \<times> pyval) list \<Rightarrow> (string \<times> pyval) list" where
  "canon PNone = PNone"
| "canon (PBool b) = PBool b"
| "canon (PInt i) = PInt i"
| "canon (PStr s) = PStr s"
| "canon (PList xs) = PList (canon_list xs)"
| "canon (PDict d) = PDict (sort_key fst (canon_items d))"
| "canon_list [] = []"
| "canon_list (x # xs) = canon x # canon_list xs"
| "canon_items [] = []"
| "canon_items ((k, v) # d) = (k, canon v) # canon_items d"

definition utf8_char :: "char \<Rightarrow> string" where
  "utf8_char c = (let n = cp c in
     if n < 128 then [c] else [char_of (192 + n div 64), char_of (128 + n mod 64)])"

definition utf8 :: "string \<Rightarrow> string" where
  "utf8 s = concat (map utf8_char s)"

definition json_bytes :: "pyval \<Rightarrow> string" where
  "json_bytes v = utf8 (dumps (canon v))"

section \<open>The serialiser is injective\<close>

text \<open>A code is a prefix code when no two different symbols have encodings that continue to the
  same text; its extension to strings is then injective, also in front of a terminator that no
  encoding starts with.\<close>

definition prefix_code :: "(char \<Rightarrow> string) \<Rightarrow> bool" where
  "prefix_code f \<longleftrightarrow> (\<forall>c. f c \<noteq> []) \<and>
     (\<forall>c d x y. f c @ x = f d @ y \<longrightarrow> c = d \<and> x = y)"

lemma prefix_codeD: "prefix_code f \<Longrightarrow> f c @ x = f d @ y \<Longrightarrow> c = d \<and> x = y"
  unfolding prefix_code_def by blast

lemma prefix_code_nonempty: "prefix_code f \<Longrightarrow> f c \<noteq> []"
  unfolding prefix_code_def by blast

lemma prefix_code_inject:
  assumes f: "prefix_code f"
  shows "concat (map f s) = concat (map f t) \<longleftrightarrow> s = t"
proof
  assume "concat (map f s) = concat (map f t)"
  then show "s = t"
  proof (induction s arbitrary: t)
    case Nil
    then show ?case using prefix_code_nonempty [OF f] by (cases t) auto
  next
    case (Cons c s)
    then obtain d t' where t: "t = d # t'"
      using prefix_code_nonempty [OF f] by (cases t) auto
    with Cons.prems have "f c @ concat (map f s) = f d @ concat (map f t')" by simp
    from prefix_codeD [OF f this] Cons.IH t show ?case by blast
  qed
qed simp

lemma prefix_code_term_inject:
  assumes f: "prefix_code f" and q: "\<And>c. hd (f c) \<noteq> q"
    and eq: "concat (map f s) @ q # x = concat (map f t) @ q # y"
  shows "s = t \<and> x = y"
  using eq
proof (induction s arbitrary: t)
  case Nil
  show ?case
  proof (cases t)
    case (Cons d t')
    obtain h r where h: "f d = h # r" using prefix_code_nonempty [OF f, of d] by (cases "f d") auto
    with q [of d] Nil Cons show ?thesis by simp
  qed (use Nil in simp)
next
  case (Cons c s)
  obtain h r where h: "f c = h # r" using prefix_code_nonempty [OF f, of c] by (cases "f c") auto
  with q [of c] Cons.prems obtain d t' where t: "t = d # t'" by (cases t) auto
  with Cons.prems have "f c @ (concat (map f s) @ q # x) = f d @ (concat (map f t') @ q # y)"
    by simp
  from prefix_codeD [OF f this] Cons.IH t show ?case by blast
qed

lemma prefix_code_by_decoder:
  assumes "\<And>c x. dec (f c @ x) = Some (c, x)" and "\<And>c. f c \<noteq> []"
  shows "prefix_code f"
  unfolding prefix_code_def using assms by (metis option.inject prod.inject)

definition hex_val :: "char \<Rightarrow> nat" where
  "hex_val c = (if cp c < 58 then cp c - 48 else cp c - 87)"

lemma hex_val_digit_char [simp]: "d < 16 \<Longrightarrow> hex_val (digit_char d) = d"
  by (simp add: hex_val_def digit_char_def)

definition json_unescape :: "nat \<Rightarrow> nat" where
  "json_unescape n = (if n = 110 then 10 else if n = 114 then 13 else if n = 116 then 9
     else if n = 98 then 8 else if n = 102 then 12 else n)"

fun json_unchar :: "string \<Rightarrow> (char \<times> string) option" where
  "json_unchar [] = None"
| "json_unchar (h # r) =
     (if cp h \<noteq> 92 then Some (h, r)
      else case r of
          [] \<Rightarrow> None
        | e # r' \<Rightarrow>
            if cp e = 117
            then (case r' of _ # _ # a # b # r'' \<Rightarrow> Some (char_of (16 * hex_val a + hex_val b), r'')
                  | _ \<Rightarrow> None)
            else Some (char_of (json_unescape (cp e)), r'))"

lemma json_unchar_json_char: "json_unchar (json_char c @ x) = Some (c, x)"
proof -
  have h: "cp c div 16 < 16" using cp_less_256 [of c] by linarith
  have e: "cp c = n \<Longrightarrow> c = char_of n" for n by auto
  show ?thesis
    using h by (auto simp: json_char_def Let_def hex2_def json_unescape_def
        dest: e [where n = 8] e [where n = 9] e [where n = 10] e [where n = 12] e [where n = 13]
          e [where n = 34] e [where n = 92])
qed

lemma prefix_code_json_char: "prefix_code json_char"
  by (rule prefix_code_by_decoder [OF json_unchar_json_char]) (auto simp: json_char_def Let_def)

lemma hd_json_char: "hd (json_char c) \<noteq> CHR 0x22"
  by (auto simp: json_char_def Let_def)

fun utf8_unchar :: "string \<Rightarrow> (char \<times> string) option" where
  "utf8_unchar [] = None"
| "utf8_unchar (a # r) =
     (if cp a < 128 then Some (a, r)
      else case r of [] \<Rightarrow> None
           | b # r' \<Rightarrow> Some (char_of (64 * (cp a - 192) + (cp b - 128)), r'))"

lemma utf8_unchar_utf8_char: "utf8_unchar (utf8_char c @ x) = Some (c, x)"
proof -
  have h: "192 + cp c div 64 < 256" "128 + cp c mod 64 < 256" using cp_less_256 [of c] by linarith+
  then show ?thesis by (auto simp: utf8_char_def Let_def)
qed

lemma prefix_code_utf8_char: "prefix_code utf8_char"
  by (rule prefix_code_by_decoder [OF utf8_unchar_utf8_char]) (simp add: utf8_char_def Let_def)

lemma utf8_inject: "utf8 s = utf8 t \<longleftrightarrow> s = t"
  unfolding utf8_def by (rule prefix_code_inject [OF prefix_code_utf8_char])

lemma json_quote_inject: "json_quote s @ x = json_quote t @ y \<longleftrightarrow> s = t \<and> x = y"
  using prefix_code_term_inject [OF prefix_code_json_char hd_json_char, of s x t y]
  by (auto simp: json_quote_def)

text \<open>A number ends where a delimiter starts, so texts that follow a value are delimiters.\<close>

definition delim :: "string \<Rightarrow> bool" where
  "delim r \<longleftrightarrow> r = [] \<or> hd r \<in> set '',]}''"

definition num_char :: "char \<Rightarrow> bool" where
  "num_char c \<longleftrightarrow> is_digit c \<or> c = CHR ''-''"

lemma num_char_int_str: "c \<in> set (int_str i) \<Longrightarrow> num_char c"
  by (auto simp: int_str_def num_char_def split: if_splits dest: nat_str_digits)

lemma nat_str_not_minus: "nat_str n \<noteq> CHR ''-'' # s"
proof
  assume "nat_str n = CHR ''-'' # s"
  then have "is_digit (CHR ''-'')" using nat_str_digits [of "CHR ''-''" n] by simp
  then show False by (simp add: is_digit_def)
qed

lemma int_str_inject [simp]: "int_str i = int_str j \<longleftrightarrow> i = j"
  using nat_str_not_minus nat_str_not_minus [symmetric] by (auto simp: int_str_def)

lemma takeWhile_int_str: "delim x \<Longrightarrow> takeWhile num_char (int_str i @ x) = int_str i"
proof -
  assume x: "delim x"
  have n: "takeWhile num_char x = []"
    using x by (cases x) (auto simp: delim_def num_char_def is_digit_def)
  have "\<forall>c \<in> set (int_str i). num_char c" using num_char_int_str by blast
  with n show ?thesis by (simp add: takeWhile_append)
qed

lemma int_str_delim_inject:
  assumes "delim x" "delim y" "int_str i @ x = int_str j @ y"
  shows "i = j \<and> x = y"
proof -
  from assms have "int_str i = int_str j" by (metis takeWhile_int_str)
  with assms(3) show ?thesis by simp
qed

lemma int_str_head: obtains h r where "int_str i = h # r" "num_char h"
proof (cases "int_str i")
  case Nil
  then show ?thesis by (simp add: int_str_def split: if_splits)
next
  case (Cons h r)
  then have "num_char h" using num_char_int_str [of h i] by simp
  with Cons that show ?thesis by blast
qed

lemma num_char_simps [simp]:
  "\<not> num_char (CHR ''n'')" "\<not> num_char (CHR ''t'')" "\<not> num_char (CHR ''f'')"
  "\<not> num_char (CHR 0x22)" "\<not> num_char (CHR ''['')" "\<not> num_char (CHR ''{'')"
  by (simp_all add: num_char_def is_digit_def)

text \<open>The first character of an encoding tells the kind of the value.\<close>

fun kind_of :: "pyval \<Rightarrow> nat" where
  "kind_of PNone = 0"
| "kind_of (PBool b) = (if b then 1 else 2)"
| "kind_of (PInt i) = 3"
| "kind_of (PStr s) = 4"
| "kind_of (PList xs) = 5"
| "kind_of (PDict d) = 6"

definition char_kind :: "char \<Rightarrow> nat" where
  "char_kind c = (if c = CHR ''n'' then 0 else if c = CHR ''t'' then 1 else if c = CHR ''f'' then 2
     else if num_char c then 3 else if c = CHR 0x22 then 4 else if c = CHR ''['' then 5 else 6)"

lemma dumps_head: "\<exists>h r. dumps v = h # r \<and> char_kind h = kind_of v"
proof (cases v)
  case (PInt i)
  obtain h r where "int_str i = h # r" "num_char h" by (rule int_str_head)
  then show ?thesis using PInt num_char_simps by (auto simp: char_kind_def)
qed (auto simp: char_kind_def json_quote_def)

lemma dumps_kind: "dumps v @ x = dumps w @ y \<Longrightarrow> kind_of v = kind_of w"
  by (metis append_Cons dumps_head list.inject)

lemma delim_Cons: "delim (CHR '','' # r)" "delim (CHR '']'' # r)" "delim (CHR ''}'' # r)"
  by (simp_all add: delim_def)

lemma not_close_head: "dumps v @ x \<noteq> CHR '']'' # y" "CHR '']'' # y \<noteq> dumps v @ x"
  "json_quote k @ x \<noteq> CHR ''}'' # y" "CHR ''}'' # y \<noteq> json_quote k @ x"
proof -
  obtain h r where h: "dumps v = h # r" "char_kind h = kind_of v" using dumps_head by blast
  have "char_kind (CHR '']'') = 6" by (simp add: char_kind_def num_char_def is_digit_def)
  moreover have "kind_of v = 6 \<Longrightarrow> h = CHR ''{''" using h by (cases v) (auto split: if_splits)
  ultimately have "h \<noteq> CHR '']''" using h by auto
  with h show "dumps v @ x \<noteq> CHR '']'' # y" "CHR '']'' # y \<noteq> dumps v @ x" by auto
  show "json_quote k @ x \<noteq> CHR ''}'' # y" "CHR ''}'' # y \<noteq> json_quote k @ x"
    by (simp_all add: json_quote_def)
qed

lemma dumps_inject_aux:
  "\<And>w x y. delim x \<Longrightarrow> delim y \<Longrightarrow> dumps v @ x = dumps w @ y \<Longrightarrow> v = w \<and> x = y"
  "\<And>ys x y. dumps_elems xs @ CHR '']'' # x = dumps_elems ys @ CHR '']'' # y \<Longrightarrow> xs = ys \<and> x = y"
  "\<And>e x y. dumps_items d @ CHR ''}'' # x = dumps_items e @ CHR ''}'' # y \<Longrightarrow> d = e \<and> x = y"
proof (induction v and xs and d rule: dumps_dumps_elems_dumps_items.induct)
  case 1
  then have "kind_of w = 0" using dumps_kind [of PNone x w y] by simp
  then have "w = PNone" by (cases w) (auto split: if_splits)
  with 1 show ?case by simp
next
  case (2 b)
  then have "kind_of w = (if b then 1 else 2)" using dumps_kind [of "PBool b" x w y] by simp
  then have "w = PBool b" by (cases w) (auto split: if_splits)
  with 2 show ?case by simp
next
  case (3 i)
  then have "kind_of w = 3" using dumps_kind [of "PInt i" x w y] by simp
  then obtain j where "w = PInt j" by (cases w) (auto split: if_splits)
  with 3 int_str_delim_inject [of x y i j] show ?case by simp
next
  case (4 s)
  then have "kind_of w = 4" using dumps_kind [of "PStr s" x w y] by simp
  then obtain t where "w = PStr t" by (cases w) (auto split: if_splits)
  with 4 show ?case by (simp add: json_quote_inject)
next
  case (5 xs)
  then have "kind_of w = 5" using dumps_kind [of "PList xs" x w y] by simp
  then obtain ys where w: "w = PList ys" by (cases w) (auto split: if_splits)
  with "5.prems" have "dumps_elems xs @ CHR '']'' # x = dumps_elems ys @ CHR '']'' # y" by simp
  from "5.IH" [OF this] w show ?case by simp
next
  case (6 d)
  then have "kind_of w = 6" using dumps_kind [of "PDict d" x w y] by simp
  then obtain e where w: "w = PDict e" by (cases w) (auto split: if_splits)
  with "6.prems" have "dumps_items d @ CHR ''}'' # x = dumps_items e @ CHR ''}'' # y" by simp
  from "6.IH" [OF this] w show ?case by simp
next
  case 7
  then show ?case by (cases ys) (auto simp: not_close_head)
next
  case (8 v xs)
  then obtain w ws where ys: "ys = w # ws" by (cases ys) (auto simp: not_close_head)
  let ?rest = "\<lambda>zs z. (if zs = [] then [] else '','' @ dumps_elems zs) @ CHR '']'' # z"
  have d: "delim (?rest zs z)" for zs z by (simp add: delim_Cons)
  from 8 ys have "dumps v @ ?rest xs x = dumps w @ ?rest ws y" by simp
  with 8(1) [OF d d] have "v = w" and "?rest xs x = ?rest ws y" by blast+
  moreover from this(2) have "xs = ws \<and> x = y"
  proof (cases "xs = [] \<or> ws = []")
    case False
    with \<open>?rest xs x = ?rest ws y\<close>
    have "dumps_elems xs @ CHR '']'' # x = dumps_elems ws @ CHR '']'' # y" by simp
    with False show ?thesis using 8(2) by blast
  qed (auto split: if_splits)
  ultimately show ?case using ys by blast
next
  case 9
  then show ?case by (cases e) (auto simp: not_close_head split: prod.splits)
next
  case (10 k v d)
  then obtain l w ws where e: "e = (l, w) # ws" by (cases e) (auto simp: not_close_head)
  let ?rest = "\<lambda>zs z. (if zs = [] then [] else '','' @ dumps_items zs) @ CHR ''}'' # z"
  have dl: "delim (?rest zs z)" for zs z by (simp add: delim_Cons)
  from 10 e have "json_quote k @ CHR '':'' # dumps v @ ?rest d x
      = json_quote l @ CHR '':'' # dumps w @ ?rest ws y" by simp
  then have "k = l" and "dumps v @ ?rest d x = dumps w @ ?rest ws y"
    by (simp_all add: json_quote_inject)
  with 10(1) [OF dl dl] have "v = w" and "?rest d x = ?rest ws y" by blast+
  moreover from this(2) have "d = ws \<and> x = y"
  proof (cases "d = [] \<or> ws = []")
    case False
    with \<open>?rest d x = ?rest ws y\<close>
    have "dumps_items d @ CHR ''}'' # x = dumps_items ws @ CHR ''}'' # y" by simp
    with False show ?thesis using 10(2) by blast
  qed (auto split: if_splits)
  ultimately show ?case using e \<open>k = l\<close> by blast
qed

lemma dumps_inject: "dumps v = dumps w \<longleftrightarrow> v = w"
  using dumps_inject_aux(1) [of "[]" "[]" v w] by (auto simp: delim_def)

lemma json_bytes_inject: "json_bytes v = json_bytes w \<longleftrightarrow> canon v = canon w"
  by (simp add: json_bytes_def utf8_inject dumps_inject)

end
