(* ===== verification/Actions.thy ===== *)
theory Actions
  imports Pyvalue
begin

text \<open>
  \<^verbatim>\<open>src/src/atlas/actions.py\<close>: risk tiers, the approval policy and the immutable records
  (proposed action, approval decision, action result) that flow through the graph.

  \<open>requires_approval\<close> takes the union type of the source, \<open>RiskTier | str | None\<close> and anything
  else, as the datatype \<open>tier_arg\<close>. An action id is an opaque string; the source of fresh ids is
  a parameter of the definitions that create actions.
\<close>

datatype risk_tier = READ | WRITE | SEND | DELETE | PAY

primrec tier_value :: "risk_tier \<Rightarrow> string" where
  "tier_value READ = ''read''"
| "tier_value WRITE = ''write''"
| "tier_value SEND = ''send''"
| "tier_value DELETE = ''delete''"
| "tier_value PAY = ''pay''"

text \<open>The enum lookup \<open>RiskTier(s)\<close>; \<open>None\<close> is its \<open>ValueError\<close>.\<close>

definition tier_of_value :: "string \<Rightarrow> risk_tier option" where
  "tier_of_value s = find (\<lambda>t. tier_value t = s) [READ, WRITE, SEND, DELETE, PAY]"

definition is_auto_safe :: "risk_tier \<Rightarrow> bool" where
  "is_auto_safe t = (t = READ)"

definition AUTO_APPROVED_TIERS :: "risk_tier list" where
  "AUTO_APPROVED_TIERS = [READ]"

datatype tier_arg = TierEnum risk_tier | TierStr string | TierNone | TierOther pyval

definition requires_approval :: "tier_arg \<Rightarrow> bool" where
  "requires_approval a = (case a of
     TierEnum t \<Rightarrow> t \<notin> set AUTO_APPROVED_TIERS
   | TierStr s \<Rightarrow>
       (case tier_of_value s of
          Some t \<Rightarrow> t \<notin> set AUTO_APPROVED_TIERS
        | None \<Rightarrow> True)
   | TierNone \<Rightarrow> True
   | TierOther _ \<Rightarrow> True)"

record proposed_action =
  pa_id :: string
  pa_tool :: string
  pa_args :: pydict
  pa_tier :: risk_tier
  pa_rationale :: string
  pa_permission :: "string option"

definition needs_approval :: "proposed_action \<Rightarrow> bool" where
  "needs_approval a = requires_approval (TierEnum (pa_tier a))"

record approval_decision =
  ad_id :: string
  ad_approved :: bool
  ad_by :: string

record action_result =
  ar_id :: string
  ar_tool :: string
  ar_ok :: bool
  ar_output :: pyval
  ar_error :: "string option"

section \<open>The approval policy\<close>

lemma tier_of_value_tier_value [simp]: "tier_of_value (tier_value t) = Some t"
  by (cases t) (simp_all add: tier_of_value_def)

lemma tier_of_value_Some_iff: "tier_of_value s = Some t \<longleftrightarrow> s = tier_value t"
proof
  assume "tier_of_value s = Some t"
  then show "s = tier_value t"
    unfolding tier_of_value_def by (auto simp only: find_Some_iff)
qed simp

lemma tier_value_inject [simp]: "tier_value s = tier_value t \<longleftrightarrow> s = t"
  by (metis option.inject tier_of_value_tier_value)

lemma needs_approval_iff [simp]: "needs_approval a \<longleftrightarrow> pa_tier a \<noteq> READ"
  by (simp add: needs_approval_def requires_approval_def AUTO_APPROVED_TIERS_def)

lemma requires_approval_enum [simp]: "requires_approval (TierEnum t) \<longleftrightarrow> t \<noteq> READ"
  by (simp add: requires_approval_def AUTO_APPROVED_TIERS_def)

lemma requires_approval_iff:
  "requires_approval a \<longleftrightarrow> a \<noteq> TierEnum READ \<and> a \<noteq> TierStr ''read''"
proof (cases a)
  case (TierStr s)
  show ?thesis
  proof (cases "tier_of_value s")
    case None
    then have "s \<noteq> ''read''" by (metis option.distinct(1) tier_of_value_tier_value tier_value.simps(1))
    with None TierStr show ?thesis by (simp add: requires_approval_def)
  next
    case (Some t)
    then have "s = tier_value t" by (simp add: tier_of_value_Some_iff)
    moreover have "tier_value t = ''read'' \<longleftrightarrow> t = READ" by (cases t) auto
    ultimately show ?thesis
      using Some TierStr by (simp add: requires_approval_def AUTO_APPROVED_TIERS_def)
  qed
qed (simp_all add: requires_approval_def AUTO_APPROVED_TIERS_def)

text \<open>The approval gate is fail-closed: the only arguments that do not need a human are the
  READ tier itself and the string that names it; every other tier, every unknown or differently
  spelled string, a missing tier and a value of any other type need approval. On the tiers it is
  the complement of \<open>is_auto_safe\<close>.\<close>

theorem requires_approval_fail_closed:
  "(\<not> requires_approval a) = (a \<in> {TierEnum READ, TierStr (tier_value READ)}) \<and>
   requires_approval (TierEnum t) = (\<not> is_auto_safe t)"
  using requires_approval_iff [of a] by (auto simp: is_auto_safe_def)

end
