(* ===== verification/Rbac.thy ===== *)
theory Rbac
  imports Actions
begin

text \<open>
  \<^verbatim>\<open>src/src/atlas/governance/rbac.py\<close>, \<^verbatim>\<open>governance/policy.py\<close>,
  \<^verbatim>\<open>persistence/policy_store.py\<close> and the seeding loop of \<^verbatim>\<open>scripts/manage_policy.py\<close>:
  principals, role expansion, the permission matching rule, and the two policy stores.

  A permission set is a \<open>string set\<close>, a role mapping a \<open>dict\<close> to permission sets. The table
  \<open>atlas_role_permissions\<close> is the list of its rows; its primary key makes the rows distinct
  (\<open>pg_ok\<close>). The locale \<open>policy_store\<close> is the abstract class of the source: what a backend has
  to promise so that \<open>policy_can\<close> is default-deny and decided grant by grant. It is interpreted on
  the in-memory mapping and on the table.
\<close>

definition WILDCARD :: string where
  "WILDCARD = ''*''"

record principal =
  user_id :: string
  roles :: "string list"
  org_id :: "string option"

definition anonymous :: principal where
  "anonymous = \<lparr>user_id = ''anonymous'', roles = [], org_id = None\<rparr>"

definition ROLE_PERMISSIONS :: "string set dict" where
  "ROLE_PERMISSIONS =
    [(''admin'', {''*''}),
     (''member'',
       {''tool:send:*'', ''tool:slack:post:*'', ''tool:gmail:send:*'', ''tool:calendar:write'',
        ''tool:slack:post_as_user'', ''tool:slack:delete_message:*'', ''kg:read:org'',
        ''kg:read:personal''}),
     (''guest'', {''kg:read:personal''})]"

section \<open>Role expansion and matching\<close>

text \<open>The loop of \<open>expand_roles\<close>, with the permissions collected so far.\<close>

fun expand_loop :: "string set dict \<Rightarrow> string set \<Rightarrow> string list \<Rightarrow> string set" where
  "expand_loop mapping permissions [] = permissions"
| "expand_loop mapping permissions (role # rs) =
     (case dict_get mapping role of
        None \<Rightarrow> expand_loop mapping permissions rs
      | Some granted \<Rightarrow>
          if WILDCARD \<in> granted then {WILDCARD}
          else expand_loop mapping (permissions \<union> granted) rs)"

definition expand_roles :: "string list \<Rightarrow> string set dict \<Rightarrow> string set" where
  "expand_roles rs mapping = expand_loop mapping {} rs"

definition permission_satisfied :: "string set \<Rightarrow> string \<Rightarrow> bool" where
  "permission_satisfied granted required =
     (if WILDCARD \<in> granted \<or> required \<in> granted then True
      else (\<exists>g \<in> granted. endswith g '':*'' \<and> startswith required (butlast g)))"

definition get_effective_permissions :: "principal option \<Rightarrow> string set" where
  "get_effective_permissions p =
     (case p of None \<Rightarrow> {} | Some q \<Rightarrow> expand_roles (roles q) ROLE_PERMISSIONS)"

definition can :: "principal option \<Rightarrow> string option \<Rightarrow> bool" where
  "can p permission =
     (case permission of
        None \<Rightarrow> True
      | Some req \<Rightarrow> permission_satisfied (get_effective_permissions p) req)"

section \<open>Policy stores\<close>

text \<open>\<open>PolicyStore.can\<close>, over the backend's \<open>effective_permissions\<close>.\<close>

definition policy_can ::
  "(principal option \<Rightarrow> string set) \<Rightarrow> principal option \<Rightarrow> string option \<Rightarrow> bool" where
  "policy_can eff p permission =
     (case permission of None \<Rightarrow> True | Some req \<Rightarrow> permission_satisfied (eff p) req)"

definition mem_policy_init :: "string set dict option \<Rightarrow> string set dict" where
  "mem_policy_init mapping = (case mapping of None \<Rightarrow> ROLE_PERMISSIONS | Some m \<Rightarrow> m)"

definition mem_effective_permissions :: "string set dict \<Rightarrow> principal option \<Rightarrow> string set" where
  "mem_effective_permissions mapping p =
     (case p of None \<Rightarrow> {} | Some q \<Rightarrow> expand_roles (roles q) mapping)"

type_synonym policy_table = "(string \<times> string) list"

definition pg_ok :: "policy_table \<Rightarrow> bool" where
  "pg_ok t = distinct t"

definition pg_effective_permissions :: "policy_table \<Rightarrow> principal option \<Rightarrow> string set" where
  "pg_effective_permissions t p =
     (case p of
        None \<Rightarrow> {}
      | Some q \<Rightarrow>
          if roles q = [] then {}
          else (let perms = set (map snd (filter (\<lambda>row. fst row \<in> set (roles q)) t))
                in if WILDCARD \<in> perms then {WILDCARD} else perms))"

definition pg_grant :: "string \<Rightarrow> string \<Rightarrow> policy_table \<Rightarrow> policy_table" where
  "pg_grant role permission t =
     (if (role, permission) \<in> set t then t else t @ [(role, permission)])"

definition pg_revoke :: "string \<Rightarrow> string \<Rightarrow> policy_table \<Rightarrow> policy_table" where
  "pg_revoke role permission t = filter (\<lambda>row. row \<noteq> (role, permission)) t"

text \<open>\<open>list_policies\<close>: the rows in key order, grouped by role in a \<open>defaultdict(set)\<close>.\<close>

definition group_row :: "string set dict \<Rightarrow> string \<times> string \<Rightarrow> string set dict" where
  "group_row grouped row =
     (let have = (case dict_get grouped (fst row) of None \<Rightarrow> {} | Some s \<Rightarrow> s)
      in dict_set (fst row) (insert (snd row) have) grouped)"

definition list_policies :: "policy_table \<Rightarrow> string set dict" where
  "list_policies t = foldl group_row [] (sort_key fst (sort_key snd t))"

definition pg_is_empty :: "policy_table \<Rightarrow> bool" where
  "pg_is_empty t = (t = [])"

definition missing_default_grants :: "policy_table \<Rightarrow> string set dict" where
  "missing_default_grants t =
     (let current = list_policies t;
          absent = map (\<lambda>(role, defaults).
            (role, defaults - (case dict_get current role of None \<Rightarrow> {} | Some h \<Rightarrow> h))) ROLE_PERMISSIONS
      in filter (\<lambda>(role, perms). perms \<noteq> {}) absent)"

text \<open>\<open>_cmd_seed\<close>: one grant for every permission of every role of the JSON file.\<close>

definition cmd_seed :: "string list dict \<Rightarrow> policy_table \<Rightarrow> policy_table" where
  "cmd_seed mapping t =
     foldl (\<lambda>t (role, permissions). foldl (\<lambda>t permission. pg_grant role permission t) t permissions)
       t mapping"

text \<open>The contents of \<^verbatim>\<open>src/config/default_policies.json\<close>.\<close>

definition DEFAULT_POLICIES :: "string list dict" where
  "DEFAULT_POLICIES =
    [(''admin'', [''*'']),
     (''member'',
       [''tool:send:*'', ''tool:slack:post:*'', ''tool:gmail:send:*'', ''tool:calendar:write'',
        ''tool:slack:post_as_user'', ''tool:slack:delete_message:*'', ''kg:read:org'',
        ''kg:read:personal'']),
     (''guest'', [''kg:read:personal''])]"

section \<open>One grant at a time\<close>

text \<open>The reference: when a single granted permission covers a required one.\<close>

definition covers :: "string \<Rightarrow> string \<Rightarrow> bool" where
  "covers g req \<longleftrightarrow> g = WILDCARD \<or> g = req \<or>
     (\<exists>p rest. g = p @ '':*'' \<and> req = p @ '':'' @ rest)"

lemma hierarchical_iff:
  "endswith g '':*'' \<and> startswith req (butlast g) \<longleftrightarrow>
   (\<exists>p rest. g = p @ '':*'' \<and> req = p @ '':'' @ rest)"
  by (auto simp: suffix_def prefix_def butlast_append)

lemma permission_satisfied_iff: "permission_satisfied G req \<longleftrightarrow> (\<exists>g \<in> G. covers g req)"
  unfolding permission_satisfied_def hierarchical_iff covers_def by auto

lemma permission_satisfied_simps [simp]:
  "\<not> permission_satisfied {} req" "permission_satisfied {WILDCARD} req"
  by (simp_all add: permission_satisfied_def)

lemma permission_satisfied_Un:
  "permission_satisfied (A \<union> B) req \<longleftrightarrow> permission_satisfied A req \<or> permission_satisfied B req"
  by (auto simp: permission_satisfied_iff)

definition role_grants :: "string set dict \<Rightarrow> string \<Rightarrow> string \<Rightarrow> bool" where
  "role_grants mapping role req \<longleftrightarrow>
     (case dict_get mapping role of None \<Rightarrow> False | Some G \<Rightarrow> permission_satisfied G req)"

lemma role_grants_iff:
  "role_grants mapping role req \<longleftrightarrow> (\<exists>G g. dict_get mapping role = Some G \<and> g \<in> G \<and> covers g req)"
  by (cases "dict_get mapping role") (auto simp: role_grants_def permission_satisfied_iff)

lemma permission_satisfied_wild: "WILDCARD \<in> G \<Longrightarrow> permission_satisfied G req"
  by (simp add: permission_satisfied_def)

lemma expand_loop_satisfied:
  "permission_satisfied (expand_loop mapping acc rs) req \<longleftrightarrow>
   permission_satisfied acc req \<or> (\<exists>role \<in> set rs. role_grants mapping role req)"
proof (induction rs arbitrary: acc)
  case (Cons r rs)
  then show ?case
    by (auto simp: role_grants_def permission_satisfied_Un permission_satisfied_wild
        split: option.splits)
qed simp

lemma expand_roles_satisfied:
  "permission_satisfied (expand_roles rs mapping) req \<longleftrightarrow>
   (\<exists>role \<in> set rs. role_grants mapping role req)"
  by (simp add: expand_roles_def expand_loop_satisfied)

lemma expand_loop_set:
  "expand_loop mapping acc rs =
     (let all = (\<Union>role \<in> set rs. case dict_get mapping role of None \<Rightarrow> {} | Some G \<Rightarrow> G)
      in if WILDCARD \<in> all then {WILDCARD} else acc \<union> all)"
  by (induction rs arbitrary: acc) (auto simp: Let_def split: option.splits)

section \<open>The policy store interface\<close>

locale policy_store =
  fixes effective :: "'s \<Rightarrow> principal option \<Rightarrow> string set"
    and granted :: "'s \<Rightarrow> string \<Rightarrow> string \<Rightarrow> bool"
  assumes no_principal: "effective st None = {}"
    and by_role: "permission_satisfied (effective st (Some p)) req
      \<longleftrightarrow> (\<exists>role \<in> set (roles p). granted st role req)"
begin

lemma can_iff:
  "policy_can (effective st) p perm \<longleftrightarrow>
   perm = None \<or> (\<exists>q req role. p = Some q \<and> perm = Some req \<and> role \<in> set (roles q) \<and> granted st role req)"
  by (cases p; cases perm) (auto simp: policy_can_def no_principal by_role)

lemma deny_by_default:
  "p = None \<or> p = Some anonymous \<or> (\<exists>q. p = Some q \<and> (\<forall>role \<in> set (roles q). \<not> granted st role req))
   \<Longrightarrow> \<not> policy_can (effective st) p (Some req)"
  by (auto simp: can_iff anonymous_def)

lemma role_mono:
  "set (roles p) \<subseteq> set (roles q) \<Longrightarrow> policy_can (effective st) (Some p) perm
   \<Longrightarrow> policy_can (effective st) (Some q) perm"
  by (auto simp: can_iff)

end

interpretation mem_policy: policy_store mem_effective_permissions role_grants
  by unfold_locales (simp_all add: mem_effective_permissions_def expand_roles_satisfied)

section \<open>The table refines the mapping\<close>

lemma pg_effective_set:
  "pg_effective_permissions t (Some p) =
     (let perms = {perm. \<exists>role \<in> set (roles p). (role, perm) \<in> set t}
      in if WILDCARD \<in> perms then {WILDCARD} else perms)"
proof -
  have "set (map snd (filter (\<lambda>row. fst row \<in> set (roles p)) t))
      = {perm. \<exists>role \<in> set (roles p). (role, perm) \<in> set t}" by force
  then show ?thesis by (auto simp: pg_effective_permissions_def Let_def)
qed

lemma dict_get_group_rows:
  "dict_get (foldl group_row acc rows) role =
     (let new = {perm. (role, perm) \<in> set rows}
      in if new = {} then dict_get acc role
         else Some (new \<union> (case dict_get acc role of None \<Rightarrow> {} | Some h \<Rightarrow> h)))"
proof (induction rows arbitrary: acc)
  case (Cons row rows)
  then show ?case
    by (cases row) (auto simp: group_row_def Let_def split: option.splits)
qed (simp add: Let_def)

lemma dict_get_list_policies:
  "dict_get (list_policies t) role =
     (let perms = {perm. (role, perm) \<in> set t} in if perms = {} then None else Some perms)"
  unfolding list_policies_def dict_get_group_rows by (simp add: Let_def)

lemma pg_refines_mem:
  "pg_effective_permissions t p = mem_effective_permissions (list_policies t) p"
proof (cases p)
  case (Some q)
  have "(\<Union>role \<in> set (roles q). case dict_get (list_policies t) role of None \<Rightarrow> {} | Some G \<Rightarrow> G)
      = {perm. \<exists>role \<in> set (roles q). (role, perm) \<in> set t}"
    by (fastforce simp: dict_get_list_policies Let_def split: if_splits)
  then show ?thesis
    using Some by (simp add: pg_effective_set mem_effective_permissions_def expand_roles_def
        expand_loop_set Let_def)
qed (simp add: pg_effective_permissions_def mem_effective_permissions_def)

interpretation pg_policy: policy_store pg_effective_permissions "\<lambda>t. role_grants (list_policies t)"
  by unfold_locales (simp_all add: pg_refines_mem mem_policy.no_principal mem_policy.by_role)

lemma set_pg_grant [simp]: "set (pg_grant role perm t) = insert (role, perm) (set t)"
  by (auto simp: pg_grant_def)

lemma set_pg_revoke [simp]: "set (pg_revoke role perm t) = set t - {(role, perm)}"
  by (auto simp: pg_revoke_def)

lemma pg_ok_ops [simp]:
  "pg_ok t \<Longrightarrow> pg_ok (pg_grant role perm t)" "pg_ok t \<Longrightarrow> pg_ok (pg_revoke role perm t)"
  by (simp_all add: pg_ok_def pg_grant_def pg_revoke_def)

lemma set_grants: "set (foldl (\<lambda>t perm. pg_grant role perm t) t perms) = set t \<union> Pair role ` set perms"
  by (induction perms arbitrary: t) auto

lemma set_cmd_seed: "set (cmd_seed mapping t) = set t \<union> {(role, perm). \<exists>ps. (role, ps) \<in> set mapping \<and> perm \<in> set ps}"
proof (induction mapping arbitrary: t)
  case (Cons m mapping)
  then show ?case by (cases m) (auto simp: cmd_seed_def set_grants)
qed (simp add: cmd_seed_def)

lemma pg_ok_grants: "pg_ok t \<Longrightarrow> pg_ok (foldl (\<lambda>t perm. pg_grant role perm t) t perms)"
  by (induction perms arbitrary: t) auto

lemma pg_ok_cmd_seed: "pg_ok t \<Longrightarrow> pg_ok (cmd_seed mapping t)"
  by (induction mapping arbitrary: t) (auto simp: cmd_seed_def pg_ok_grants)

lemma pg_granted_iff:
  "role_grants (list_policies t) role req \<longleftrightarrow> (\<exists>g. (role, g) \<in> set t \<and> covers g req)"
  by (auto simp: role_grants_def dict_get_list_policies permission_satisfied_iff Let_def)

lemma pg_can_iff:
  "policy_can (pg_effective_permissions t) (Some q) (Some req) \<longleftrightarrow>
   (\<exists>role \<in> set (roles q). \<exists>g. (role, g) \<in> set t \<and> covers g req)"
  by (auto simp: pg_policy.can_iff pg_granted_iff)

lemma seeded_role_grants:
  assumes "dict_ok m"
  shows "role_grants (list_policies (cmd_seed m [])) = role_grants (map (\<lambda>(role, ps). (role, set ps)) m)"
proof (intro ext)
  fix role req
  have "dict_get (map (\<lambda>(role, ps). (role, set ps)) m) role = map_option set (dict_get m role)"
    by (simp add: map_of_map)
  moreover have "(role, ps) \<in> set m \<longleftrightarrow> dict_get m role = Some ps" for ps
    using assms by (simp add: dict_ok_def dict_keys_def)
  ultimately show "role_grants (list_policies (cmd_seed m [])) role req =
      role_grants (map (\<lambda>(role, ps). (role, set ps)) m) role req"
    unfolding pg_granted_iff by (auto simp: set_cmd_seed role_grants_iff)
qed

lemma DEFAULT_POLICIES_sets: "map (\<lambda>(role, ps). (role, set ps)) DEFAULT_POLICIES = ROLE_PERMISSIONS"
  by (simp add: DEFAULT_POLICIES_def ROLE_PERMISSIONS_def)

lemma dict_ok_DEFAULT_POLICIES: "dict_ok DEFAULT_POLICIES"
  by (simp add: DEFAULT_POLICIES_def dict_ok_def dict_keys_def)

lemma can_mem: "can p perm = policy_can (mem_effective_permissions ROLE_PERMISSIONS) p perm"
  by (cases perm; cases p)
    (simp_all add: can_def policy_can_def get_effective_permissions_def mem_effective_permissions_def)

lemma pg_grant_present [simp]: "(role, perm) \<in> set t \<Longrightarrow> pg_grant role perm t = t"
  by (simp add: pg_grant_def)

lemma grants_present:
  "Pair role ` set perms \<subseteq> set t \<Longrightarrow> foldl (\<lambda>t perm. pg_grant role perm t) t perms = t"
  by (induction perms) auto

lemma cmd_seed_present:
  "{(role, perm). \<exists>ps. (role, ps) \<in> set m \<and> perm \<in> set ps} \<subseteq> set t \<Longrightarrow> cmd_seed m t = t"
proof (induction m)
  case (Cons x m)
  obtain role ps where x: "x = (role, ps)" by (cases x)
  with Cons.prems have "Pair role ` set ps \<subseteq> set t" by auto
  then have "foldl (\<lambda>t perm. pg_grant role perm t) t ps = t" by (rule grants_present)
  with Cons x show ?case by (fastforce simp: cmd_seed_def)
qed (simp add: cmd_seed_def)

lemma missing_none:
  assumes "\<And>role G. (role, G) \<in> set ROLE_PERMISSIONS \<Longrightarrow> Pair role ` G \<subseteq> set t"
  shows "missing_default_grants t = []"
proof -
  have "D - (case dict_get (list_policies t) role of None \<Rightarrow> {} | Some h \<Rightarrow> h) = {}"
    if "(role, D) \<in> set ROLE_PERMISSIONS" for role D
    using assms [OF that] by (auto simp: dict_get_list_policies Let_def)
  then show ?thesis by (auto simp: missing_default_grants_def Let_def filter_empty_conv)
qed

section \<open>Properties\<close>

text \<open>C7: authorization is decided grant by grant. A principal may use a concrete permission exactly
  when one of its roles is known to the mapping and one permission granted to that role covers it
  (the wildcard, equality, or a hierarchical grant); the early return of the expansion loop on a
  wildcard role and the order of the roles make no difference.\<close>

theorem authorization_per_grant:
  "policy_can (mem_effective_permissions m) p (Some req) \<longleftrightarrow>
   (\<exists>q role G g. p = Some q \<and> role \<in> set (roles q) \<and> dict_get m role = Some G \<and> g \<in> G \<and> covers g req)"
  by (auto simp: mem_policy.can_iff role_grants_iff)

text \<open>Default deny. With either backend no concrete permission is granted to a missing
  principal, to the anonymous principal, or to a principal all of whose roles are unknown; an empty
  table denies everything to everyone.\<close>

theorem default_deny:
  "\<not> policy_can (mem_effective_permissions m) None (Some req) \<and>
   \<not> policy_can (mem_effective_permissions m) (Some anonymous) (Some req) \<and>
   \<not> policy_can (pg_effective_permissions t) None (Some req) \<and>
   \<not> policy_can (pg_effective_permissions t) (Some anonymous) (Some req) \<and>
   \<not> policy_can (pg_effective_permissions []) p (Some req) \<and>
   (set (roles q) \<inter> set (dict_keys m) = {} \<longrightarrow>
      \<not> policy_can (mem_effective_permissions m) (Some q) (Some req))"
proof -
  have "\<not> role_grants m role req" if "role \<notin> set (dict_keys m)" for role
    using that by (auto simp: role_grants_def dict_keys_def split: option.splits dest: map_of_SomeD
        intro: rev_image_eqI)
  moreover have "\<not> policy_can (pg_effective_permissions []) p (Some req)"
    by (cases p) (simp_all add: pg_policy.deny_by_default pg_can_iff)
  ultimately show ?thesis
    by (auto simp: pg_policy.deny_by_default mem_policy.can_iff anonymous_def)
qed

theorem default_deny_witness:
  "set (roles \<lparr>user_id = ''u'', roles = [''intern''], org_id = None\<rparr>)
     \<inter> set (dict_keys ROLE_PERMISSIONS) = {} \<and>
   \<not> policy_can (mem_effective_permissions ROLE_PERMISSIONS)
     (Some \<lparr>user_id = ''u'', roles = [''intern''], org_id = None\<rparr>) (Some ''kg:read:personal'')"
  using default_deny [where q = "\<lparr>user_id = ''u'', roles = [''intern''], org_id = None\<rparr>"
      and m = ROLE_PERMISSIONS and req = "''kg:read:personal''"]
  by (simp add: ROLE_PERMISSIONS_def dict_keys_def)

text \<open>A hierarchical grant covers exactly the permissions below its segment, the colon included;
  a grant that neither is the wildcard nor ends in a colon and a star covers itself only, so there is
  no silent hierarchy and no match inside a segment.\<close>

theorem hierarchical_grant_boundary:
  "permission_satisfied {p @ '':*''} req = (\<exists>rest. req = p @ '':'' @ rest) \<and>
   (g \<noteq> WILDCARD \<longrightarrow> \<not> endswith g '':*'' \<longrightarrow> permission_satisfied {g} req = (req = g))"
  by (auto simp: permission_satisfied_iff covers_def WILDCARD_def suffix_def)

theorem hierarchical_grant_boundary_witness:
  "permission_satisfied {''kg:read'' @ '':*''} ''kg:read:org'' \<and>
   \<not> permission_satisfied {''kg:read''} ''kg:read:org''"
  using hierarchical_grant_boundary [of "''kg:read''" "''kg:read:org''" "''kg:read''"]
  by (auto simp: WILDCARD_def suffix_def)

text \<open>The Postgres policy store refines the in-memory one: its effective permissions are those of
  the mapping that \<open>list_policies\<close> reads back, and its decisions follow the edits exactly: a grant adds
  what the granted permission covers to the holders of that role and nothing else, and after a revoke
  the decision is that of the other rows.\<close>

theorem pg_policy_refinement:
  "pg_effective_permissions t p = mem_effective_permissions (list_policies t) p \<and>
   (policy_can (pg_effective_permissions (pg_grant role perm t)) (Some q) (Some req) \<longleftrightarrow>
      policy_can (pg_effective_permissions t) (Some q) (Some req) \<or>
      (role \<in> set (roles q) \<and> covers perm req)) \<and>
   (policy_can (pg_effective_permissions (pg_revoke role perm t)) (Some q) (Some req) \<longleftrightarrow>
      (\<exists>r g. r \<in> set (roles q) \<and> (r, g) \<in> set t \<and> (r, g) \<noteq> (role, perm) \<and> covers g req))"
  by (auto simp: pg_refines_mem pg_can_iff)

text \<open>Seeding. Seeding the default file into an empty table makes the Postgres store decide every
  request as the built-in policy does; seeding twice changes nothing more, seeding never drops a row,
  keeps the primary key, and leaves no default grant missing.\<close>

theorem seed_installs_default_policy:
  "policy_can (pg_effective_permissions (cmd_seed DEFAULT_POLICIES [])) p perm = can p perm \<and>
   cmd_seed m (cmd_seed m t) = cmd_seed m t \<and> set t \<subseteq> set (cmd_seed m t) \<and>
   (pg_ok t \<longrightarrow> pg_ok (cmd_seed m t)) \<and>
   missing_default_grants (cmd_seed DEFAULT_POLICIES t) = []"
proof (intro conjI impI)
  show "policy_can (pg_effective_permissions (cmd_seed DEFAULT_POLICIES [])) p perm = can p perm"
    by (simp add: can_mem pg_policy.can_iff mem_policy.can_iff DEFAULT_POLICIES_sets
        seeded_role_grants [OF dict_ok_DEFAULT_POLICIES])
  show "cmd_seed m (cmd_seed m t) = cmd_seed m t"
    by (rule cmd_seed_present) (simp add: set_cmd_seed)
  show "missing_default_grants (cmd_seed DEFAULT_POLICIES t) = []"
    by (rule missing_none) (auto simp: set_cmd_seed simp flip: DEFAULT_POLICIES_sets)
qed (simp_all add: set_cmd_seed pg_ok_cmd_seed)

theorem seed_installs_default_policy_witness:
  "pg_ok [(''guest'', ''kg:read:personal'')] \<and>
   pg_ok (cmd_seed DEFAULT_POLICIES [(''guest'', ''kg:read:personal'')])"
  using seed_installs_default_policy [where t = "[(''guest'', ''kg:read:personal'')]"
      and m = DEFAULT_POLICIES]
  by (simp add: pg_ok_def)

end
