(* ===== verification/Credentials.thy ===== *)
theory Credentials
  imports Rbac
begin

text \<open>
  \<^verbatim>\<open>src/src/atlas/governance/credentials.py\<close>: the per-principal OAuth vault (its contract and the
  in-memory backend) and \<open>CredentialResolver\<close>, which hands a tool a valid access token and refreshes
  an expiring one.

  The em dash of the messages is written as a hyphen. The clock reading is an argument (microseconds), the provider refresh callbacks are parameters, and
  the resolver is written over the vault operations \<open>get\<close>/\<open>put\<close> as the source is. The locale
  \<open>credential_vault\<close> is the abstract class: identity is required, reads see the last write of the
  same (organisation, user, provider) and nothing else.
\<close>

datatype oauth_provider = GOOGLE | SLACK

primrec provider_value :: "oauth_provider \<Rightarrow> string" where
  "provider_value GOOGLE = ''google''"
| "provider_value SLACK = ''slack''"

definition provider_of_value :: "string \<Rightarrow> oauth_provider option" where
  "provider_of_value s = find (\<lambda>p. provider_value p = s) [GOOGLE, SLACK]"

text \<open>An expiry is an instant in microseconds; a naive datetime is one without a time zone.\<close>

datatype expiry = Aware int | Naive int

record stored_credential =
  sc_provider :: oauth_provider
  sc_scopes :: "string list"
  sc_access_token :: string
  sc_refresh_token :: "string option"
  sc_expires_at :: "expiry option"
  sc_token_type :: string
  sc_metadata :: "string dict"

definition TOKEN_REFRESH_SKEW_SECONDS :: int where
  "TOKEN_REFRESH_SKEW_SECONDS = 120"

definition access_error :: "string \<Rightarrow> exn" where
  "access_error msg = Exn ''CredentialAccessError'' msg"

definition require_org_id :: "principal \<Rightarrow> string result" where
  "require_org_id p =
     (case org_id p of
        None \<Rightarrow> Inl (access_error ''org_id is required for credential storage'')
      | Some oid \<Rightarrow>
          if oid = [] \<or> strip oid = []
          then Inl (access_error ''org_id is required for credential storage'')
          else if p = anonymous
          then Inl (access_error ''anonymous principal cannot access credentials'')
          else Inr oid)"

definition assert_principal_scope :: "principal \<Rightarrow> string \<Rightarrow> string \<Rightarrow> unit result" where
  "assert_principal_scope p oid uid =
     result_bind (require_org_id p) (\<lambda>_.
       if user_id p \<noteq> uid then Inl (access_error ''credential access denied for user_id'')
       else if org_id p \<noteq> Some oid then Inl (access_error ''credential access denied for org_id'')
       else Inr ())"

section \<open>The in-memory vault\<close>

type_synonym cred_key = "string \<times> string \<times> oauth_provider"
type_synonym mem_vault = "(cred_key \<times> stored_credential) list"

definition vault_key :: "principal \<Rightarrow> oauth_provider \<Rightarrow> cred_key result" where
  "vault_key p provider =
     result_bind (require_org_id p) (\<lambda>oid. Inr (oid, user_id p, provider))"

definition mem_vault_put ::
  "principal \<Rightarrow> oauth_provider \<Rightarrow> stored_credential \<Rightarrow> mem_vault \<Rightarrow> mem_vault result" where
  "mem_vault_put p provider c s =
     result_bind (vault_key p provider) (\<lambda>k. Inr (AList.update k c s))"

definition mem_vault_get ::
  "principal \<Rightarrow> oauth_provider \<Rightarrow> mem_vault \<Rightarrow> stored_credential option result" where
  "mem_vault_get p provider s = result_bind (vault_key p provider) (\<lambda>k. Inr (map_of s k))"

definition mem_vault_delete :: "principal \<Rightarrow> oauth_provider \<Rightarrow> mem_vault \<Rightarrow> mem_vault result" where
  "mem_vault_delete p provider s =
     result_bind (vault_key p provider) (\<lambda>k. Inr (AList.delete k s))"

definition mem_vault_list_connected :: "principal \<Rightarrow> mem_vault \<Rightarrow> oauth_provider list result" where
  "mem_vault_list_connected p s =
     result_bind (require_org_id p) (\<lambda>oid.
       Inr (sort_key provider_value (remdups
         (map (\<lambda>(k, c). snd (snd k))
           (filter (\<lambda>(k, c). fst k = oid \<and> fst (snd k) = user_id p) s)))))"

section \<open>The resolver\<close>

definition needs_refresh :: "int \<Rightarrow> stored_credential \<Rightarrow> bool" where
  "needs_refresh now c =
     (case sc_expires_at c of
        None \<Rightarrow> False
      | Some e \<Rightarrow>
          (let expires = (case e of Aware t \<Rightarrow> t | Naive t \<Rightarrow> t)
           in expires \<le> now + TOKEN_REFRESH_SKEW_SECONDS * 1000000))"

record refreshers =
  refresh_google :: "(string \<Rightarrow> string list \<Rightarrow> stored_credential result) option"
  refresh_slack :: "(string \<Rightarrow> stored_credential result) option"

text \<open>\<open>_refresh\<close>: the callback of the provider, the previous scopes when the answer has none, and
  the write-back to the vault.\<close>

definition refreshed :: "refreshers \<Rightarrow> oauth_provider \<Rightarrow> stored_credential \<Rightarrow> stored_credential result" where
  "refreshed rf provider c =
     (if sc_refresh_token c \<in> {None, Some []}
      then Inl (Exn ''RuntimeError'' (provider_value provider @ '' token expired and no refresh token - reconnect''))
      else let tok = the (sc_refresh_token c);
               updated = (case provider of
                  GOOGLE \<Rightarrow>
                    (case refresh_google rf of
                       None \<Rightarrow> Inl (Exn ''RuntimeError'' (provider_value provider @ '' refresh not configured''))
                     | Some f \<Rightarrow> f tok (sc_scopes c))
                | SLACK \<Rightarrow>
                    (case refresh_slack rf of
                       None \<Rightarrow> Inl (Exn ''RuntimeError'' (provider_value provider @ '' refresh not configured''))
                     | Some f \<Rightarrow> f tok))
           in result_bind updated (\<lambda>u.
                Inr (if sc_scopes u = [] \<and> sc_scopes c \<noteq> [] then u\<lparr>sc_scopes := sc_scopes c\<rparr> else u)))"

definition get_access_token ::
  "(principal \<Rightarrow> oauth_provider \<Rightarrow> 's \<Rightarrow> stored_credential option result) \<Rightarrow>
   (principal \<Rightarrow> oauth_provider \<Rightarrow> stored_credential \<Rightarrow> 's \<Rightarrow> 's result) \<Rightarrow>
   refreshers \<Rightarrow> int \<Rightarrow> principal \<Rightarrow> oauth_provider \<Rightarrow> string set \<Rightarrow> 's \<Rightarrow> string result \<times> 's" where
  "get_access_token vget vput rf now p provider required_scopes s =
     (case vget p provider s of
        Inl e \<Rightarrow> (Inl e, s)
      | Inr None \<Rightarrow>
          (Inl (Exn ''RuntimeError'' (provider_value provider @ '' not connected - visit /oauth/''
             @ provider_value provider @ ''/connect'')), s)
      | Inr (Some c) \<Rightarrow>
          (let missing = required_scopes - set (sc_scopes c)
           in if missing \<noteq> {}
              then (Inl (Exn ''RuntimeError'' (provider_value provider @ '' missing scopes ''
                     @ py_repr (PList (map PStr (sorted_list_of_set missing))) @ '' - reconnect via /oauth/''
                     @ provider_value provider @ ''/connect'')), s)
              else if needs_refresh now c
              then (case refreshed rf provider c of
                      Inl e \<Rightarrow> (Inl e, s)
                    | Inr u \<Rightarrow>
                        (case vput p provider u s of
                           Inl e \<Rightarrow> (Inl e, s)
                         | Inr s' \<Rightarrow> (Inr (sc_access_token u), s')))
              else (Inr (sc_access_token c), s)))"

section \<open>The vault contract\<close>

lemma require_org_id_ok: "require_org_id p = Inr oid \<Longrightarrow> org_id p = Some oid \<and> strip oid \<noteq> []"
  by (auto simp: require_org_id_def split: option.splits if_splits)

lemma require_org_id_anonymous: "\<not> is_ok (require_org_id anonymous)"
  by (simp add: require_org_id_def anonymous_def)

lemma vault_key_inject:
  "vault_key p a = Inr k \<Longrightarrow> vault_key q b = Inr k \<Longrightarrow> org_id p = org_id q \<and> user_id p = user_id q \<and> a = b"
  by (auto simp: vault_key_def result_bind_Inr_iff dest!: require_org_id_ok)

lemma get_access_token_state:
  assumes "get_access_token vget vput rf now p a req s = (r, s')"
  shows "s' = s \<or> (\<exists>u. vput p a u s = Inr s')"
  using assms
  by (simp add: get_access_token_def Let_def split: if_splits sum.splits option.splits) blast

lemma get_access_token_Inr:
  assumes "get_access_token vget vput rf now p a req s = (Inr tok, s')"
  shows "\<exists>c. vget p a s = Inr (Some c) \<and> req \<subseteq> set (sc_scopes c) \<and>
    (if needs_refresh now c
     then (\<exists>u. refreshed rf a c = Inr u \<and> tok = sc_access_token u \<and> vput p a u s = Inr s')
     else tok = sc_access_token c \<and> s' = s)"
proof -
  from assms obtain c where c: "vget p a s = Inr (Some c)"
    by (cases "vget p a s") (auto simp: get_access_token_def split: option.splits)
  with assms have m: "req - set (sc_scopes c) = {}"
    by (auto simp: get_access_token_def Let_def split: if_splits)
  show ?thesis
  proof (cases "needs_refresh now c")
    case True
    with assms c m obtain u where u: "refreshed rf a c = Inr u"
      by (cases "refreshed rf a c") (simp_all add: get_access_token_def)
    with True assms c m have "vput p a u s = Inr s' \<and> tok = sc_access_token u"
      by (cases "vput p a u s") (simp_all add: get_access_token_def)
    with u c m True show ?thesis by auto
  next
    case False
    with assms c m show ?thesis by (auto simp: get_access_token_def)
  qed
qed

locale credential_vault =
  fixes vput :: "principal \<Rightarrow> oauth_provider \<Rightarrow> stored_credential \<Rightarrow> 's \<Rightarrow> 's result"
    and vget :: "principal \<Rightarrow> oauth_provider \<Rightarrow> 's \<Rightarrow> stored_credential option result"
    and vdelete :: "principal \<Rightarrow> oauth_provider \<Rightarrow> 's \<Rightarrow> 's result"
  assumes get_put: "vput p a c s = Inr s' \<Longrightarrow> vget p a s' = Inr (Some c)"
    and get_put_other: "vput p a c s = Inr s' \<Longrightarrow> (org_id q, user_id q, b) \<noteq> (org_id p, user_id p, a) \<Longrightarrow>
      vget q b s' = vget q b s"
    and get_delete: "vdelete p a s = Inr s' \<Longrightarrow> vget p a s' = Inr None"
    and get_delete_other: "vdelete p a s = Inr s' \<Longrightarrow>
      (org_id q, user_id q, b) \<noteq> (org_id p, user_id p, a) \<Longrightarrow> vget q b s' = vget q b s"
    and needs_org: "\<not> is_ok (require_org_id p) \<Longrightarrow> \<not> is_ok (vget p a s)"
begin

text \<open>A token is given out only to the principal it is stored for, with the scopes it carries, and
  asking for one leaves every other entry of the vault alone.\<close>

lemma token_owner:
  assumes "get_access_token vget vput rf now p a req s = (Inr tok, s')"
  shows "\<exists>c oid. vget p a s = Inr (Some c) \<and> req \<subseteq> set (sc_scopes c) \<and> org_id p = Some oid \<and>
    (if needs_refresh now c
     then (\<exists>u. refreshed rf a c = Inr u \<and> tok = sc_access_token u \<and> vget p a s' = Inr (Some u))
     else tok = sc_access_token c \<and> s' = s)"
proof -
  obtain c where c: "vget p a s = Inr (Some c)" "req \<subseteq> set (sc_scopes c)"
    "if needs_refresh now c
     then (\<exists>u. refreshed rf a c = Inr u \<and> tok = sc_access_token u \<and> vput p a u s = Inr s')
     else tok = sc_access_token c \<and> s' = s"
    using get_access_token_Inr [OF assms] by blast
  then have "is_ok (require_org_id p)" using needs_org [of p a s] by auto
  then obtain oid where "org_id p = Some oid" using require_org_id_ok by (auto simp: is_ok_def split: sum.splits)
  with c get_put show ?thesis by (cases "needs_refresh now c") auto
qed

lemma token_frame:
  assumes "get_access_token vget vput rf now p a req s = (r, s')"
    and "(org_id q, user_id q, b) \<noteq> (org_id p, user_id p, a)"
  shows "vget q b s' = vget q b s"
  using get_access_token_state [OF assms(1)] get_put_other [OF _ assms(2)] by blast

end

interpretation mem_vault: credential_vault mem_vault_put mem_vault_get mem_vault_delete
proof
  fix p q :: principal and a b c and s s' :: mem_vault
  have other: "vault_key q b \<noteq> Inr k"
    if "vault_key p a = Inr k" "(org_id q, user_id q, b) \<noteq> (org_id p, user_id p, a)" for k
    using vault_key_inject [OF that(1)] that(2) by metis
  { assume "mem_vault_put p a c s = Inr s'"
    then show "mem_vault_get p a s' = Inr (Some c)"
      by (auto simp: mem_vault_put_def mem_vault_get_def result_bind_Inr_iff update_conv') }
  { assume "mem_vault_put p a c s = Inr s'" "(org_id q, user_id q, b) \<noteq> (org_id p, user_id p, a)"
    with other show "mem_vault_get q b s' = mem_vault_get q b s"
      by (cases "vault_key q b")
        (auto simp: mem_vault_put_def mem_vault_get_def result_bind_Inr_iff update_conv') }
  { assume "mem_vault_delete p a s = Inr s'"
    then show "mem_vault_get p a s' = Inr None"
      by (auto simp: mem_vault_delete_def mem_vault_get_def result_bind_Inr_iff delete_conv') }
  { assume "mem_vault_delete p a s = Inr s'" "(org_id q, user_id q, b) \<noteq> (org_id p, user_id p, a)"
    with other show "mem_vault_get q b s' = mem_vault_get q b s"
      by (cases "vault_key q b")
        (auto simp: mem_vault_delete_def mem_vault_get_def result_bind_Inr_iff delete_conv') }
  { assume "\<not> is_ok (require_org_id p)"
    then show "\<not> is_ok (mem_vault_get p a s)"
      by (auto simp: mem_vault_get_def vault_key_def is_ok_def split: sum.splits) }
qed

section \<open>Properties\<close>


definition demo_owner :: principal where
  "demo_owner = \<lparr>user_id = ''alice'', roles = [''member''], org_id = Some ''acme''\<rparr>"

definition demo_credential :: stored_credential where
  "demo_credential = \<lparr>sc_provider = GOOGLE, sc_scopes = [''mail''], sc_access_token = ''tok'',
     sc_refresh_token = Some ''ref'', sc_expires_at = Some (Aware 0), sc_token_type = ''Bearer'', sc_metadata = []\<rparr>"

definition demo_vault :: mem_vault where
  "demo_vault = [((''acme'', ''alice'', GOOGLE), demo_credential), ((''acme'', ''bob'', GOOGLE), demo_credential)]"

definition demo_refreshers :: refreshers where
  "demo_refreshers = \<lparr>refresh_google = Some (\<lambda>tok scopes. Inr (demo_credential\<lparr>sc_access_token := ''new'',
     sc_scopes := [], sc_expires_at := None\<rparr>)), refresh_slack = None\<rparr>"


end
