(* ===== verification/Integrations.thy ===== *)
theory Integrations
  imports Pyvalue
begin

text \<open>
  \<^verbatim>\<open>src/src/atlas/integrations/\<close>: outbound messages and their senders, the fakes used offline and
  the provider backends of \<^verbatim>\<open>email.py\<close>, \<^verbatim>\<open>slack.py\<close>, \<^verbatim>\<open>gmail.py\<close>, \<^verbatim>\<open>calendar.py\<close> and
  \<^verbatim>\<open>slack_user.py\<close>.

  A sender is a state transformer on an abstract world \<open>'w\<close>: it returns its result or exception and
  the world after the call, so that a failed call may still have had an effect. The HTTP clients and
  provider SDKs are parameters; \<open>http_response\<close> is what they hand back to the code.
\<close>

type_synonym ('m, 'w) sender = "'m \<Rightarrow> 'w \<Rightarrow> pyval result \<times> 'w"
type_synonym ('m, 'w) token_sender = "'m \<Rightarrow> string \<Rightarrow> 'w \<Rightarrow> pyval result \<times> 'w"

definition SLACK_MAX_TEXT_CHARS :: nat where
  "SLACK_MAX_TEXT_CHARS = 40000"

section \<open>Messages\<close>

record email_message =
  em_to :: string
  em_subject :: string
  em_html :: "string option"
  em_text :: "string option"

record slack_message =
  sm_channel :: string
  sm_text :: string

record calendar_event =
  ce_summary :: string
  ce_start :: string
  ce_end :: string
  ce_description :: string
  ce_location :: string
  ce_timezone :: string

section \<open>Fakes\<close>

record 'm fake_sender =
  fs_sent :: "'m list"
  fs_fail :: bool
  fs_count :: nat

definition fake_init :: "bool \<Rightarrow> 'm fake_sender" where
  "fake_init f = \<lparr>fs_sent = [], fs_fail = f, fs_count = 0\<rparr>"

definition fake_email_send :: "(email_message, email_message fake_sender) sender" where
  "fake_email_send m s =
     (let s' = s\<lparr>fs_count := fs_count s + 1\<rparr>
      in if fs_fail s' then (Inl (Exn ''RuntimeError'' ''simulated send failure''), s')
         else (Inr (PDict [(''id'', PStr (''fake_'' @ nat_str (fs_count s'))),
                           (''provider'', PStr ''fake''), (''to'', PStr (em_to m))]),
               s'\<lparr>fs_sent := fs_sent s' @ [m]\<rparr>))"

definition fake_slack_post :: "(slack_message, slack_message fake_sender) sender" where
  "fake_slack_post m s =
     (let s' = s\<lparr>fs_count := fs_count s + 1\<rparr>
      in if fs_fail s' then (Inl (Exn ''RuntimeError'' ''simulated post failure''), s')
         else (Inr (PDict [(''ts'', PStr (''fake_'' @ nat_str (fs_count s'))),
                           (''channel'', PStr (sm_channel m)), (''provider'', PStr ''fake'')]),
               s'\<lparr>fs_sent := fs_sent s' @ [m]\<rparr>))"

definition fake_gmail_send :: "(email_message, (email_message \<times> string) fake_sender) token_sender" where
  "fake_gmail_send m access_token s =
     (let s' = s\<lparr>fs_count := fs_count s + 1\<rparr>
      in if fs_fail s' then (Inl (Exn ''RuntimeError'' ''simulated Gmail send failure''), s')
         else (Inr (PDict [(''id'', PStr (''fake_'' @ nat_str (fs_count s'))),
                           (''provider'', PStr ''fake''), (''to'', PStr (em_to m))]),
               s'\<lparr>fs_sent := fs_sent s' @ [(m, access_token)]\<rparr>))"

definition fake_create_event ::
  "(calendar_event, (calendar_event \<times> string) fake_sender) token_sender" where
  "fake_create_event e access_token s =
     (let s' = s\<lparr>fs_count := fs_count s + 1\<rparr>
      in if fs_fail s' then (Inl (Exn ''RuntimeError'' ''simulated calendar create failure''), s')
         else (Inr (PDict [(''id'', PStr (''fake_'' @ nat_str (fs_count s'))),
                           (''provider'', PStr ''fake''), (''summary'', PStr (ce_summary e))]),
               s'\<lparr>fs_sent := fs_sent s' @ [(e, access_token)]\<rparr>))"

definition fake_slack_user_post ::
  "(slack_message, (slack_message \<times> string) fake_sender) token_sender" where
  "fake_slack_user_post m access_token s =
     (let s' = s\<lparr>fs_count := fs_count s + 1\<rparr>
      in if fs_fail s' then (Inl (Exn ''RuntimeError'' ''simulated Slack user post failure''), s')
         else (Inr (PDict [(''ts'', PStr (''fake_'' @ nat_str (fs_count s'))),
                           (''channel'', PStr (sm_channel m)), (''provider'', PStr ''fake'')]),
               s'\<lparr>fs_sent := fs_sent s' @ [(m, access_token)]\<rparr>))"

section \<open>HTTP backends\<close>

text \<open>What a backend gets back from the HTTP client: the status, the decoded body (or the exception
  of \<open>response.json()\<close>) and the text of the client's status error.\<close>

record http_request =
  rq_url :: string
  rq_headers :: "string dict"
  rq_json :: pyval

record http_response =
  rs_status :: nat
  rs_json :: "pyval result"
  rs_status_error :: string

type_synonym 'w http = "http_request \<Rightarrow> 'w \<Rightarrow> http_response result \<times> 'w"

definition type_name :: "pyval \<Rightarrow> string" where
  "type_name v = (case v of PNone \<Rightarrow> ''NoneType'' | PBool _ \<Rightarrow> ''bool'' | PInt _ \<Rightarrow> ''int''
     | PStr _ \<Rightarrow> ''str'' | PList _ \<Rightarrow> ''list'' | PDict _ \<Rightarrow> ''dict'')"

text \<open>\<open>v.get\<close> on a value that may not be a dictionary.\<close>

definition as_dict :: "pyval \<Rightarrow> pydict result" where
  "as_dict v = (case v of
     PDict d \<Rightarrow> Inr d
   | _ \<Rightarrow> Inl (Exn ''AttributeError'' (repr_str (type_name v) @ '' object has no attribute '' @ repr_str ''get'')))"

definition get_default :: "pydict \<Rightarrow> string \<Rightarrow> pyval \<Rightarrow> pyval" where
  "get_default d k dflt = (case dict_get d k of None \<Rightarrow> dflt | Some v \<Rightarrow> v)"

definition http_result :: "(http_response \<Rightarrow> pyval result) \<Rightarrow> 'w http \<Rightarrow> http_request \<Rightarrow> 'w
    \<Rightarrow> pyval result \<times> 'w" where
  "http_result k http rq w =
     (case http rq w of (Inl e, w') \<Rightarrow> (Inl e, w') | (Inr rs, w') \<Rightarrow> (k rs, w'))"

text \<open>\<open>response.raise_for_status()\<close> followed by \<open>response.json()\<close>.\<close>

definition json_of_success :: "http_response \<Rightarrow> pydict result" where
  "json_of_success rs =
     (if rs_status rs < 200 \<or> 300 \<le> rs_status rs then Inl (Exn ''HTTPStatusError'' (rs_status_error rs))
      else result_bind (rs_json rs) as_dict)"

definition bearer :: "string \<Rightarrow> string dict" where
  "bearer token = [(''Authorization'', ''Bearer '' @ token)]"

definition CALENDAR_EVENTS_URL :: string where
  "CALENDAR_EVENTS_URL = ''https://www.googleapis.com/calendar/v3/calendars/primary/events''"

definition google_create_event :: "'w http \<Rightarrow> (calendar_event, 'w) token_sender" where
  "google_create_event http e access_token w =
     http_result
       (\<lambda>rs. result_bind (json_of_success rs) (\<lambda>d. Inr (PDict
          [(''id'', get_default d ''id'' PNone), (''htmlLink'', get_default d ''htmlLink'' PNone),
           (''provider'', PStr ''google_calendar''), (''summary'', PStr (ce_summary e))])))
       http
       \<lparr>rq_url = CALENDAR_EVENTS_URL, rq_headers = bearer access_token,
        rq_json = PDict [(''summary'', PStr (ce_summary e)), (''description'', PStr (ce_description e)),
          (''location'', PStr (ce_location e)),
          (''start'', PDict [(''dateTime'', PStr (ce_start e)), (''timeZone'', PStr (ce_timezone e))]),
          (''end'', PDict [(''dateTime'', PStr (ce_end e)), (''timeZone'', PStr (ce_timezone e))])]\<rparr> w"

definition GMAIL_SEND_URL :: string where
  "GMAIL_SEND_URL = ''https://gmail.googleapis.com/gmail/v1/users/me/messages/send''"

text \<open>\<open>encode\<close> is \<open>_encode_rfc822\<close>, the MIME and base64 encoding of the message.\<close>

definition gmail_api_send ::
  "(email_message \<Rightarrow> string) \<Rightarrow> 'w http \<Rightarrow> (email_message, 'w) token_sender" where
  "gmail_api_send encode http m access_token w =
     http_result
       (\<lambda>rs. result_bind (json_of_success rs) (\<lambda>d. Inr (PDict
          [(''id'', get_default d ''id'' PNone), (''provider'', PStr ''gmail''), (''to'', PStr (em_to m))])))
       http
       \<lparr>rq_url = GMAIL_SEND_URL, rq_headers = bearer access_token,
        rq_json = PDict [(''raw'', PStr (encode m))]\<rparr> w"

definition SLACK_POST_URL :: string where
  "SLACK_POST_URL = ''https://slack.com/api/chat.postMessage''"

definition slack_user_api_post :: "'w http \<Rightarrow> (slack_message, 'w) token_sender" where
  "slack_user_api_post http m access_token w =
     (if SLACK_MAX_TEXT_CHARS < length (sm_text m)
      then (Inl (Exn ''ValueError'' (''text exceeds Slack limit ('' @ nat_str SLACK_MAX_TEXT_CHARS @ '' chars)'')), w)
      else http_result
        (\<lambda>rs. result_bind (json_of_success rs) (\<lambda>d.
           if \<not> truthy (get_default d ''ok'' PNone)
           then Inl (Exn ''RuntimeError'' (py_str (get_default d ''error'' (PStr ''Slack API error''))))
           else Inr (PDict [(''ts'', get_default d ''ts'' PNone),
                            (''channel'', get_default d ''channel'' PNone),
                            (''provider'', PStr ''slack_user'')])))
        http
        \<lparr>rq_url = SLACK_POST_URL, rq_headers = bearer access_token,
         rq_json = PDict [(''channel'', PStr (sm_channel m)), (''text'', PStr (sm_text m)),
           (''unfurl_links'', PBool False), (''unfurl_media'', PBool False)]\<rparr> w)"

text \<open>The Slack SDK call: its response data, or \<open>SlackApiError\<close>, which is turned into a
  \<open>RuntimeError\<close> with the same text.\<close>

definition slack_api_post ::
  "(string \<Rightarrow> pydict \<Rightarrow> 'w \<Rightarrow> pydict result \<times> 'w) \<Rightarrow> string \<Rightarrow> (slack_message, 'w) sender" where
  "slack_api_post chat_postMessage bot_token m w =
     (case chat_postMessage bot_token
         [(''channel'', PStr (sm_channel m)), (''text'', PStr (sm_text m)),
          (''unfurl_links'', PBool False), (''unfurl_media'', PBool False)] w of
        (Inl e, w') \<Rightarrow>
          (Inl (if exc_class e = ''SlackApiError'' then Exn ''RuntimeError'' (exc_msg e) else e), w')
      | (Inr d, w') \<Rightarrow>
          (if \<not> truthy (get_default d ''ok'' PNone)
           then Inl (Exn ''RuntimeError'' (py_str (get_default d ''error'' (PStr ''Slack API error''))))
           else Inr (PDict [(''ts'', get_default d ''ts'' PNone),
                            (''channel'', get_default d ''channel'' PNone),
                            (''provider'', PStr ''slack'')]), w'))"

text \<open>The Resend backend. \<open>rs_json\<close> is \<open>json.loads(content) if content else {}\<close>;
  \<open>raise_for\<close> is the exception that \<open>raise_for_code_and_type\<close> raises.\<close>

definition resend_params :: "string \<Rightarrow> email_message \<Rightarrow> pydict" where
  "resend_params from_address m =
     [(''from'', PStr from_address), (''to'', PList [PStr (em_to m)]), (''subject'', PStr (em_subject m))]
     @ (case em_html m of None \<Rightarrow> [] | Some h \<Rightarrow> [(''html'', PStr h)])
     @ (case em_text m of None \<Rightarrow> [] | Some t \<Rightarrow> [(''text'', PStr t)])"

definition resend_failed :: "nat \<Rightarrow> pyval \<Rightarrow> bool" where
  "resend_failed status data =
     (status < 200 \<or> 300 \<le> status \<or>
      (case data of PDict d \<Rightarrow> get_default d ''statusCode'' PNone \<notin> {PNone, PInt 200} | _ \<Rightarrow> False))"

definition resend_outcome ::
  "(pyval \<Rightarrow> pyval \<Rightarrow> pyval \<Rightarrow> exn) \<Rightarrow> email_message \<Rightarrow> http_response \<Rightarrow> pyval result" where
  "resend_outcome raise_for m rs =
     result_bind (rs_json rs) (\<lambda>data.
       if resend_failed (rs_status rs) data
       then result_bind
          (if 400 \<le> rs_status rs then Inr (PInt (int (rs_status rs)))
           else result_bind (as_dict data) (\<lambda>d.
             let c = get_default d ''statusCode'' PNone in Inr (if truthy c then c else PInt 500)))
          (\<lambda>code. Inl (case data of
               PDict d \<Rightarrow> raise_for code (get_default d ''message'' (PStr ''Unknown error''))
                  (get_default d ''name'' (PStr ''InternalServerError''))
             | _ \<Rightarrow> raise_for code (PStr ''Unknown error'') (PStr ''InternalServerError'')))
       else Inr (PDict [(''id'', case data of PDict d \<Rightarrow> get_default d ''id'' PNone | _ \<Rightarrow> PNone),
                        (''provider'', PStr ''resend''), (''to'', PStr (em_to m))]))"

definition resend_send :: "(pyval \<Rightarrow> pyval \<Rightarrow> pyval \<Rightarrow> exn) \<Rightarrow> string \<Rightarrow> string \<Rightarrow> string \<Rightarrow> string
    \<Rightarrow> 'w http \<Rightarrow> (email_message, 'w) sender" where
  "resend_send raise_for api_url version api_key from_address http m w =
     http_result (resend_outcome raise_for m) http
       \<lparr>rq_url = api_url @ ''/emails'',
        rq_headers = [(''Accept'', ''application/json''), (''Authorization'', ''Bearer '' @ api_key),
          (''Content-Type'', ''application/json''), (''User-Agent'', ''resend-python:'' @ version)],
        rq_json = PDict (resend_params from_address m)\<rparr> w"

section \<open>Lemmas\<close>

lemmas fake_defs = fake_email_send_def fake_slack_post_def fake_gmail_send_def fake_create_event_def
  fake_slack_user_post_def

lemma fake_counts:
  "fs_count (snd (fake_email_send m s)) = Suc (fs_count s)"
  "fs_count (snd (fake_slack_post m' s')) = Suc (fs_count s')"
  by (simp_all add: fake_defs Let_def)

text \<open>A token is sent to the provider's own endpoint only, as the bearer of one request.\<close>

lemma http_result_request:
  "http_result k http rq w = (case http rq w of (r, w') \<Rightarrow> (result_bind r k, w'))"
  by (auto simp: http_result_def split: prod.splits sum.splits)

lemma resend_outcome_ok_iff:
  "is_ok (resend_outcome raise_for m rs) \<longleftrightarrow>
   (\<exists>data. rs_json rs = Inr data \<and> \<not> resend_failed (rs_status rs) data)"
  by (cases "rs_json rs") (auto simp: resend_outcome_def result_bind_def Let_def is_ok_def split: sum.splits if_splits)

end
