(* ===== verification/Tools.thy ===== *)
theory Tools
  imports Rbac Credentials Integrations
begin

text \<open>
  \<^verbatim>\<open>src/src/atlas/tools.py\<close>: the tool contract, the registry that turns a tool call into a
  risk-tagged \<open>proposed_action\<close> and runs actions, and the built-in tools.

  \<^item> A tool is a record: what it declares (name, tier, base permission), its argument schema
    (\<open>t_validate\<close>), \<open>resource_permission\<close>, \<open>audit_metadata\<close> and \<open>run\<close>, a state transformer on the
    abstract world \<open>'w\<close> of side effects.
  \<^item> A pydantic schema is a list of string fields with length bounds, defaults and an optional
    after-validator; validation follows pydantic's documented order (presence, type, lengths, then the
    validator; unknown keys are dropped) and collects the errors of all fields. The text of a
    \<open>ValidationError\<close> is the parameter \<open>verr\<close>.
  \<^item> A validated argument object carries its class name, so that the \<open>isinstance\<close> checks of the
    tools are part of the model.
\<close>

section \<open>Schemas\<close>

record field =
  f_name :: string
  f_min :: nat
  f_max :: "nat option"
  f_default :: "string option"
  f_after :: "string \<Rightarrow> string result"

record margs =
  m_class :: string
  m_fields :: pydict

type_synonym verr = "string \<Rightarrow> (string \<times> string) list \<Rightarrow> string"

definition validate_field :: "field \<Rightarrow> pydict \<Rightarrow> string + string" where
  "validate_field f args =
     (case dict_get args (f_name f) of
        None \<Rightarrow> (case f_default f of None \<Rightarrow> Inl ''missing'' | Some d \<Rightarrow> Inr d)
      | Some (PStr s) \<Rightarrow>
          (if length s < f_min f then Inl ''string_too_short''
           else if (case f_max f of None \<Rightarrow> False | Some n \<Rightarrow> n < length s) then Inl ''string_too_long''
           else (case f_after f s of Inl e \<Rightarrow> Inl (''value_error: '' @ exc_msg e) | Inr t \<Rightarrow> Inr t))
      | Some _ \<Rightarrow> Inl ''string_type'')"

definition field_errors :: "field list \<Rightarrow> pydict \<Rightarrow> (string \<times> string) list" where
  "field_errors fs args =
     concat (map (\<lambda>f. case validate_field f args of Inl e \<Rightarrow> [(f_name f, e)] | Inr _ \<Rightarrow> []) fs)"

definition field_values :: "field list \<Rightarrow> pydict \<Rightarrow> pydict" where
  "field_values fs args =
     concat (map (\<lambda>f. case validate_field f args of Inl _ \<Rightarrow> [] | Inr v \<Rightarrow> [(f_name f, PStr v)]) fs)"

definition model_validate :: "verr \<Rightarrow> string \<Rightarrow> field list \<Rightarrow> pydict \<Rightarrow> margs result" where
  "model_validate verr cls fs args =
     (if field_errors fs args = [] then Inr \<lparr>m_class = cls, m_fields = field_values fs args\<rparr>
      else Inl (Exn ''ValidationError'' (verr cls (field_errors fs args))))"

definition model_dump :: "margs \<Rightarrow> pydict" where
  "model_dump m = m_fields m"

text \<open>Access to a string attribute of a validated object of the right class.\<close>

definition marg :: "margs \<Rightarrow> string \<Rightarrow> string" where
  "marg m k = (case dict_get (m_fields m) k of Some (PStr v) \<Rightarrow> v | _ \<Rightarrow> [])"

definition expect_class :: "string \<Rightarrow> margs \<Rightarrow> unit result" where
  "expect_class cls m =
     (if m_class m = cls then Inr ()
      else Inl (Exn ''TypeError'' (''expected '' @ cls @ '', got '' @ m_class m)))"

section \<open>The tool contract and the registry\<close>

record 'w tool =
  t_name :: string
  t_description :: string
  t_tier :: risk_tier
  t_permission :: "string option"
  t_validate :: "pydict \<Rightarrow> margs result"
  t_resource :: "margs \<Rightarrow> string option result"
  t_metadata :: "string dict"
  t_run :: "margs \<Rightarrow> principal \<Rightarrow> 'w \<Rightarrow> pyval result \<times> 'w"

type_synonym 'w registry = "'w tool dict"

definition combine_permission :: "string option \<Rightarrow> string option \<Rightarrow> string option" where
  "combine_permission base resource =
     (case (base, resource) of
        (Some b, Some r) \<Rightarrow> Some (b @ '':'' @ r)
      | _ \<Rightarrow> base)"

definition permission_for :: "'w tool \<Rightarrow> margs \<Rightarrow> string option result" where
  "permission_for t m =
     result_bind (t_resource t m) (\<lambda>r. Inr (combine_permission (t_permission t) r))"

definition register :: "'w tool \<Rightarrow> bool \<Rightarrow> 'w registry \<Rightarrow> 'w registry result" where
  "register t replace reg =
     (if t_name t \<in> set (dict_keys reg) \<and> \<not> replace
      then Inl (Exn ''ValueError'' (''tool already registered: '' @ t_name t))
      else Inr (dict_set (t_name t) t reg))"

definition get_tool :: "'w registry \<Rightarrow> string \<Rightarrow> 'w tool result" where
  "get_tool reg name =
     (case dict_get reg name of
        None \<Rightarrow> Inl (Exn ''KeyError'' (repr_str (''unknown tool: '' @ name)))
      | Some t \<Rightarrow> Inr t)"

definition names :: "'w registry \<Rightarrow> string list" where
  "names reg = sort (dict_keys reg)"

definition propose ::
  "'w registry \<Rightarrow> string \<Rightarrow> string \<Rightarrow> pydict \<Rightarrow> string \<Rightarrow> proposed_action result" where
  "propose reg fresh tool_name args rationale =
     result_bind (get_tool reg tool_name) (\<lambda>t.
       result_bind (t_validate t args) (\<lambda>validated.
         result_bind (permission_for t validated) (\<lambda>perm.
           Inr \<lparr>pa_id = fresh, pa_tool = t_name t, pa_args = model_dump validated, pa_tier = t_tier t,
                pa_rationale = rationale, pa_permission = perm\<rparr>)))"

text \<open>\<open>f"{type(exc).__name__}: {exc}"\<close>.\<close>

definition error_text :: "exn \<Rightarrow> string" where
  "error_text e = exc_class e @ '': '' @ exc_msg e"

definition execute ::
  "'w registry \<Rightarrow> proposed_action \<Rightarrow> principal \<Rightarrow> 'w \<Rightarrow> action_result \<times> 'w" where
  "execute reg a p w =
     (let (r, w') =
        (case get_tool reg (pa_tool a) of
           Inl e \<Rightarrow> (Inl e, w)
         | Inr t \<Rightarrow>
             (case t_validate t (pa_args a) of
                Inl e \<Rightarrow> (Inl e, w)
              | Inr m \<Rightarrow> t_run t m p w))
      in case r of
           Inr out \<Rightarrow> (\<lparr>ar_id = pa_id a, ar_tool = pa_tool a, ar_ok = True, ar_output = out, ar_error = None\<rparr>, w')
         | Inl e \<Rightarrow> (\<lparr>ar_id = pa_id a, ar_tool = pa_tool a, ar_ok = False, ar_output = PNone,
                      ar_error = Some (error_text e)\<rparr>, w'))"

section \<open>Resource segments and recipients\<close>

definition slack_channel_resource_segment :: "string \<Rightarrow> string" where
  "slack_channel_resource_segment channel =
     (if startswith channel ''#'' then ''channel:'' @ lower (drop 1 channel)
      else ''channel:'' @ channel)"

text \<open>\<open>re.fullmatch("[^@\s]+@[^@\s]+")\<close>.\<close>

definition plain_part :: "string \<Rightarrow> bool" where
  "plain_part s = (s \<noteq> [] \<and> list_all (\<lambda>c. c \<noteq> CHR ''@'' \<and> \<not> is_space c) s)"

definition email_recipient :: "string \<Rightarrow> bool" where
  "email_recipient s =
     (CHR ''@'' \<in> set s \<and> plain_part (before_first (CHR ''@'') s) \<and> plain_part (after_first (CHR ''@'') s))"

definition validated_recipient :: "string \<Rightarrow> string result" where
  "validated_recipient v =
     (if \<not> email_recipient v
      then Inl (Exn ''ValueError'' ''recipient must be a plain email address (local@domain)'')
      else Inr v)"

definition recipient_domain :: "string \<Rightarrow> string" where
  "recipient_domain recipient =
     (let domain = lower (after_last (CHR ''@'') recipient)
      in if domain \<noteq> [] then domain else lower recipient)"

definition upper_is_U_or_D :: "string \<Rightarrow> bool" where
  "upper_is_U_or_D s = (take 1 s \<in> {''U'', ''u'', ''D'', ''d''})"

definition reject_non_channel_targets :: "string \<Rightarrow> string result" where
  "reject_non_channel_targets v =
     (let stripped = strip v
      in if startswith stripped ''@''
         then Inl (Exn ''ValueError'' ''@-mentions are not allowed for slack_post'')
         else if upper_is_U_or_D stripped \<and> 1 < length stripped
         then Inl (Exn ''ValueError'' ''user/DM targets are not allowed for slack_post'')
         else if startswith stripped ''#'' then Inr (''#'' @ lower (drop 1 stripped))
         else Inr stripped)"

section \<open>The built-in tools\<close>

definition str_field :: "string \<Rightarrow> nat \<Rightarrow> nat option \<Rightarrow> string option \<Rightarrow> field" where
  "str_field n lo hi dflt = \<lparr>f_name = n, f_min = lo, f_max = hi, f_default = dflt, f_after = Inr\<rparr>"

definition SearchArgs :: "field list" where
  "SearchArgs = [str_field ''query'' 1 None None]"

definition no_resource :: "margs \<Rightarrow> string option result" where
  "no_resource m = Inr None"

definition search_tool :: "verr \<Rightarrow> 'w tool" where
  "search_tool verr =
     \<lparr>t_name = ''search'',
      t_description = ''Search the knowledge base for information. Read-only.'',
      t_tier = READ, t_permission = None,
      t_validate = model_validate verr ''_SearchArgs'' SearchArgs,
      t_resource = no_resource, t_metadata = [],
      t_run = (\<lambda>m p w. case expect_class ''_SearchArgs'' m of
          Inl e \<Rightarrow> (Inl e, w)
        | Inr _ \<Rightarrow>
            (Inr (PDict [(''query'', PStr (marg m ''query'')),
               (''results'', PList [PStr (''(mock) top result for '' @ repr_str (marg m ''query''))]),
               (''source'', PStr ''mock-knowledge-base'')]), w))\<rparr>"

definition SendEmailArgs :: "field list" where
  "SendEmailArgs =
     [(str_field ''to'' 3 None None)\<lparr>f_after := validated_recipient\<rparr>,
      str_field ''subject'' 0 None (Some []), str_field ''body'' 0 None (Some [])]"

definition recipient_resource :: "string \<Rightarrow> margs \<Rightarrow> string option result" where
  "recipient_resource cls m =
     result_bind (expect_class cls m) (\<lambda>_.
       Inr (Some (''domain:'' @ recipient_domain (marg m ''to''))))"

text \<open>\<open>args.body or None\<close>.\<close>

definition or_none :: "string \<Rightarrow> string option" where
  "or_none s = (if s = [] then None else Some s)"

definition email_of_args :: "margs \<Rightarrow> email_message" where
  "email_of_args m = \<lparr>em_to = marg m ''to'', em_subject = marg m ''subject'', em_html = None,
     em_text = or_none (marg m ''body'')\<rparr>"

definition send_email_tool :: "verr \<Rightarrow> (email_message, 'w) sender option \<Rightarrow> 'w tool" where
  "send_email_tool verr sender =
     \<lparr>t_name = ''send_email'',
      t_description = ''Send an email to a recipient. Irreversible external action.'',
      t_tier = SEND, t_permission = Some ''tool:send'',
      t_validate = model_validate verr ''_SendEmailArgs'' SendEmailArgs,
      t_resource = recipient_resource ''_SendEmailArgs'', t_metadata = [],
      t_run = (\<lambda>m p w. case expect_class ''_SendEmailArgs'' m of
          Inl e \<Rightarrow> (Inl e, w)
        | Inr _ \<Rightarrow>
            (case sender of
               None \<Rightarrow> (Inl (Exn ''RuntimeError'' ''email not configured''), w)
             | Some send \<Rightarrow> send (email_of_args m) w))\<rparr>"

definition SlackPostArgs :: "field list" where
  "SlackPostArgs =
     [(str_field ''channel'' 1 None None)\<lparr>f_after := reject_non_channel_targets\<rparr>,
      str_field ''text'' 1 (Some SLACK_MAX_TEXT_CHARS) None]"

definition slack_of_args :: "margs \<Rightarrow> slack_message" where
  "slack_of_args m = \<lparr>sm_channel = marg m ''channel'', sm_text = marg m ''text''\<rparr>"

definition slack_post_tool :: "verr \<Rightarrow> (slack_message, 'w) sender option \<Rightarrow> 'w tool" where
  "slack_post_tool verr sender =
     \<lparr>t_name = ''slack_post'',
      t_description = ''Post a message to a Slack channel. Irreversible external action.'',
      t_tier = SEND, t_permission = Some ''tool:slack:post'',
      t_validate = model_validate verr ''_SlackPostArgs'' SlackPostArgs,
      t_resource = (\<lambda>m. result_bind (expect_class ''_SlackPostArgs'' m) (\<lambda>_.
         Inr (Some (slack_channel_resource_segment (marg m ''channel''))))),
      t_metadata = [],
      t_run = (\<lambda>m p w. case expect_class ''_SlackPostArgs'' m of
          Inl e \<Rightarrow> (Inl e, w)
        | Inr _ \<Rightarrow>
            (case sender of
               None \<Rightarrow> (Inl (Exn ''RuntimeError'' ''slack not configured''), w)
             | Some post \<Rightarrow> post (slack_of_args m) w))\<rparr>"

type_synonym 'w resolver = "principal \<Rightarrow> oauth_provider \<Rightarrow> string set \<Rightarrow> 'w \<Rightarrow> string result \<times> 'w"

definition GOOGLE_GMAIL_SEND :: string where
  "GOOGLE_GMAIL_SEND = ''https://www.googleapis.com/auth/gmail.send''"

definition GOOGLE_CALENDAR_EVENTS :: string where
  "GOOGLE_CALENDAR_EVENTS = ''https://www.googleapis.com/auth/calendar.events''"

definition SLACK_USER_CHAT_WRITE :: string where
  "SLACK_USER_CHAT_WRITE = ''chat:write''"

text \<open>The common shape of the three per-user tools: class check, configuration check, access token,
  then the call with that token.\<close>

definition run_with_token :: "string \<Rightarrow> string \<Rightarrow> oauth_provider \<Rightarrow> string \<Rightarrow> (margs \<Rightarrow> 'm)
    \<Rightarrow> ('m, 'w) token_sender option \<Rightarrow> 'w resolver option \<Rightarrow> margs \<Rightarrow> principal \<Rightarrow> 'w
    \<Rightarrow> pyval result \<times> 'w" where
  "run_with_token cls unconfigured provider scope build sender resolver m p w =
     (case expect_class cls m of
        Inl e \<Rightarrow> (Inl e, w)
      | Inr _ \<Rightarrow>
          (case (sender, resolver) of
             (Some send, Some resolve) \<Rightarrow>
               (case resolve p provider {scope} w of
                  (Inl e, w') \<Rightarrow> (Inl e, w')
                | (Inr token, w') \<Rightarrow> send (build m) token w')
           | _ \<Rightarrow> (Inl (Exn ''RuntimeError'' unconfigured), w)))"

definition gmail_send_tool ::
  "verr \<Rightarrow> (email_message, 'w) token_sender option \<Rightarrow> 'w resolver option \<Rightarrow> 'w tool" where
  "gmail_send_tool verr sender resolver =
     \<lparr>t_name = ''gmail_send'',
      t_description = ''Send an email as the authenticated user via Gmail. Irreversible external action.'',
      t_tier = SEND, t_permission = Some ''tool:gmail:send'',
      t_validate = model_validate verr ''_GmailSendArgs'' SendEmailArgs,
      t_resource = recipient_resource ''_GmailSendArgs'', t_metadata = [],
      t_run = run_with_token ''_GmailSendArgs'' ''gmail not configured'' GOOGLE GOOGLE_GMAIL_SEND
        email_of_args sender resolver\<rparr>"

definition CalendarCreateEventArgs :: "field list" where
  "CalendarCreateEventArgs =
     [str_field ''summary'' 1 None None, str_field ''start'' 1 None None, str_field ''end'' 1 None None,
      str_field ''description'' 0 None (Some []), str_field ''location'' 0 None (Some []),
      str_field ''timezone'' 0 None (Some ''UTC'')]"

definition event_of_args :: "margs \<Rightarrow> calendar_event" where
  "event_of_args m = \<lparr>ce_summary = marg m ''summary'', ce_start = marg m ''start'',
     ce_end = marg m ''end'', ce_description = marg m ''description'',
     ce_location = marg m ''location'', ce_timezone = marg m ''timezone''\<rparr>"

definition calendar_create_event_tool ::
  "verr \<Rightarrow> (calendar_event, 'w) token_sender option \<Rightarrow> 'w resolver option \<Rightarrow> 'w tool" where
  "calendar_create_event_tool verr client resolver =
     \<lparr>t_name = ''calendar_create_event'',
      t_description = ''Create a calendar event as the authenticated user. Irreversible external action.'',
      t_tier = SEND, t_permission = Some ''tool:calendar:write'',
      t_validate = model_validate verr ''_CalendarCreateEventArgs'' CalendarCreateEventArgs,
      t_resource = no_resource, t_metadata = [],
      t_run = run_with_token ''_CalendarCreateEventArgs'' ''calendar not configured'' GOOGLE
        GOOGLE_CALENDAR_EVENTS event_of_args client resolver\<rparr>"

definition SlackPostAsUserArgs :: "field list" where
  "SlackPostAsUserArgs =
     [str_field ''channel'' 1 None None, str_field ''text'' 1 (Some SLACK_MAX_TEXT_CHARS) None]"

definition slack_post_as_user_tool ::
  "verr \<Rightarrow> (slack_message, 'w) token_sender option \<Rightarrow> 'w resolver option \<Rightarrow> 'w tool" where
  "slack_post_as_user_tool verr sender resolver =
     \<lparr>t_name = ''slack_post_as_user'',
      t_description = ''Post a Slack message as the authenticated user. Irreversible external action.'',
      t_tier = SEND, t_permission = Some ''tool:slack:post_as_user'',
      t_validate = model_validate verr ''_SlackPostAsUserArgs'' SlackPostAsUserArgs,
      t_resource = no_resource, t_metadata = [],
      t_run = run_with_token ''_SlackPostAsUserArgs'' ''slack user post not configured'' SLACK
        SLACK_USER_CHAT_WRITE slack_of_args sender resolver\<rparr>"

section \<open>Building a registry\<close>

fun register_all :: "'w tool list \<Rightarrow> 'w registry \<Rightarrow> 'w registry result" where
  "register_all [] reg = Inr reg"
| "register_all (t # ts) reg = result_bind (register t False reg) (register_all ts)"

definition register_oauth_tools :: "verr \<Rightarrow> 'w resolver option \<Rightarrow> (email_message, 'w) token_sender option
    \<Rightarrow> (calendar_event, 'w) token_sender option \<Rightarrow> (slack_message, 'w) token_sender option
    \<Rightarrow> 'w registry \<Rightarrow> 'w registry result" where
  "register_oauth_tools verr resolver gmail calendar slack_user reg =
     register_all [gmail_send_tool verr gmail resolver, calendar_create_event_tool verr calendar resolver,
       slack_post_as_user_tool verr slack_user resolver] reg"

text \<open>\<open>default_registry\<close>, given what the settings resolve to: the live senders are used only when
  the integration is configured and a database makes the audit log durable.\<close>

definition resolve_sender :: "bool \<Rightarrow> bool \<Rightarrow> 's \<Rightarrow> 's option" where
  "resolve_sender configured has_database sender =
     (if \<not> configured then None else if \<not> has_database then None else Some sender)"

definition resolve_oauth_tools :: "bool \<Rightarrow> 'r option \<Rightarrow> 'g \<Rightarrow> 'c \<Rightarrow> 's
    \<Rightarrow> 'g option \<times> 'c option \<times> 's option \<times> 'r option" where
  "resolve_oauth_tools has_database resolver gmail calendar slack_user =
     (case resolver of
        None \<Rightarrow> (None, None, None, None)
      | Some r \<Rightarrow>
          if \<not> has_database then (None, None, None, None)
          else (Some gmail, Some calendar, Some slack_user, Some r))"

definition default_registry :: "verr \<Rightarrow> bool \<Rightarrow> bool \<Rightarrow> bool \<Rightarrow> (email_message, 'w) sender
    \<Rightarrow> (slack_message, 'w) sender \<Rightarrow> (email_message, 'w) token_sender
    \<Rightarrow> (calendar_event, 'w) token_sender \<Rightarrow> (slack_message, 'w) token_sender
    \<Rightarrow> 'w resolver option \<Rightarrow> 'w registry result" where
  "default_registry verr email_configured slack_configured has_database email slack gmail calendar
      slack_user resolver0 =
     (let sender = resolve_sender email_configured has_database email;
          slack_sender = resolve_sender slack_configured has_database slack;
          (g, c, su, resolver) = resolve_oauth_tools has_database resolver0 gmail calendar slack_user
      in result_bind
           (register_all [search_tool verr, send_email_tool verr sender, slack_post_tool verr slack_sender] [])
           (register_oauth_tools verr resolver g c su))"

section \<open>Validated arguments\<close>

definition length_ok :: "field \<Rightarrow> string \<Rightarrow> bool" where
  "length_ok f s \<longleftrightarrow> f_min f \<le> length s \<and> (case f_max f of None \<Rightarrow> True | Some n \<Rightarrow> length s \<le> n)"

lemma validate_field_str:
  "dict_get args (f_name f) = Some (PStr s) \<Longrightarrow>
   validate_field f args = Inr v \<longleftrightarrow> length_ok f s \<and> f_after f s = Inr v"
  by (auto simp: validate_field_def length_ok_def not_less split: option.splits sum.splits)

text \<open>A value that a field accepts is a fixed point of its validation.\<close>

definition stable_value :: "field \<Rightarrow> string \<Rightarrow> bool" where
  "stable_value f v \<longleftrightarrow> length_ok f v \<and> f_after f v = Inr v"

lemma field_values_eq:
  "field_errors fs args = [] \<Longrightarrow>
   field_values fs args = map (\<lambda>f. (f_name f, PStr (case validate_field f args of Inl _ \<Rightarrow> [] | Inr v \<Rightarrow> v))) fs"
  by (induction fs) (auto simp: field_errors_def field_values_def split: sum.splits)

lemma field_errors_Nil_iff:
  "field_errors fs args = [] \<longleftrightarrow> (\<forall>f \<in> set fs. \<exists>v. validate_field f args = Inr v)"
  by (induction fs) (auto simp: field_errors_def split: sum.splits)

lemma model_validate_Inr_iff:
  "model_validate verr cls fs args = Inr m \<longleftrightarrow>
   (\<forall>f \<in> set fs. \<exists>v. validate_field f args = Inr v) \<and>
   m = \<lparr>m_class = cls, m_fields = map (\<lambda>f. (f_name f, PStr (case validate_field f args of Inl _ \<Rightarrow> [] | Inr v \<Rightarrow> v))) fs\<rparr>"
  using field_values_eq [of fs args] by (auto simp: model_validate_def field_errors_Nil_iff)

lemma map_of_fields:
  "distinct (map f_name fs) \<Longrightarrow> f \<in> set fs \<Longrightarrow> map_of (map (\<lambda>f. (f_name f, g f)) fs) (f_name f) = Some (g f)"
  by (induction fs) (auto, metis imageI)

lemma validated_marg:
  assumes "model_validate verr cls fs args = Inr m" "distinct (map f_name fs)" "f \<in> set fs"
  shows "validate_field f args = Inr (marg m (f_name f))"
  using assms by (auto simp: model_validate_Inr_iff marg_def map_of_fields)

lemma validated_dump:
  assumes "model_validate verr cls fs args = Inr m"
  shows "model_dump m = map (\<lambda>f. (f_name f, PStr (case validate_field f args of Inl _ \<Rightarrow> [] | Inr v \<Rightarrow> v))) fs"
  using assms by (simp add: model_validate_Inr_iff model_dump_def)

lemma revalidate_iff:
  assumes ok: "model_validate verr cls fs args = Inr m" and d: "distinct (map f_name fs)"
  shows "model_validate verr cls fs (model_dump m) = Inr m \<longleftrightarrow>
    (\<forall>f \<in> set fs. stable_value f (marg m (f_name f)))"
proof -
  have v: "validate_field f args = Inr (marg m (f_name f))" if "f \<in> set fs" for f
    using validated_marg [OF ok d that] .
  have g: "dict_get (model_dump m) (f_name f) = Some (PStr (marg m (f_name f)))" if "f \<in> set fs" for f
    using map_of_fields [OF d that, of "\<lambda>f. PStr (case validate_field f args of Inl _ \<Rightarrow> [] | Inr v \<Rightarrow> v)"]
      v [OF that] by (simp add: validated_dump [OF ok])
  have s: "validate_field f (model_dump m) = Inr w \<longleftrightarrow>
      length_ok f (marg m (f_name f)) \<and> f_after f (marg m (f_name f)) = Inr w" if "f \<in> set fs" for f w
    using validate_field_str [OF g [OF that]] .
  have m: "m = \<lparr>m_class = cls, m_fields = map (\<lambda>f. (f_name f, PStr (marg m (f_name f)))) fs\<rparr>"
    using ok v by (auto simp: model_validate_Inr_iff)
  show ?thesis
  proof
    assume r: "model_validate verr cls fs (model_dump m) = Inr m"
    show "\<forall>f \<in> set fs. stable_value f (marg m (f_name f))"
      using validated_marg [OF r d] s by (auto simp: stable_value_def)
  next
    assume "\<forall>f \<in> set fs. stable_value f (marg m (f_name f))"
    then have w: "validate_field f (model_dump m) = Inr (marg m (f_name f))" if "f \<in> set fs" for f
      using s that by (simp add: stable_value_def)
    then show "model_validate verr cls fs (model_dump m) = Inr m"
      by (subst model_validate_Inr_iff, subst m) auto
  qed
qed

lemma str_field_stable:
  assumes "validate_field (str_field n lo hi None) args = Inr v"
  shows "stable_value (str_field n lo hi None) v"
  using assms
  by (auto simp: validate_field_def str_field_def stable_value_def length_ok_def not_less
      split: option.splits pyval.splits if_splits)

lemma str_field_default_stable:
  assumes "validate_field (str_field n 0 None (Some d)) args = Inr v"
  shows "stable_value (str_field n 0 None (Some d)) v"
  by (simp add: str_field_def stable_value_def length_ok_def)

lemma recipient_field_stable:
  assumes "validate_field ((str_field n lo None None)\<lparr>f_after := validated_recipient\<rparr>) args = Inr v"
  shows "stable_value ((str_field n lo None None)\<lparr>f_after := validated_recipient\<rparr>) v \<and> email_recipient v"
  using assms
  by (auto simp: validate_field_def str_field_def stable_value_def length_ok_def not_less
      validated_recipient_def split: option.splits pyval.splits if_splits)

lemma startswith_hash: "startswith s ''#'' \<longleftrightarrow> (\<exists>r. s = CHR ''#'' # r)"
  by (cases s) auto

lemma lower_char_hash [simp]: "lower_char (CHR ''#'') = CHR ''#''"
  by (simp add: lower_char_def is_upper_cp_def)

lemma channel_idem:
  assumes "reject_non_channel_targets v = Inr c"
  shows "reject_non_channel_targets c = Inr c \<and> strip c = c"
proof (cases "startswith (strip v) ''#''")
  case True
  then obtain r where r: "strip v = CHR ''#'' # r" by (auto simp: startswith_hash)
  with assms have c: "c = lower (strip v)"
    by (auto simp: reject_non_channel_targets_def Let_def split: if_splits)
  then have s: "strip c = c" by (simp add: strip_lower)
  then show ?thesis using c r
    by (simp add: reject_non_channel_targets_def Let_def upper_is_U_or_D_def)
next
  case False
  with assms have "c = strip v" by (auto simp: reject_non_channel_targets_def Let_def split: if_splits)
  with assms show ?thesis by (auto simp: reject_non_channel_targets_def Let_def)
qed

lemma channel_field_stable_iff:
  assumes "validate_field ((str_field ''channel'' 1 None None)\<lparr>f_after := reject_non_channel_targets\<rparr>) args = Inr v"
  shows "stable_value ((str_field ''channel'' 1 None None)\<lparr>f_after := reject_non_channel_targets\<rparr>) v \<longleftrightarrow> v \<noteq> []"
proof -
  from assms obtain s where "reject_non_channel_targets s = Inr v"
    by (auto simp: validate_field_def str_field_def split: option.splits pyval.splits if_splits sum.splits)
  then have "reject_non_channel_targets v = Inr v" using channel_idem by blast
  then show ?thesis by (cases v) (auto simp: stable_value_def length_ok_def str_field_def)
qed

lemma schema_fields_distinct [simp]:
  "distinct (map f_name SearchArgs)" "distinct (map f_name SendEmailArgs)"
  "distinct (map f_name SlackPostArgs)" "distinct (map f_name CalendarCreateEventArgs)"
  "distinct (map f_name SlackPostAsUserArgs)"
  by (simp_all add: SearchArgs_def SendEmailArgs_def SlackPostArgs_def CalendarCreateEventArgs_def
      SlackPostAsUserArgs_def str_field_def)

lemma revalidate_builtin:
  assumes "model_validate verr cls fs args = Inr m"
    and "fs \<in> {SearchArgs, SendEmailArgs, CalendarCreateEventArgs, SlackPostAsUserArgs}"
  shows "model_validate verr cls fs (model_dump m) = Inr m"
proof -
  have d: "distinct (map f_name fs)" using assms(2) by auto
  have "stable_value f (marg m (f_name f))" if "f \<in> set fs" for f
    using validated_marg [OF assms(1) d that] assms(2) that
      str_field_stable str_field_default_stable recipient_field_stable
    unfolding SearchArgs_def SendEmailArgs_def CalendarCreateEventArgs_def SlackPostAsUserArgs_def
    by (auto simp only: insert_iff empty_iff list.set)
  then show ?thesis using revalidate_iff [OF assms(1) d] by blast
qed

lemma revalidate_slack_post:
  assumes "model_validate verr cls SlackPostArgs args = Inr m"
  shows "model_validate verr cls SlackPostArgs (model_dump m) = Inr m \<longleftrightarrow> marg m ''channel'' \<noteq> []"
proof -
  let ?ch = "(str_field ''channel'' 1 None None)\<lparr>f_after := reject_non_channel_targets\<rparr>"
  let ?tx = "str_field ''text'' 1 (Some SLACK_MAX_TEXT_CHARS) None"
  have fs: "set SlackPostArgs = {?ch, ?tx}" by (simp add: SlackPostArgs_def)
  have n: "f_name ?ch = ''channel''" by (simp add: str_field_def)
  have "stable_value ?tx (marg m (f_name ?tx))"
    using validated_marg [OF assms, of ?tx] fs str_field_stable by simp
  moreover have "stable_value ?ch (marg m ''channel'') \<longleftrightarrow> marg m ''channel'' \<noteq> []"
    using validated_marg [OF assms, of ?ch] fs n channel_field_stable_iff by simp
  ultimately show ?thesis using revalidate_iff [OF assms] n by (simp add: fs)
qed

section \<open>The registry\<close>

definition registry_ok :: "'w registry \<Rightarrow> bool" where
  "registry_ok reg \<longleftrightarrow> dict_ok reg \<and> (\<forall>k t. dict_get reg k = Some t \<longrightarrow> t_name t = k)"

lemma registry_ok_Nil [simp]: "registry_ok []"
  by (simp add: registry_ok_def dict_ok_def dict_keys_def)

lemma registry_ok_register: "register t rep reg = Inr reg' \<Longrightarrow> registry_ok reg \<Longrightarrow> registry_ok reg'"
  by (auto simp: register_def registry_ok_def split: if_splits)

lemma registry_ok_register_all: "register_all ts reg = Inr reg' \<Longrightarrow> registry_ok reg \<Longrightarrow> registry_ok reg'"
  by (induction ts arbitrary: reg) (auto simp: result_bind_Inr_iff dest: registry_ok_register)

lemma get_tool_Inr_iff [simp]: "get_tool reg n = Inr t \<longleftrightarrow> dict_get reg n = Some t"
  by (simp add: get_tool_def split: option.splits)

lemma propose_Inr_iff:
  "propose reg fresh n args why = Inr a \<longleftrightarrow>
   (\<exists>t m perm. dict_get reg n = Some t \<and> t_validate t args = Inr m \<and> permission_for t m = Inr perm \<and>
      a = \<lparr>pa_id = fresh, pa_tool = t_name t, pa_args = model_dump m, pa_tier = t_tier t,
           pa_rationale = why, pa_permission = perm\<rparr>)"
  unfolding propose_def result_bind_Inr_iff get_tool_Inr_iff by auto

definition builtin_tools :: "verr \<Rightarrow> (email_message, 'w) sender option \<Rightarrow> (slack_message, 'w) sender option
    \<Rightarrow> (email_message, 'w) token_sender option \<Rightarrow> (calendar_event, 'w) token_sender option
    \<Rightarrow> (slack_message, 'w) token_sender option \<Rightarrow> 'w resolver option \<Rightarrow> 'w tool list" where
  "builtin_tools verr e s g c su r =
     [search_tool verr, send_email_tool verr e, slack_post_tool verr s, gmail_send_tool verr g r,
      calendar_create_event_tool verr c r, slack_post_as_user_tool verr su r]"

lemmas tool_defs = search_tool_def send_email_tool_def slack_post_tool_def gmail_send_tool_def
  calendar_create_event_tool_def slack_post_as_user_tool_def

lemma builtin_names [simp]:
  "map t_name (builtin_tools verr e s g c su r) =
   [''search'', ''send_email'', ''slack_post'', ''gmail_send'', ''calendar_create_event'', ''slack_post_as_user'']"
  by (simp add: builtin_tools_def tool_defs)

lemma register_all_fresh:
  "distinct (map t_name ts) \<Longrightarrow> set (map t_name ts) \<inter> set (dict_keys reg) = {} \<Longrightarrow>
   register_all ts reg = Inr (reg @ map (\<lambda>t. (t_name t, t)) ts)"
proof (induction ts arbitrary: reg)
  case (Cons t ts)
  then have "t_name t \<notin> fst ` set reg" by (auto simp: dict_keys_def)
  then have u: "dict_set (t_name t) t reg = reg @ [(t_name t, t)]"
    by (induction reg) auto
  with Cons show ?case by (auto simp: register_def dict_keys_def)
qed simp

lemma register_all_append:
  "register_all (ts @ us) reg = result_bind (register_all ts reg) (register_all us)"
proof (induction ts arbitrary: reg)
  case (Cons t ts)
  then show ?case by (cases "register t False reg") simp_all
qed simp

lemma default_registry_tools:
  assumes o: "resolve_oauth_tools db resolver gmail calendar slack_user = (g, c, su, r)"
  shows "default_registry verr ec sc db email slack gmail calendar slack_user resolver =
    Inr (map (\<lambda>t. (t_name t, t))
      (builtin_tools verr (resolve_sender ec db email) (resolve_sender sc db slack) g c su r))"
proof -
  let ?ts = "builtin_tools verr (resolve_sender ec db email) (resolve_sender sc db slack) g c su r"
  have "register_oauth_tools verr r g c su = register_all (drop 3 ?ts)"
    by (intro ext) (simp add: register_oauth_tools_def builtin_tools_def)
  then have "default_registry verr ec sc db email slack gmail calendar slack_user resolver = register_all ?ts []"
    using register_all_append [of "take 3 ?ts" "drop 3 ?ts" "[]"]
    by (simp add: default_registry_def o builtin_tools_def)
  also have "\<dots> = Inr (map (\<lambda>t. (t_name t, t)) ?ts)"
    using register_all_fresh [of ?ts "[]"] by (simp add: dict_keys_def)
  finally show ?thesis .
qed

lemma default_registry_eq:
  "\<exists>e s g c su r. default_registry verr ec sc db email slack gmail calendar slack_user resolver =
     Inr (map (\<lambda>t. (t_name t, t)) (builtin_tools verr e s g c su r))"
proof -
  obtain g c su r where "resolve_oauth_tools db resolver gmail calendar slack_user = (g, c, su, r)"
    by (rule prod_cases4)
  from default_registry_tools [OF this] show ?thesis by blast
qed

lemma map_of_named:
  "map_of (map (\<lambda>t. (t_name t, t)) ts) n = Some t \<Longrightarrow> t \<in> set ts \<and> t_name t = n"
  by (induction ts) (auto split: if_splits)

section \<open>Recipients and channels\<close>

lemma before_after_first:
  "c \<notin> set l \<Longrightarrow> before_first c (l @ c # d) = l \<and> after_first c (l @ c # d) = d"
  by (simp add: before_first_def after_first_def takeWhile_tail takeWhile_neq dropWhile_neq_tail)

lemma email_recipient_iff:
  "email_recipient s \<longleftrightarrow> (\<exists>l d. s = l @ CHR ''@'' # d \<and> plain_part l \<and> plain_part d)"
proof
  assume e: "email_recipient s"
  then obtain l d where s: "s = l @ CHR ''@'' # d" "CHR ''@'' \<notin> set l"
    by (metis email_recipient_def split_list_first)
  with e show "\<exists>l d. s = l @ CHR ''@'' # d \<and> plain_part l \<and> plain_part d"
    using before_after_first [OF s(2)] by (auto simp: email_recipient_def)
next
  assume "\<exists>l d. s = l @ CHR ''@'' # d \<and> plain_part l \<and> plain_part d"
  then obtain l d where s: "s = l @ CHR ''@'' # d" "plain_part l" "plain_part d" by blast
  then have "CHR ''@'' \<notin> set l" by (auto simp: plain_part_def list_all_iff)
  with s before_after_first show "email_recipient s" by (auto simp: email_recipient_def)
qed

lemma recipient_domain_eq:
  assumes "plain_part d" shows "recipient_domain (l @ CHR ''@'' # d) = lower d"
proof -
  have "CHR ''@'' \<notin> set d" "d \<noteq> []" using assms by (auto simp: plain_part_def list_all_iff)
  then show ?thesis by (simp add: recipient_domain_def Let_def)
qed

lemma recipient_validated:
  assumes "model_validate verr cls SendEmailArgs args = Inr m"
  shows "email_recipient (marg m ''to'')"
proof -
  let ?to = "(str_field ''to'' 3 None None)\<lparr>f_after := validated_recipient\<rparr>"
  have "f_name ?to = ''to''" "?to \<in> set SendEmailArgs" by (simp_all add: str_field_def SendEmailArgs_def)
  then show ?thesis
    using validated_marg [OF assms, of ?to] recipient_field_stable by simp
qed

lemma channel_validated:
  assumes "model_validate verr cls SlackPostArgs args = Inr m"
  shows "reject_non_channel_targets (marg m ''channel'') = Inr (marg m ''channel'')"
proof -
  let ?ch = "(str_field ''channel'' 1 None None)\<lparr>f_after := reject_non_channel_targets\<rparr>"
  have "f_name ?ch = ''channel''" "?ch \<in> set SlackPostArgs" by (simp_all add: str_field_def SlackPostArgs_def)
  then have "validate_field ?ch args = Inr (marg m ''channel'')"
    using validated_marg [OF assms, of ?ch] by simp
  then obtain s where "reject_non_channel_targets s = Inr (marg m ''channel'')"
    by (auto simp: validate_field_def str_field_def split: option.splits pyval.splits if_splits sum.splits)
  then show ?thesis using channel_idem by blast
qed

lemma channel_segment_lower:
  assumes "reject_non_channel_targets c = Inr c"
  shows "slack_channel_resource_segment c =
    ''channel:'' @ (if startswith c ''#'' then drop 1 c else c)"
proof (cases "startswith (strip c) ''#''")
  case True
  then obtain r where r: "strip c = CHR ''#'' # r" by (auto simp: startswith_hash)
  with assms have "c = CHR ''#'' # lower r"
    by (auto simp: reject_non_channel_targets_def Let_def split: if_splits)
  then show ?thesis by (simp add: slack_channel_resource_segment_def)
next
  case False
  with assms have "c = strip c" by (auto simp: reject_non_channel_targets_def Let_def split: if_splits)
  with False show ?thesis by (simp add: slack_channel_resource_segment_def)
qed

lemma validated_class: "model_validate verr cls fs args = Inr m \<Longrightarrow> m_class m = cls"
  by (simp add: model_validate_Inr_iff)

lemma marg_dump: "marg m k \<noteq> [] \<Longrightarrow> dict_get (model_dump m) k = Some (PStr (marg m k))"
  by (auto simp: model_dump_def marg_def split: option.splits pyval.splits)

section \<open>Properties\<close>

text \<open>A proposal carries what the tool declares. In a registry whose keys are the names of its
  tools, a successful proposal has the tier that the named tool declares and the permission computed
  from its base permission and the validated arguments; an unknown tool, invalid arguments and a
  failing resource check give an error and no action. Registration keeps that registry invariant.\<close>

theorem propose_stamps_declared:
  assumes "registry_ok reg"
  shows "(propose reg fresh n args why = Inr a \<longleftrightarrow>
    (\<exists>t m. dict_get reg n = Some t \<and> t_validate t args = Inr m \<and>
       permission_for t m = Inr (pa_permission a) \<and> pa_tool a = n \<and> pa_tier a = t_tier t \<and>
       pa_args a = model_dump m \<and> pa_id a = fresh \<and> pa_rationale a = why)) \<and>
    (\<forall>reg'. register t0 rep reg = Inr reg' \<longrightarrow> registry_ok reg')"
proof (intro conjI allI impI)
  have "t_name t = n" if "dict_get reg n = Some t" for t
    using assms that by (auto simp: registry_ok_def)
  then show "propose reg fresh n args why = Inr a \<longleftrightarrow>
    (\<exists>t m. dict_get reg n = Some t \<and> t_validate t args = Inr m \<and>
       permission_for t m = Inr (pa_permission a) \<and> pa_tool a = n \<and> pa_tier a = t_tier t \<and>
       pa_args a = model_dump m \<and> pa_id a = fresh \<and> pa_rationale a = why)"
    unfolding propose_Inr_iff by auto
  show "registry_ok reg'" if "register t0 rep reg = Inr reg'" for reg'
    using registry_ok_register [OF that assms] .
qed

definition demo_search :: proposed_action where
  "demo_search = \<lparr>pa_id = ''act_1'', pa_tool = ''search'', pa_args = [(''query'', PStr ''x'')],
     pa_tier = READ, pa_rationale = [], pa_permission = None\<rparr>"

theorem propose_stamps_declared_witness:
  "\<exists>t m. dict_get [(''search'', search_tool (\<lambda>_ _. []) :: unit tool)] ''search'' = Some t \<and>
     t_validate t [(''query'', PStr ''x'')] = Inr m \<and> permission_for t m = Inr (pa_permission demo_search)"
proof -
  let ?reg = "[(''search'', search_tool (\<lambda>_ _. []) :: unit tool)]"
  have ok: "registry_ok ?reg" by (simp add: registry_ok_def dict_ok_def dict_keys_def search_tool_def)
  have "propose ?reg ''act_1'' ''search'' [(''query'', PStr ''x'')] [] = Inr demo_search"
    by code_simp
  then show ?thesis
    using propose_stamps_declared [OF ok, of "''act_1''" "''search''" "[(''query'', PStr ''x'')]" "[]" demo_search]
    by blast
qed



text \<open>Recipients. An email action is proposed only for a recipient of the form local@domain with
  non-empty parts free of white space and of further at signs; its permission ends in the lower-cased
  domain, which is never empty. A grant for one domain therefore authorises exactly the recipients of
  that domain, in any letter case.\<close>

theorem email_permission_is_domain:
  assumes "propose [(''send_email'', send_email_tool verr sender)] fresh ''send_email'' args why = Inr a"
  shows "\<exists>l d. dict_get (pa_args a) ''to'' = Some (PStr (l @ ''@'' @ d)) \<and> plain_part l \<and> plain_part d \<and>
    pa_permission a = Some (''tool:send:domain:'' @ lower d) \<and> lower d \<noteq> [] \<and>
    (\<forall>g. \<not> endswith (''tool:send:domain:'' @ g) '':*'' \<longrightarrow>
       permission_satisfied {''tool:send:domain:'' @ g} (the (pa_permission a)) = (lower d = g))"
proof -
  from assms obtain m where m: "model_validate verr ''_SendEmailArgs'' SendEmailArgs args = Inr m"
      "pa_args a = model_dump m" "permission_for (send_email_tool verr sender) m = Inr (pa_permission a)"
    by (auto simp: propose_Inr_iff send_email_tool_def)
  obtain l d where to: "marg m ''to'' = l @ CHR ''@'' # d" "plain_part l" "plain_part d"
    using recipient_validated [OF m(1)] email_recipient_iff by blast
  then have p: "pa_permission a = Some (''tool:send:domain:'' @ lower d)"
    using m(3) validated_class [OF m(1)] recipient_domain_eq
    by (auto simp: permission_for_def send_email_tool_def recipient_resource_def expect_class_def
        combine_permission_def)
  moreover have "d \<noteq> []" using to(3) by (simp add: plain_part_def)
  moreover have "dict_get (pa_args a) ''to'' = Some (PStr (marg m ''to''))"
    using to(1) m(2) by (simp add: marg_dump)
  moreover have "permission_satisfied {''tool:send:domain:'' @ g} (''tool:send:domain:'' @ lower d) = (lower d = g)"
    if "\<not> endswith (''tool:send:domain:'' @ g) '':*''" for g
    using that by (auto simp: permission_satisfied_def WILDCARD_def)
  ultimately show ?thesis using to by auto
qed

theorem email_permission_is_domain_witness:
  "\<exists>a. propose [(''send_email'', send_email_tool (\<lambda>_ _. []) None :: unit tool)] ''act_1'' ''send_email''
       [(''to'', PStr ''Bob@Company.COM'')] [] = Inr a \<and>
     permission_satisfied {''tool:send:domain:company.com''} (the (pa_permission a))"
proof -
  let ?a = "\<lparr>pa_id = ''act_1'', pa_tool = ''send_email'',
      pa_args = [(''to'', PStr ''Bob@Company.COM''), (''subject'', PStr []), (''body'', PStr [])],
      pa_tier = SEND, pa_rationale = [], pa_permission = Some ''tool:send:domain:company.com''\<rparr>"
  have p: "propose [(''send_email'', send_email_tool (\<lambda>_ _. []) None :: unit tool)] ''act_1'' ''send_email''
       [(''to'', PStr ''Bob@Company.COM'')] [] = Inr ?a" by code_simp
  obtain d where d: "pa_permission ?a = Some (''tool:send:domain:'' @ lower d)"
    and g: "\<And>g. \<not> endswith (''tool:send:domain:'' @ g) '':*'' \<Longrightarrow>
       permission_satisfied {''tool:send:domain:'' @ g} (the (pa_permission ?a)) = (lower d = g)"
    using email_permission_is_domain [OF p] by blast
  from d have "lower d = ''company.com''" by simp
  moreover have "\<not> endswith (''tool:send:domain:'' @ ''company.com'') '':*''" by (simp add: suffix_to_prefix)
  ultimately have "permission_satisfied {''tool:send:domain:company.com''} (the (pa_permission ?a))"
    using g [of "''company.com''"] by simp
  with p show ?thesis by auto
qed

text \<open>Channels. The channel that a \<open>slack_post\<close> action names is the one whose permission is
  stamped: the value is stripped, a leading hash makes it lower case, at-mentions and user or direct
  message ids are refused, and the sender receives the same string that the permission was computed
  from.\<close>

theorem slack_permission_is_channel:
  assumes "propose [(''slack_post'', slack_post_tool verr (Some post))] fresh ''slack_post'' args why = Inr a"
    and "dict_get (pa_args a) ''channel'' = Some (PStr ch)" "ch \<noteq> []"
  shows "pa_permission a = Some (''tool:slack:post:channel:'' @ (if startswith ch ''#'' then drop 1 ch else ch)) \<and>
    strip ch = ch \<and> \<not> startswith ch ''@'' \<and> (startswith ch ''#'' \<longrightarrow> lower ch = ch) \<and>
    (\<exists>txt. execute [(''slack_post'', slack_post_tool verr (Some post))] a p w =
       (case post \<lparr>sm_channel = ch, sm_text = txt\<rparr> w of
          (Inr out, w') \<Rightarrow> (\<lparr>ar_id = fresh, ar_tool = ''slack_post'', ar_ok = True, ar_output = out, ar_error = None\<rparr>, w')
        | (Inl e, w') \<Rightarrow> (\<lparr>ar_id = fresh, ar_tool = ''slack_post'', ar_ok = False, ar_output = PNone,
             ar_error = Some (error_text e)\<rparr>, w')))"
proof -
  let ?t = "slack_post_tool verr (Some post)"
  from assms(1) obtain m where m: "model_validate verr ''_SlackPostArgs'' SlackPostArgs args = Inr m"
      "pa_args a = model_dump m" "permission_for ?t m = Inr (pa_permission a)"
      "pa_tool a = ''slack_post''" "pa_id a = fresh"
    by (auto simp: propose_Inr_iff slack_post_tool_def)
  have ch: "marg m ''channel'' = ch"
    using assms(2) m(2) by (simp add: marg_def model_dump_def)
  note v = channel_validated [OF m(1), unfolded ch] and s = channel_idem [OF channel_validated [OF m(1)], unfolded ch]
  have p: "pa_permission a = Some (''tool:slack:post:channel:'' @ (if startswith ch ''#'' then drop 1 ch else ch))"
    using m(3) ch validated_class [OF m(1)] channel_segment_lower [OF v]
    by (auto simp: permission_for_def slack_post_tool_def expect_class_def combine_permission_def)
  have l: "\<not> startswith ch ''@'' \<and> (startswith ch ''#'' \<longrightarrow> lower ch = ch)"
    using v s by (auto simp: reject_non_channel_targets_def Let_def startswith_hash split: if_splits)
  have "t_validate ?t (pa_args a) = Inr m"
    using revalidate_slack_post [OF m(1)] assms(3) ch m(2) by (simp add: slack_post_tool_def)
  then have "execute [(''slack_post'', ?t)] a p w =
       (case post \<lparr>sm_channel = ch, sm_text = marg m ''text''\<rparr> w of
          (Inr out, w') \<Rightarrow> (\<lparr>ar_id = fresh, ar_tool = ''slack_post'', ar_ok = True, ar_output = out, ar_error = None\<rparr>, w')
        | (Inl e, w') \<Rightarrow> (\<lparr>ar_id = fresh, ar_tool = ''slack_post'', ar_ok = False, ar_output = PNone,
             ar_error = Some (error_text e)\<rparr>, w'))"
    using m(4,5) validated_class [OF m(1)] ch
    by (auto simp: execute_def get_tool_def expect_class_def slack_of_args_def slack_post_tool_def
        split: prod.splits sum.splits)
  with p s l show ?thesis by blast
qed

theorem slack_permission_is_channel_witness:
  "\<exists>a. propose [(''slack_post'', slack_post_tool (\<lambda>_ _. []) (Some fake_slack_post))] ''act_1'' ''slack_post''
       [(''channel'', PStr '' #General ''), (''text'', PStr ''hi'')] [] = Inr a \<and>
     pa_permission a = Some ''tool:slack:post:channel:general''"
proof -
  let ?args = "[(''channel'', PStr '' #General ''), (''text'', PStr ''hi'')]"
  let ?t = "slack_post_tool (\<lambda>_ _. []) (Some fake_slack_post)"
  let ?m = "\<lparr>m_class = ''_SlackPostArgs'', m_fields = [(''channel'', PStr ''#general''), (''text'', PStr ''hi'')]\<rparr>"
  have ch: "reject_non_channel_targets '' #General '' = Inr ''#general''" by code_simp
  have v: "t_validate ?t ?args = Inr ?m"
    using ch by (simp add: model_validate_def field_errors_def field_values_def validate_field_def
        slack_post_tool_def SlackPostArgs_def str_field_def SLACK_MAX_TEXT_CHARS_def)
  obtain perm where "permission_for ?t ?m = Inr perm"
    by (simp add: slack_post_tool_def permission_for_def expect_class_def)
  with v obtain a where a: "propose [(''slack_post'', ?t)] ''act_1'' ''slack_post'' ?args [] = Inr a"
      "pa_args a = model_dump ?m"
    by (simp add: propose_def get_tool_def)
  then have c: "dict_get (pa_args a) ''channel'' = Some (PStr ''#general'')"
    by (simp add: model_dump_def)
  from slack_permission_is_channel [OF a(1) c] a(1) show ?thesis by auto
qed

end
