(* ===== verification/Audit_Log.thy ===== *)
theory Audit_Log
  imports Actions "HOL-Library.Multiset"
begin

text \<open>
  \<^verbatim>\<open>src/src/atlas/governance/audit.py\<close> and \<^verbatim>\<open>src/src/atlas/persistence/audit_store.py\<close>:
  the append-only, hash-chained audit log, its in-memory and its Postgres backend.

  \<^item> The environment record \<open>audit_env\<close> has what the module takes from outside: the digest
    \<open>sha256\<close> (bytes to hex digest), pydantic's rendering \<open>iso\<close> of a datetime, and \<open>stamps\<close>, the
    event id and the clock reading that the n-th event of a log is created with.
  \<^item> A log is the list of its chained records. The convenience recorders of \<open>AuditLog\<close> return
    the extended log (\<open>executed\<close> also its \<open>ValueError\<close>).
  \<^item> The Postgres backend keeps rows. \<open>pg_env\<close> has what the database contributes: the session
    time zone, the \<open>jsonb\<close> normalisation of a value, the \<open>->>\<close> operator and the cast of text to
    boolean. The locale \<open>chain_store\<close> is the contract of \<open>_append_event\<close>/\<open>_load\<close>; it is
    interpreted on both backends.

  Because the digest is arbitrary, statements on tampering name the colliding inputs explicitly
  instead of assuming that no collision exists.
\<close>

section \<open>Events and the chain\<close>

datatype audit_event_type =
  PROPOSED | APPROVED | REJECTED | EXECUTED | REPLAY_SKIPPED | FAILED | SKIPPED | DENIED | INGESTED

primrec event_type_value :: "audit_event_type \<Rightarrow> string" where
  "event_type_value PROPOSED = ''proposed''"
| "event_type_value APPROVED = ''approved''"
| "event_type_value REJECTED = ''rejected''"
| "event_type_value EXECUTED = ''executed''"
| "event_type_value REPLAY_SKIPPED = ''replay_skipped''"
| "event_type_value FAILED = ''failed''"
| "event_type_value SKIPPED = ''skipped''"
| "event_type_value DENIED = ''denied''"
| "event_type_value INGESTED = ''ingested''"

definition event_type_of_value :: "string \<Rightarrow> audit_event_type option" where
  "event_type_of_value s = find (\<lambda>t. event_type_value t = s)
     [PROPOSED, APPROVED, REJECTED, EXECUTED, REPLAY_SKIPPED, FAILED, SKIPPED, DENIED, INGESTED]"

text \<open>An aware datetime: the instant (microseconds since the epoch) and the offset of its zone.\<close>

record datetime =
  instant :: int
  utc_offset :: int

definition astimezone_utc :: "datetime \<Rightarrow> datetime" where
  "astimezone_utc d = d\<lparr>utc_offset := 0\<rparr>"

record audit_tool_context =
  tc_schema :: "string option"
  tc_schema_version :: "string option"
  tc_destination_host :: "string option"
  tc_provider :: "string option"
  tc_principal :: "string option"

record audit_event =
  ev_id :: string
  ev_timestamp :: datetime
  ev_type :: audit_event_type
  ev_action :: string
  ev_tool :: "string option"
  ev_actor :: string
  ev_detail :: pydict

record audit_env =
  sha256 :: "string \<Rightarrow> string"
  iso :: "datetime \<Rightarrow> string"
  stamps :: "nat \<Rightarrow> string \<times> int"

definition opt_str :: "string option \<Rightarrow> pyval" where
  "opt_str s = (case s of None \<Rightarrow> PNone | Some x \<Rightarrow> PStr x)"

text \<open>\<open>event.model_dump(mode="json")\<close>, fields in declaration order.\<close>

definition event_payload :: "audit_env \<Rightarrow> audit_event \<Rightarrow> pyval" where
  "event_payload env e = PDict
     [(''event_id'', PStr (ev_id e)),
      (''timestamp'', PStr (iso env (ev_timestamp e))),
      (''event_type'', PStr (event_type_value (ev_type e))),
      (''action_id'', PStr (ev_action e)),
      (''tool'', opt_str (ev_tool e)),
      (''actor'', PStr (ev_actor e)),
      (''detail'', PDict (ev_detail e))]"

definition canonical_event_bytes :: "audit_env \<Rightarrow> audit_event \<Rightarrow> string" where
  "canonical_event_bytes env e = json_bytes (event_payload env e)"

definition hash_input :: "audit_env \<Rightarrow> string \<Rightarrow> audit_event \<Rightarrow> string" where
  "hash_input env prev e = utf8 prev @ canonical_event_bytes env e"

definition compute_event_hash :: "audit_env \<Rightarrow> string \<Rightarrow> audit_event \<Rightarrow> string" where
  "compute_event_hash env prev e = sha256 env (hash_input env prev e)"

definition GENESIS_HASH :: string where
  "GENESIS_HASH = replicate 64 (CHR ''0'')"

record chained_record =
  cr_seq :: int
  cr_event :: audit_event
  cr_prev_hash :: string
  cr_event_hash :: string

record chain_verification =
  cv_ok :: bool
  cv_broken_at :: "int option"
  cv_reason :: "string option"

fun verify_loop ::
  "audit_env \<Rightarrow> nat \<Rightarrow> string \<Rightarrow> chained_record list \<Rightarrow> chain_verification" where
  "verify_loop env index expected_prev [] = \<lparr>cv_ok = True, cv_broken_at = None, cv_reason = None\<rparr>"
| "verify_loop env index expected_prev (r # rs) =
     (if cr_seq r \<noteq> int index then
        \<lparr>cv_ok = False, cv_broken_at = Some (cr_seq r),
         cv_reason = Some (''non-contiguous seq at index '' @ nat_str index)\<rparr>
      else if cr_prev_hash r \<noteq> expected_prev then
        \<lparr>cv_ok = False, cv_broken_at = Some (cr_seq r),
         cv_reason = Some ''prev_hash does not match previous link''\<rparr>
      else if compute_event_hash env (cr_prev_hash r) (cr_event r) \<noteq> cr_event_hash r then
        \<lparr>cv_ok = False, cv_broken_at = Some (cr_seq r),
         cv_reason = Some ''event_hash does not match event content''\<rparr>
      else verify_loop env (Suc index) (cr_event_hash r) rs)"

definition verify_chain :: "audit_env \<Rightarrow> chained_record list \<Rightarrow> chain_verification" where
  "verify_chain env rs = verify_loop env 0 GENESIS_HASH rs"

definition link :: "audit_env \<Rightarrow> chained_record option \<Rightarrow> audit_event \<Rightarrow> chained_record" where
  "link env tail e =
     (let sq = (case tail of None \<Rightarrow> 0 | Some t \<Rightarrow> cr_seq t + 1);
          prev = (case tail of None \<Rightarrow> GENESIS_HASH | Some t \<Rightarrow> cr_event_hash t)
      in \<lparr>cr_seq = sq, cr_event = e, cr_prev_hash = prev,
          cr_event_hash = compute_event_hash env prev e\<rparr>)"

section \<open>The in-memory log\<close>

type_synonym audit_log = "chained_record list"

definition tail_of :: "audit_log \<Rightarrow> chained_record option" where
  "tail_of rs = (if rs = [] then None else Some (last rs))"

definition mem_append_event :: "audit_env \<Rightarrow> audit_log \<Rightarrow> audit_event \<Rightarrow> audit_log" where
  "mem_append_event env rs e = rs @ [link env (tail_of rs) e]"

definition events :: "audit_log \<Rightarrow> audit_event list" where
  "events rs = map cr_event rs"

definition counts_as_executed :: "audit_event \<Rightarrow> bool" where
  "counts_as_executed e =
     (if ev_type e \<noteq> EXECUTED then False
      else (case dict_get (ev_detail e) ''ok'' of None \<Rightarrow> True | Some v \<Rightarrow> v = PBool True))"

definition has_executed :: "audit_log \<Rightarrow> string \<Rightarrow> bool" where
  "has_executed rs action_id =
     list_ex (\<lambda>e. counts_as_executed e \<and> ev_action e = action_id) (events rs)"

section \<open>The recorders\<close>

definition record_event :: "audit_env \<Rightarrow> audit_log \<Rightarrow> audit_event_type \<Rightarrow> string \<Rightarrow> string option
    \<Rightarrow> string \<Rightarrow> pydict \<Rightarrow> audit_log" where
  "record_event env rs ty action tool_name actor detail =
     (let (eid, now) = stamps env (length rs)
      in mem_append_event env rs
           \<lparr>ev_id = eid, ev_timestamp = \<lparr>instant = now, utc_offset = 0\<rparr>, ev_type = ty,
            ev_action = action, ev_tool = tool_name, ev_actor = actor, ev_detail = detail\<rparr>)"

text \<open>\<open>extra.model_dump(exclude_none=True, by_alias=True)\<close>.\<close>

definition context_dict :: "audit_tool_context \<Rightarrow> pydict" where
  "context_dict c =
     concat (map (\<lambda>(k, v). case v of None \<Rightarrow> [] | Some s \<Rightarrow> [(k, PStr s)])
       [(''schema'', tc_schema c), (''schema_version'', tc_schema_version c),
        (''destination_host'', tc_destination_host c), (''provider'', tc_provider c),
        (''principal'', tc_principal c)])"

definition merge_detail :: "pydict \<Rightarrow> audit_tool_context option \<Rightarrow> pydict" where
  "merge_detail base extra =
     (case extra of None \<Rightarrow> base | Some c \<Rightarrow> dict_merge (context_dict c) base)"

definition proposed :: "audit_env \<Rightarrow> audit_log \<Rightarrow> proposed_action \<Rightarrow> audit_log" where
  "proposed env rs a =
     record_event env rs PROPOSED (pa_id a) (Some (pa_tool a)) ''system''
       [(''risk_tier'', PStr (tier_value (pa_tier a))), (''args'', PDict (pa_args a))]"

definition decided :: "audit_env \<Rightarrow> audit_log \<Rightarrow> approval_decision \<Rightarrow> audit_log" where
  "decided env rs d =
     record_event env rs (if ad_approved d then APPROVED else REJECTED) (ad_id d) None (ad_by d) []"

definition executed ::
  "audit_env \<Rightarrow> audit_log \<Rightarrow> action_result \<Rightarrow> audit_tool_context option \<Rightarrow> audit_log result" where
  "executed env rs r extra =
     (if \<not> ar_ok r then Inl (Exn ''ValueError'' ''executed() is success-only; use failed()'')
      else Inr (record_event env rs EXECUTED (ar_id r) (Some (ar_tool r)) ''system''
        (merge_detail [(''ok'', PBool (ar_ok r)), (''error'', opt_str (ar_error r))] extra)))"

definition failed ::
  "audit_env \<Rightarrow> audit_log \<Rightarrow> action_result \<Rightarrow> audit_tool_context option \<Rightarrow> audit_log" where
  "failed env rs r extra =
     record_event env rs FAILED (ar_id r) (Some (ar_tool r)) ''system''
       (merge_detail [(''ok'', PBool (ar_ok r)), (''error'', opt_str (ar_error r))] extra)"

definition replay_skipped ::
  "audit_env \<Rightarrow> audit_log \<Rightarrow> proposed_action \<Rightarrow> string \<Rightarrow> audit_tool_context option \<Rightarrow> audit_log" where
  "replay_skipped env rs a reason extra =
     record_event env rs REPLAY_SKIPPED (pa_id a) (Some (pa_tool a)) ''system''
       (merge_detail [(''reason'', PStr reason)] extra)"

definition skipped ::
  "audit_env \<Rightarrow> audit_log \<Rightarrow> proposed_action \<Rightarrow> string \<Rightarrow> audit_tool_context option \<Rightarrow> audit_log" where
  "skipped env rs a reason extra =
     record_event env rs SKIPPED (pa_id a) (Some (pa_tool a)) ''system''
       (merge_detail [(''reason'', PStr reason)] extra)"

definition ingested :: "audit_env \<Rightarrow> audit_log \<Rightarrow> string \<Rightarrow> string \<Rightarrow> nat \<Rightarrow> string
    \<Rightarrow> nat option \<Rightarrow> nat option \<Rightarrow> audit_log" where
  "ingested env rs source_id scope entity_count actor extracted relations =
     record_event env rs INGESTED source_id None actor
       ([(''scope'', PStr scope), (''entity_count'', PInt (int entity_count))]
        @ (case extracted of None \<Rightarrow> [] | Some n \<Rightarrow> [(''extracted_entity_count'', PInt (int n))])
        @ (case relations of None \<Rightarrow> [] | Some n \<Rightarrow> [(''relation_count'', PInt (int n))]))"

definition denied :: "audit_env \<Rightarrow> audit_log \<Rightarrow> proposed_action \<Rightarrow> string \<Rightarrow> string
    \<Rightarrow> audit_tool_context option \<Rightarrow> audit_log" where
  "denied env rs a principal_id reason extra =
     record_event env rs DENIED (pa_id a) (Some (pa_tool a)) principal_id
       (merge_detail [(''reason'', PStr reason)] extra)"

section \<open>The Postgres log\<close>

record audit_row =
  row_seq :: int
  row_event_id :: string
  row_ts :: int
  row_event_type :: string
  row_action_id :: string
  row_tool :: "string option"
  row_actor :: string
  row_detail :: pyval
  row_prev_hash :: string
  row_event_hash :: string

record pg_env =
  session_tz :: "int \<Rightarrow> int"
  jsonb :: "pyval \<Rightarrow> pyval"
  jsonb_text :: "pyval \<Rightarrow> string option"
  cast_bool :: "string \<Rightarrow> bool option"

text \<open>A timestamptz column holds the instant; reading it gives the zone of the session. The enum
  lookup raises \<open>ValueError\<close>, and pydantic refuses a detail that is not an object.\<close>

definition row_to_record :: "pg_env \<Rightarrow> audit_row \<Rightarrow> chained_record result" where
  "row_to_record db row =
     (case event_type_of_value (row_event_type row) of
        None \<Rightarrow> Inl (Exn ''ValueError'' (repr_str (row_event_type row) @ '' is not a valid AuditEventType''))
      | Some ty \<Rightarrow>
          (case row_detail row of
             PDict d \<Rightarrow>
               Inr \<lparr>cr_seq = row_seq row,
                    cr_event = \<lparr>ev_id = row_event_id row,
                       ev_timestamp = astimezone_utc
                         \<lparr>instant = row_ts row, utc_offset = session_tz db (row_ts row)\<rparr>,
                       ev_type = ty, ev_action = row_action_id row, ev_tool = row_tool row,
                       ev_actor = row_actor row, ev_detail = d\<rparr>,
                    cr_prev_hash = row_prev_hash row,
                    cr_event_hash = row_event_hash row\<rparr>
           | _ \<Rightarrow> Inl (Exn ''ValidationError'' ''detail'')))"

fun rows_to_records :: "pg_env \<Rightarrow> audit_row list \<Rightarrow> chained_record list result" where
  "rows_to_records db [] = Inr []"
| "rows_to_records db (row # rows) =
     result_bind (row_to_record db row) (\<lambda>r.
       result_bind (rows_to_records db rows) (\<lambda>rs. Inr (r # rs)))"

definition record_to_row :: "pg_env \<Rightarrow> chained_record \<Rightarrow> audit_row" where
  "record_to_row db r = (let e = cr_event r in
     \<lparr>row_seq = cr_seq r, row_event_id = ev_id e, row_ts = instant (ev_timestamp e),
      row_event_type = event_type_value (ev_type e), row_action_id = ev_action e,
      row_tool = ev_tool e, row_actor = ev_actor e, row_detail = jsonb db (PDict (ev_detail e)),
      row_prev_hash = cr_prev_hash r, row_event_hash = cr_event_hash r\<rparr>)"

definition pg_load :: "pg_env \<Rightarrow> audit_row list \<Rightarrow> chained_record list result" where
  "pg_load db t = rows_to_records db (sort_key row_seq t)"

definition pg_tail :: "pg_env \<Rightarrow> audit_row list \<Rightarrow> chained_record option result" where
  "pg_tail db t =
     (if t = [] then Inr None
      else result_bind (row_to_record db (last (sort_key row_seq t))) (\<lambda>r. Inr (Some r)))"

text \<open>One transaction under the advisory lock: read the tail, link, insert. The primary key on
  \<open>seq\<close> refuses a duplicate.\<close>

definition pg_append_event ::
  "audit_env \<Rightarrow> pg_env \<Rightarrow> audit_row list \<Rightarrow> audit_event \<Rightarrow> audit_row list result" where
  "pg_append_event env db t e =
     result_bind (pg_tail db t) (\<lambda>tail.
       let r = link env tail e
       in if cr_seq r \<in> set (map row_seq t)
          then Inl (Exn ''UniqueViolation'' ''atlas_audit_log_pkey'')
          else Inr (t @ [record_to_row db r]))"

text \<open>\<open>_HAS_EXECUTED\<close>: \<open>coalesce((detail->>'ok')::boolean, true) = true\<close>; text that is no boolean
  makes the query fail.\<close>

definition row_ok_flag :: "pg_env \<Rightarrow> audit_row \<Rightarrow> bool option" where
  "row_ok_flag db row =
     (case row_detail row of
        PDict d \<Rightarrow>
          (case dict_get d ''ok'' of
             None \<Rightarrow> Some True
           | Some v \<Rightarrow>
               (case jsonb_text db v of None \<Rightarrow> Some True | Some txt \<Rightarrow> cast_bool db txt))
      | _ \<Rightarrow> Some True)"

definition pg_has_executed :: "pg_env \<Rightarrow> audit_row list \<Rightarrow> string \<Rightarrow> bool result" where
  "pg_has_executed db t action_id =
     (let hits = filter (\<lambda>row. row_event_type row = event_type_value EXECUTED
                         \<and> row_action_id row = action_id) t
      in if None \<in> set (map (row_ok_flag db) hits)
         then Inl (Exn ''InvalidTextRepresentation'' ''boolean'')
         else Inr (Some True \<in> set (map (row_ok_flag db) hits)))"

section \<open>What the hash covers\<close>

lemma event_type_of_value_value [simp]: "event_type_of_value (event_type_value ty) = Some ty"
  by (cases ty) (simp_all add: event_type_of_value_def)

lemma event_type_value_inject [simp]: "event_type_value s = event_type_value t \<longleftrightarrow> s = t"
  by (metis event_type_of_value_value option.inject)

lemma canon_opt_str [simp]: "canon (opt_str s) = opt_str s"
  by (simp add: opt_str_def split: option.splits)

lemma opt_str_inject [simp]: "opt_str s = opt_str t \<longleftrightarrow> s = t"
  by (simp add: opt_str_def split: option.splits)

lemma canon_PDict_mem:
  assumes "canon (PDict d) = canon (PDict d')" "(k, v) \<in> set (canon_items d)"
  shows "(k, v) \<in> set (canon_items d')"
  using assms by (metis canon.simps(6) pyval.inject(5) set_sort)

text \<open>Two events are the same for the chain: equal fields, the timestamp as rendered, the detail as
  a dictionary (Python's \<open>==\<close> ignores the order of keys, and so does the canonical form).\<close>

definition same_event :: "audit_env \<Rightarrow> audit_event \<Rightarrow> audit_event \<Rightarrow> bool" where
  "same_event env e e' \<longleftrightarrow>
     ev_id e = ev_id e' \<and> iso env (ev_timestamp e) = iso env (ev_timestamp e') \<and>
     ev_type e = ev_type e' \<and> ev_action e = ev_action e' \<and> ev_tool e = ev_tool e' \<and>
     ev_actor e = ev_actor e' \<and> canon (PDict (ev_detail e)) = canon (PDict (ev_detail e'))"

lemma same_event_refl [simp]: "same_event env e e"
  by (simp add: same_event_def)

lemma canon_payload_same:
  assumes "canon (event_payload env e) = canon (event_payload env e')"
  shows "same_event env e e'"
proof -
  note m = canon_PDict_mem [OF assms [unfolded event_payload_def]]
  show ?thesis
    unfolding same_event_def
    using m [of "''event_id''" "PStr (ev_id e)"]
      m [of "''timestamp''" "PStr (iso env (ev_timestamp e))"]
      m [of "''event_type''" "PStr (event_type_value (ev_type e))"]
      m [of "''action_id''" "PStr (ev_action e)"]
      m [of "''tool''" "opt_str (ev_tool e)"]
      m [of "''actor''" "PStr (ev_actor e)"]
      m [of "''detail''" "canon (PDict (ev_detail e))"]
    by simp
qed

lemma canonical_event_bytes_iff:
  "canonical_event_bytes env e = canonical_event_bytes env e' \<longleftrightarrow> same_event env e e'"
proof
  assume "same_event env e e'"
  then have "canon_items (case event_payload env e of PDict d \<Rightarrow> d | _ \<Rightarrow> []) =
      canon_items (case event_payload env e' of PDict d \<Rightarrow> d | _ \<Rightarrow> [])"
    by (simp add: same_event_def event_payload_def)
  then have "canon (event_payload env e) = canon (event_payload env e')"
    by (simp add: event_payload_def)
  then show "canonical_event_bytes env e = canonical_event_bytes env e'"
    by (simp add: canonical_event_bytes_def json_bytes_inject)
qed (auto simp: canonical_event_bytes_def json_bytes_inject intro: canon_payload_same)

lemma hash_input_same_event: "same_event env e e' \<Longrightarrow> hash_input env prev e = hash_input env prev e'"
  by (simp add: hash_input_def canonical_event_bytes_iff)

lemma compute_hash_same_event:
  "same_event env e e' \<Longrightarrow> compute_event_hash env prev e = compute_event_hash env prev e'"
  by (simp add: compute_event_hash_def hash_input_same_event)

section \<open>Verified chains\<close>

definition link_ok :: "audit_env \<Rightarrow> nat \<Rightarrow> string \<Rightarrow> chained_record \<Rightarrow> bool" where
  "link_ok env index prev r \<longleftrightarrow>
     cr_seq r = int index \<and> cr_prev_hash r = prev \<and>
     cr_event_hash r = compute_event_hash env prev (cr_event r)"

definition prev_of :: "chained_record list \<Rightarrow> nat \<Rightarrow> string" where
  "prev_of rs i = (if i = 0 then GENESIS_HASH else cr_event_hash (rs ! (i - 1)))"

definition chain_ok :: "audit_env \<Rightarrow> chained_record list \<Rightarrow> bool" where
  "chain_ok env rs \<longleftrightarrow> (\<forall>i < length rs. link_ok env i (prev_of rs i) (rs ! i))"

lemma verify_loop_ok:
  "cv_ok (verify_loop env n p rs) \<longleftrightarrow>
   (\<forall>i < length rs. link_ok env (n + i) (if i = 0 then p else cr_event_hash (rs ! (i - 1))) (rs ! i))"
proof (induction rs arbitrary: n p)
  case (Cons r rs)
  have "(if Suc i = 0 then p else cr_event_hash ((r # rs) ! (Suc i - 1)))
      = (if i = 0 then cr_event_hash r else cr_event_hash (rs ! (i - 1)))" for i
    by (simp add: nth_Cons')
  then show ?case
    using Cons.IH [of "Suc n" "cr_event_hash r"] by (auto simp: All_less_Suc2 link_ok_def)
qed simp

lemma verify_chain_ok: "cv_ok (verify_chain env rs) \<longleftrightarrow> chain_ok env rs"
  by (simp add: verify_chain_def verify_loop_ok chain_ok_def prev_of_def)

lemma verify_loop_broken:
  "\<not> cv_ok (verify_loop env n p rs) \<Longrightarrow>
   \<exists>i < length rs. cv_broken_at (verify_loop env n p rs) = Some (cr_seq (rs ! i))
     \<and> cv_ok (verify_loop env n p (take i rs))
     \<and> \<not> link_ok env (n + i) (if i = 0 then p else cr_event_hash (rs ! (i - 1))) (rs ! i)"
proof (induction rs arbitrary: n p)
  case (Cons r rs)
  show ?case
  proof (cases "link_ok env n p r")
    case True
    with Cons.prems have "\<not> cv_ok (verify_loop env (Suc n) (cr_event_hash r) rs)"
      by (auto simp: link_ok_def)
    then obtain i where i: "i < length rs"
        "cv_broken_at (verify_loop env (Suc n) (cr_event_hash r) rs) = Some (cr_seq (rs ! i))"
        "cv_ok (verify_loop env (Suc n) (cr_event_hash r) (take i rs))"
        "\<not> link_ok env (Suc n + i) (if i = 0 then cr_event_hash r else cr_event_hash (rs ! (i - 1))) (rs ! i)"
      using Cons.IH by blast
    then show ?thesis
      using True by (intro exI [of _ "Suc i"]) (auto simp: link_ok_def nth_Cons')
  next
    case False
    then show ?thesis by (auto simp: link_ok_def intro!: exI [of _ 0])
  qed
qed simp

lemma prev_of_append [simp]: "i \<le> length rs \<Longrightarrow> prev_of (rs @ ss) i = prev_of rs i"
  by (auto simp: prev_of_def nth_append)

lemma prev_of_length: "prev_of rs (length rs) = (if rs = [] then GENESIS_HASH else cr_event_hash (last rs))"
  by (simp add: prev_of_def last_conv_nth)

lemma chain_ok_Nil [simp]: "chain_ok env []"
  by (simp add: chain_ok_def)

lemma chain_ok_snoc:
  "chain_ok env (rs @ [r]) \<longleftrightarrow> chain_ok env rs \<and> link_ok env (length rs) (prev_of rs (length rs)) r"
  by (auto simp: chain_ok_def nth_append less_Suc_eq)

lemma chain_ok_prefix: "chain_ok env (rs @ ss) \<Longrightarrow> chain_ok env rs"
  by (auto simp: chain_ok_def nth_append split: if_splits)

lemma chain_ok_seq: "chain_ok env rs \<Longrightarrow> i < length rs \<Longrightarrow> cr_seq (rs ! i) = int i"
  by (simp add: chain_ok_def link_ok_def)

lemma tail_of_snoc [simp]: "tail_of (rs @ [r]) = Some r" "tail_of [] = None"
  by (simp_all add: tail_of_def)

lemma link_ok_link:
  assumes "chain_ok env rs"
  shows "link_ok env (length rs) (prev_of rs (length rs)) (link env (tail_of rs) e)"
proof (cases rs rule: rev_cases)
  case (snoc ys y)
  with chain_ok_seq [OF assms, of "length ys"] show ?thesis
    by (simp add: link_ok_def link_def Let_def prev_of_def)
qed (simp add: link_ok_def link_def Let_def prev_of_def)

lemma chain_ok_append [simp]: "chain_ok env rs \<Longrightarrow> chain_ok env (mem_append_event env rs e)"
  by (simp add: mem_append_event_def chain_ok_snoc link_ok_link)

lemma events_append [simp]: "events (mem_append_event env rs e) = events rs @ [e]"
  by (simp add: events_def mem_append_event_def link_def Let_def)

lemma length_append [simp]: "length (mem_append_event env rs e) = Suc (length rs)"
  by (simp add: mem_append_event_def)

lemma record_event_simps [simp]:
  "chain_ok env rs \<Longrightarrow> chain_ok env (record_event env rs ty a tool_name actor d)"
  "length (record_event env rs ty a tool_name actor d) = Suc (length rs)"
  by (simp_all add: record_event_def split: prod.splits)

text \<open>The event that a recorder appends, and the log it leaves.\<close>

definition new_event :: "audit_env \<Rightarrow> audit_log \<Rightarrow> audit_event_type \<Rightarrow> string \<Rightarrow> string option
    \<Rightarrow> string \<Rightarrow> pydict \<Rightarrow> audit_event" where
  "new_event env rs ty action tool_name actor detail =
     \<lparr>ev_id = fst (stamps env (length rs)),
      ev_timestamp = \<lparr>instant = snd (stamps env (length rs)), utc_offset = 0\<rparr>, ev_type = ty,
      ev_action = action, ev_tool = tool_name, ev_actor = actor, ev_detail = detail\<rparr>"

lemma new_event_sel [simp]:
  "ev_type (new_event env rs ty a tool_name actor d) = ty"
  "ev_action (new_event env rs ty a tool_name actor d) = a"
  "ev_tool (new_event env rs ty a tool_name actor d) = tool_name"
  "ev_actor (new_event env rs ty a tool_name actor d) = actor"
  "ev_detail (new_event env rs ty a tool_name actor d) = d"
  by (simp_all add: new_event_def)

lemma record_event_append:
  "record_event env rs ty a tool_name actor d
   = mem_append_event env rs (new_event env rs ty a tool_name actor d)"
  by (simp add: record_event_def new_event_def split: prod.splits)

lemma events_record_event [simp]:
  "events (record_event env rs ty a tool_name actor d)
   = events rs @ [new_event env rs ty a tool_name actor d]"
  by (simp add: record_event_append)

lemma merge_detail_get [simp]:
  "dict_ok base \<Longrightarrow> dict_get base k = Some v \<Longrightarrow> dict_get (merge_detail base extra) k = Some v"
  by (simp add: merge_detail_def dict_get_merge split: option.splits)

lemma counts_as_executed_iff:
  "counts_as_executed e \<longleftrightarrow>
   ev_type e = EXECUTED \<and> dict_get (ev_detail e) ''ok'' \<in> {None, Some (PBool True)}"
  by (auto simp: counts_as_executed_def split: option.splits)

lemma has_executed_iff:
  "has_executed rs a \<longleftrightarrow> (\<exists>e \<in> set (events rs). counts_as_executed e \<and> ev_action e = a)"
  by (simp add: has_executed_def list_ex_iff)

lemma has_executed_Nil [simp]: "\<not> has_executed [] a"
  by (simp add: has_executed_def events_def)

lemma has_executed_append [simp]:
  "has_executed (mem_append_event env rs e) a \<longleftrightarrow>
   has_executed rs a \<or> (counts_as_executed e \<and> ev_action e = a)"
  by (auto simp: has_executed_iff)

section \<open>Tampering\<close>

lemma verify_edit:
  assumes ok: "chain_ok env rs" and i: "i < length rs"
    and ok': "chain_ok env (rs[i := (rs ! i)\<lparr>cr_event := e\<rparr>])"
  shows "compute_event_hash env (cr_prev_hash (rs ! i)) e = cr_event_hash (rs ! i)"
    "compute_event_hash env (cr_prev_hash (rs ! i)) (cr_event (rs ! i)) = cr_event_hash (rs ! i)"
proof -
  show "compute_event_hash env (cr_prev_hash (rs ! i)) (cr_event (rs ! i)) = cr_event_hash (rs ! i)"
    using ok i by (simp add: chain_ok_def link_ok_def)
  have "link_ok env i (prev_of (rs[i := (rs ! i)\<lparr>cr_event := e\<rparr>]) i) ((rs ! i)\<lparr>cr_event := e\<rparr>)"
    using ok' i unfolding chain_ok_def by (metis length_list_update nth_list_update_eq)
  then show "compute_event_hash env (cr_prev_hash (rs ! i)) e = cr_event_hash (rs ! i)"
    by (simp add: link_ok_def)
qed

lemma hash_input_inject:
  "hash_input env prev e = hash_input env prev e' \<longleftrightarrow> same_event env e e'"
  by (simp add: hash_input_def canonical_event_bytes_iff)

lemma chain_ok_seqs: "chain_ok env rs \<Longrightarrow> map cr_seq rs = map int [0..<length rs]"
  by (rule nth_equalityI) (simp_all add: chain_ok_seq)

text \<open>A digest is 64 ASCII characters (the hex digest of SHA-256).\<close>

definition hex_digest :: "audit_env \<Rightarrow> bool" where
  "hex_digest env \<longleftrightarrow> (\<forall>x. length (sha256 env x) = 64 \<and> (\<forall>c \<in> set (sha256 env x). cp c < 128))"

lemma utf8_ascii: "\<forall>c \<in> set s. cp c < 128 \<Longrightarrow> utf8 s = s"
  by (induction s) (auto simp: utf8_def utf8_char_def Let_def)

definition hash_width :: "string \<Rightarrow> bool" where
  "hash_width h \<longleftrightarrow> length h = 64 \<and> (\<forall>c \<in> set h. cp c < 128)"

lemma chain_hash_width:
  assumes "hex_digest env" "chain_ok env rs" "i < length rs"
  shows "hash_width (cr_prev_hash (rs ! i))" "hash_width (cr_event_hash (rs ! i))"
proof -
  have h: "hash_width (cr_event_hash (rs ! j))" if "j < length rs" for j
    using assms that
    by (simp add: chain_ok_def link_ok_def hash_width_def hex_digest_def compute_event_hash_def)
  have g: "hash_width GENESIS_HASH" by (simp add: hash_width_def GENESIS_HASH_def)
  from assms have "cr_prev_hash (rs ! i) = prev_of rs i" by (simp add: chain_ok_def link_ok_def)
  with h g assms(3) show "hash_width (cr_prev_hash (rs ! i))" by (auto simp: prev_of_def)
  from h assms(3) show "hash_width (cr_event_hash (rs ! i))" .
qed

lemma hash_input_split:
  assumes "hash_width p" "hash_width q" "hash_input env p e = hash_input env q e'"
  shows "p = q \<and> same_event env e e'"
  using assms by (simp add: hash_input_def hash_width_def utf8_ascii canonical_event_bytes_iff)

definition rec_input :: "audit_env \<Rightarrow> chained_record \<Rightarrow> string" where
  "rec_input env r = hash_input env (cr_prev_hash r) (cr_event r)"

definition hash_inputs :: "audit_env \<Rightarrow> chained_record list \<Rightarrow> string set" where
  "hash_inputs env rs = rec_input env ` set rs"

definition same_record :: "audit_env \<Rightarrow> chained_record \<Rightarrow> chained_record \<Rightarrow> bool" where
  "same_record env r s \<longleftrightarrow>
     cr_seq r = cr_seq s \<and> cr_prev_hash r = cr_prev_hash s \<and> cr_event_hash r = cr_event_hash s \<and>
     same_event env (cr_event r) (cr_event s)"

text \<open>The two ways to forge a chain with a given final digest.\<close>

definition forged :: "audit_env \<Rightarrow> chained_record list \<Rightarrow> chained_record list \<Rightarrow> bool" where
  "forged env rs ss \<longleftrightarrow>
     (\<exists>x \<in> hash_inputs env rs. \<exists>y \<in> hash_inputs env ss. x \<noteq> y \<and> sha256 env x = sha256 env y) \<or>
     (\<exists>x \<in> hash_inputs env rs \<union> hash_inputs env ss. sha256 env x = GENESIS_HASH)"

lemma forged_mono:
  "forged env rs ss \<Longrightarrow> set rs \<subseteq> set rs' \<Longrightarrow> set ss \<subseteq> set ss' \<Longrightarrow> forged env rs' ss'"
  unfolding forged_def hash_inputs_def by blast

lemma chain_rec_hash:
  "chain_ok env rs \<Longrightarrow> r \<in> set rs \<Longrightarrow> cr_event_hash r = sha256 env (rec_input env r)"
  by (auto simp: chain_ok_def link_ok_def in_set_conv_nth rec_input_def compute_event_hash_def)

lemma chain_snoc_prev:
  "chain_ok env (rs @ [r]) \<Longrightarrow>
   cr_prev_hash r = (if rs = [] then GENESIS_HASH else cr_event_hash (last rs))"
  by (simp add: chain_ok_snoc link_ok_def prev_of_length)

lemma anchored_chain_unique:
  assumes "hex_digest env"
  shows "chain_ok env rs \<Longrightarrow> chain_ok env ss \<Longrightarrow> rs \<noteq> [] \<Longrightarrow> ss \<noteq> [] \<Longrightarrow>
    cr_event_hash (last rs) = cr_event_hash (last ss) \<Longrightarrow>
    list_all2 (same_record env) rs ss \<or> forged env rs ss"
proof (induction rs arbitrary: ss rule: rev_induct)
  case (snoc r rs)
  from snoc.prems(4) obtain s ss' where ss: "ss = ss' @ [s]" by (cases ss rule: rev_cases) auto
  note ok = snoc.prems(1) and ok' = snoc.prems(2) [unfolded ss]
  have hr: "cr_event_hash r = sha256 env (rec_input env r)" using chain_rec_hash [OF ok] by simp
  have hs: "cr_event_hash s = sha256 env (rec_input env s)" using chain_rec_hash [OF ok'] by simp
  show ?case
  proof (cases "forged env (rs @ [r]) ss")
    case False
    have "rec_input env r = rec_input env s"
      using False hr hs snoc.prems(5) unfolding forged_def hash_inputs_def ss by auto
    moreover have "hash_width (cr_prev_hash r)" "hash_width (cr_prev_hash s)"
      using chain_hash_width [OF assms ok, of "length rs"] chain_hash_width [OF assms ok', of "length ss'"]
      by simp_all
    ultimately have p: "cr_prev_hash r = cr_prev_hash s" "same_event env (cr_event r) (cr_event s)"
      using hash_input_split by (auto simp: rec_input_def)
    have ng: "cr_event_hash x \<noteq> GENESIS_HASH" if "x \<in> set rs \<union> set ss'" for x
      using False that chain_rec_hash [OF ok] chain_rec_hash [OF ok']
      unfolding forged_def hash_inputs_def ss by auto
    note pr = chain_snoc_prev [OF ok] and ps = chain_snoc_prev [OF ok']
    from p(1) pr ps ng have e: "rs = [] \<longleftrightarrow> ss' = []" by (auto split: if_splits) (metis last_in_set UnI1 UnI2)+
    have "list_all2 (same_record env) rs ss'"
    proof (cases "rs = []")
      case ne: False
      with e p(1) pr ps have "cr_event_hash (last rs) = cr_event_hash (last ss')" by simp
      moreover have "\<not> forged env rs ss'" using False forged_mono [of env rs ss' "rs @ [r]" ss] ss by auto
      ultimately show ?thesis
        using snoc.IH [of ss'] ok ok' ne e by (auto simp: chain_ok_snoc)
    qed (use e in simp)
    moreover from this have sq: "cr_seq r = cr_seq s"
      using ok ok' by (auto simp: chain_ok_snoc link_ok_def dest: list_all2_lengthD)
    moreover from sq p snoc.prems(5) ss have "same_record env r s" by (simp add: same_record_def)
    ultimately show ?thesis using ss by (simp add: list_all2_appendI)
  qed simp
qed simp

section \<open>The storage contract\<close>

definition utc_event :: "audit_event \<Rightarrow> bool" where
  "utc_event e \<longleftrightarrow> utc_offset (ev_timestamp e) = 0"

lemma list_all2_same_record_chain:
  assumes "list_all2 (same_record env) rs ss"
  shows "chain_ok env rs \<longleftrightarrow> chain_ok env ss"
proof -
  have s: "same_record env (rs ! i) (ss ! i)" if "i < length rs" for i
    using assms that by (simp add: list_all2_nthD)
  have l: "length rs = length ss" using assms by (rule list_all2_lengthD)
  have "prev_of rs i = prev_of ss i" if "i < length rs" for i
    using s [of "i - 1"] that by (auto simp: prev_of_def same_record_def)
  moreover have "link_ok env i p (rs ! i) \<longleftrightarrow> link_ok env i p (ss ! i)" if "i < length rs" for i p
    using s [OF that] compute_hash_same_event by (auto simp: link_ok_def same_record_def)
  ultimately show ?thesis using l by (simp add: chain_ok_def)
qed

lemma same_record_events:
  "list_all2 (same_record env) rs ss \<Longrightarrow> list_all2 (same_event env) (events rs) (events ss)"
  unfolding events_def list_all2_map1 list_all2_map2
  by (erule list_all2_mono) (simp add: same_record_def)

lemma same_event_trans: "same_event env a b \<Longrightarrow> same_event env b c \<Longrightarrow> same_event env a c"
  by (simp add: same_event_def)

fun append_all :: "('s \<Rightarrow> audit_event \<Rightarrow> 's result) \<Rightarrow> 's \<Rightarrow> audit_event list \<Rightarrow> 's result" where
  "append_all app s [] = Inr s"
| "append_all app s (e # es) = result_bind (app s e) (\<lambda>s'. append_all app s' es)"

locale chain_store =
  fixes env :: audit_env
    and append :: "'s \<Rightarrow> audit_event \<Rightarrow> 's result"
    and load :: "'s \<Rightarrow> chained_record list result"
    and ok :: "'s \<Rightarrow> bool"
  assumes load_ok: "ok s \<Longrightarrow> \<exists>rs. load s = Inr rs \<and> chain_ok env rs"
    and append_ok: "ok s \<Longrightarrow> utc_event e \<Longrightarrow> load s = Inr rs \<Longrightarrow>
      \<exists>s' rs'. append s e = Inr s' \<and> ok s' \<and> load s' = Inr rs' \<and>
        list_all2 (same_record env) rs' (mem_append_event env rs e)"
begin

lemma append_step:
  assumes "ok s" "utc_event e" "load s = Inr rs"
  obtains s' rs' where "append s e = Inr s'" "ok s'" "load s' = Inr rs'" "chain_ok env rs'"
    "list_all2 (same_event env) (events rs') (events rs @ [e])"
proof -
  from append_ok [OF assms] obtain s' rs' where
    a: "append s e = Inr s'" "ok s'" "load s' = Inr rs'"
      "list_all2 (same_record env) rs' (mem_append_event env rs e)" by blast
  from load_ok [OF assms(1)] assms(3) have "chain_ok env rs" by simp
  with a(4) have "chain_ok env rs'" using list_all2_same_record_chain chain_ok_append by blast
  moreover from same_record_events [OF a(4)]
  have "list_all2 (same_event env) (events rs') (events rs @ [e])" by simp
  ultimately show thesis using a that by blast
qed

lemma append_all_ok:
  "ok s \<Longrightarrow> load s = Inr rs \<Longrightarrow> \<forall>e \<in> set es. utc_event e \<Longrightarrow>
   \<exists>s' rs'. append_all append s es = Inr s' \<and> ok s' \<and> load s' = Inr rs' \<and> chain_ok env rs' \<and>
     list_all2 (same_event env) (events rs') (events rs @ es)"
proof (induction es arbitrary: s rs)
  case Nil
  with load_ok [of s] show ?case by (auto simp: list_all2_refl)
next
  case (Cons e es)
  obtain s1 rs1 where s1: "append s e = Inr s1" "ok s1" "load s1 = Inr rs1"
      "list_all2 (same_event env) (events rs1) (events rs @ [e])"
    by (rule append_step [OF Cons.prems(1) _ Cons.prems(2), of e]) (use Cons.prems(3) in auto)
  from Cons.IH [OF s1(2,3)] Cons.prems(3) obtain s' rs' where
    s': "append_all append s1 es = Inr s'" "ok s'" "load s' = Inr rs'" "chain_ok env rs'"
      "list_all2 (same_event env) (events rs') (events rs1 @ es)" by auto
  have "list_all2 (same_event env) (events rs1 @ es) ((events rs @ [e]) @ es)"
    using s1(4) by (intro list_all2_appendI) (simp_all add: list_all2_refl)
  with s'(5) have "list_all2 (same_event env) (events rs') ((events rs @ [e]) @ es)"
    by (rule list_all2_trans [rotated]) (rule same_event_trans)
  with s1 s' show ?case by auto
qed

end

definition mem_load :: "audit_log \<Rightarrow> chained_record list result" where
  "mem_load rs = Inr rs"

lemma same_record_refl [simp]: "same_record env r r"
  by (simp add: same_record_def)

interpretation mem_audit: chain_store env "\<lambda>rs e. Inr (mem_append_event env rs e)" mem_load "chain_ok env"
  for env
  by unfold_locales (auto simp: mem_load_def list_all2_refl)

section \<open>The Postgres log keeps the contract\<close>

text \<open>What the code relies on of \<open>jsonb\<close>: a stored value reads back equal, up to key order.\<close>

definition jsonb_faithful :: "pg_env \<Rightarrow> bool" where
  "jsonb_faithful db \<longleftrightarrow> (\<forall>v. canon (jsonb db v) = canon v)"

lemma canon_eq_PDict: "canon v = canon (PDict d) \<Longrightarrow> \<exists>d'. v = PDict d'"
  by (cases v) auto

lemma jsonb_PDict:
  assumes "jsonb_faithful db"
  obtains d' where "jsonb db (PDict d) = PDict d'" "canon (PDict d') = canon (PDict d)"
  using assms canon_eq_PDict unfolding jsonb_faithful_def by metis

lemma datetime_utc: "utc_offset d = 0 \<Longrightarrow> \<lparr>instant = instant d, utc_offset = 0\<rparr> = d"
  by (cases d) simp

lemma row_roundtrip:
  assumes "jsonb_faithful db" "utc_event (cr_event r)"
  shows "\<exists>r'. row_to_record db (record_to_row db r) = Inr r' \<and> same_record env r' r \<and> utc_event (cr_event r')"
proof -
  obtain d' where "jsonb db (PDict (ev_detail (cr_event r))) = PDict d'"
    "canon (PDict d') = canon (PDict (ev_detail (cr_event r)))"
    using jsonb_PDict [OF assms(1)] by blast
  then show ?thesis
    using assms(2)
    by (auto simp: datetime_utc row_to_record_def record_to_row_def Let_def same_record_def same_event_def
        utc_event_def astimezone_utc_def)
qed

definition pg_log_ok :: "audit_env \<Rightarrow> pg_env \<Rightarrow> audit_row list \<Rightarrow> bool" where
  "pg_log_ok env db t \<longleftrightarrow> jsonb_faithful db \<and> (\<exists>rs. rows_to_records db t = Inr rs \<and> chain_ok env rs)"

lemma rows_to_records_append:
  "rows_to_records db (t @ [row]) =
   result_bind (rows_to_records db t) (\<lambda>rs. result_bind (row_to_record db row) (\<lambda>r. Inr (rs @ [r])))"
proof (induction t)
  case Nil
  then show ?case by (cases "row_to_record db row") simp_all
next
  case (Cons a t)
  then show ?case
    by (cases "row_to_record db a"; cases "rows_to_records db t"; cases "row_to_record db row") simp_all
qed

lemma rows_seq: "rows_to_records db t = Inr rs \<Longrightarrow> map row_seq t = map cr_seq rs"
  by (induction t arbitrary: rs)
    (auto simp: result_bind_Inr_iff row_to_record_def split: option.splits pyval.splits)

lemma pg_log_sorted:
  assumes "rows_to_records db t = Inr rs" "chain_ok env rs"
  shows "sort_key row_seq t = t"
proof -
  have "map row_seq t = map int [0..<length rs]"
    using rows_seq [OF assms(1)] chain_ok_seqs [OF assms(2)] by simp
  moreover have "sorted (map int [0..<n])" for n by (induction n) (auto simp: sorted_append)
  ultimately have "sorted (map row_seq t)" by simp
  then show ?thesis by (rule sort_key_id_if_sorted)
qed

lemma pg_tail_records:
  assumes "rows_to_records db t = Inr rs" "chain_ok env rs"
  shows "pg_tail db t = Inr (tail_of rs)"
proof (cases t rule: rev_cases)
  case Nil
  with assms show ?thesis by (simp add: pg_tail_def tail_of_def)
next
  case (snoc t' row)
  with assms(1) obtain rs' r where "row_to_record db row = Inr r" "rs = rs' @ [r]"
    by (auto simp: rows_to_records_append result_bind_Inr_iff)
  with snoc pg_log_sorted [OF assms] show ?thesis by (simp add: pg_tail_def)
qed

lemma pg_append_records:
  assumes ok: "pg_log_ok env db t" and e: "utc_event e" and rs: "pg_load db t = Inr rs"
  shows "\<exists>t' rs'. pg_append_event env db t e = Inr t' \<and> pg_log_ok env db t' \<and> pg_load db t' = Inr rs' \<and>
    list_all2 (same_record env) rs' (mem_append_event env rs e)"
proof -
  from ok obtain rs0 where r0: "rows_to_records db t = Inr rs0" "chain_ok env rs0"
    and j: "jsonb_faithful db" by (auto simp: pg_log_ok_def)
  with rs have [simp]: "rs0 = rs" by (simp add: pg_load_def pg_log_sorted)
  let ?l = "link env (tail_of rs) e"
  obtain r' where r': "row_to_record db (record_to_row db ?l) = Inr r'" "same_record env r' ?l"
    using row_roundtrip [OF j, of ?l] e by (auto simp: link_def Let_def)
  have "cr_seq ?l = int (length rs)" using link_ok_link r0(2) by (simp add: link_ok_def)
  then have "cr_seq ?l \<notin> set (map row_seq t)"
    using rows_seq [OF r0(1)] chain_ok_seqs [OF r0(2)] by auto
  then have a: "pg_append_event env db t e = Inr (t @ [record_to_row db ?l])"
    using pg_tail_records [OF r0] by (simp add: pg_append_event_def Let_def)
  have l: "rows_to_records db (t @ [record_to_row db ?l]) = Inr (rs @ [r'])"
    using r0 r' by (simp add: rows_to_records_append)
  have s: "list_all2 (same_record env) (rs @ [r']) (mem_append_event env rs e)"
    using r' by (auto simp: mem_append_event_def intro!: list_all2_appendI list_all2_refl)
  moreover have c: "chain_ok env (rs @ [r'])"
    using list_all2_same_record_chain [OF s] r0(2) by simp
  ultimately show ?thesis using a l j pg_log_sorted [OF l c] by (auto simp: pg_log_ok_def pg_load_def)
qed

interpretation pg_audit: chain_store env "pg_append_event env db" "pg_load db" "pg_log_ok env db"
  for env db
proof unfold_locales
  show "\<exists>rs. pg_load db s = Inr rs \<and> chain_ok env rs" if "pg_log_ok env db s" for s
    using that by (auto simp: pg_log_ok_def pg_load_def pg_log_sorted)
qed (rule pg_append_records)

text \<open>The rows are those of the in-memory records: a tail read back links like the original.\<close>

lemma link_same_record:
  "same_record env r s \<Longrightarrow> link env (Some r) e = link env (Some s) e"
  by (simp add: link_def same_record_def)

lemma pg_append_rows:
  assumes j: "jsonb_faithful db" and c: "chain_ok env rs"
    and u: "\<forall>e \<in> set (events rs). utc_event e"
  shows "pg_append_event env db (map (record_to_row db) rs) e
    = Inr (map (record_to_row db) (mem_append_event env rs e))"
proof -
  let ?t = "map (record_to_row db) rs"
  have seqs: "map row_seq ?t = map int [0..<length rs]"
    using chain_ok_seqs [OF c] by (simp add: record_to_row_def Let_def comp_def)
  moreover have "sorted (map int [0..<n])" for n by (induction n) (auto simp: sorted_append)
  ultimately have "sorted (map row_seq ?t)" by (simp only:)
  then have s: "sort_key row_seq ?t = ?t" by (rule sort_key_id_if_sorted)
  have "\<exists>tail. pg_tail db ?t = Inr tail \<and> link env tail e = link env (tail_of rs) e"
  proof (cases rs rule: rev_cases)
    case (snoc ys y)
    with u have "utc_event (cr_event y)" by (simp add: events_def)
    from row_roundtrip [OF j this] obtain r' where
      "row_to_record db (record_to_row db y) = Inr r'" "same_record env r' y" by blast
    then show ?thesis using s snoc link_same_record by (auto simp: pg_tail_def)
  qed (simp add: pg_tail_def)
  moreover have "cr_seq (link env (tail_of rs) e) = int (length rs)"
    using link_ok_link [OF c] by (simp add: link_ok_def)
  then have "cr_seq (link env (tail_of rs) e) \<notin> set (map row_seq ?t)" using seqs by auto
  ultimately show ?thesis by (auto simp: pg_append_event_def Let_def mem_append_event_def)
qed

definition mem_log_of :: "audit_env \<Rightarrow> audit_event list \<Rightarrow> audit_log" where
  "mem_log_of env es = foldl (mem_append_event env) [] es"

lemma foldl_append_chain:
  "chain_ok env rs \<Longrightarrow> chain_ok env (foldl (mem_append_event env) rs es)"
  by (induction es arbitrary: rs) auto

lemma foldl_append_events:
  "events (foldl (mem_append_event env) rs es) = events rs @ es"
  by (induction es arbitrary: rs) auto

lemma mem_log_of_facts [simp]:
  "chain_ok env (mem_log_of env es)" "events (mem_log_of env es) = es"
  by (simp_all add: mem_log_of_def foldl_append_chain foldl_append_events) (simp add: events_def)

lemma pg_append_all_rows:
  assumes "jsonb_faithful db"
  shows "chain_ok env rs \<Longrightarrow> \<forall>e \<in> set (events rs) \<union> set es. utc_event e \<Longrightarrow>
    append_all (pg_append_event env db) (map (record_to_row db) rs) es
    = Inr (map (record_to_row db) (foldl (mem_append_event env) rs es))"
  by (induction es arbitrary: rs) (simp_all add: pg_append_rows [OF assms])

section \<open>The idempotency query\<close>

lemma canon_items_map: "canon_items d = map (\<lambda>(k, v). (k, canon v)) d"
  by (induction d) auto

lemma canon_dict_get:
  assumes ok: "dict_ok d" and eq: "canon (PDict d) = canon (PDict d')"
  shows "map_option canon (dict_get d k) = map_option canon (dict_get d' k)"
proof -
  have m: "mset (canon_items d) = mset (canon_items d')"
    using eq by (metis canon.simps(6) mset_sort pyval.inject(5))
  have k: "map fst (canon_items x) = map fst x" for x by (simp add: canon_items_map case_prod_beta comp_def)
  have d: "distinct (map fst (canon_items d))" using ok k by (simp add: dict_ok_def dict_keys_def)
  have "mset (map fst (canon_items d)) = mset (map fst (canon_items d'))" using m by simp
  then have d': "distinct (map fst (canon_items d'))" using d by (metis mset_eq_imp_distinct_iff)
  have "set (canon_items d) = set (canon_items d')" using m by (metis set_mset_mset)
  then have "map_of (canon_items d) = map_of (canon_items d')" using map_of_inject_set [OF d d'] by simp
  then show ?thesis unfolding canon_items_map by (metis map_of_map comp_apply)
qed

definition boolean_text :: "pg_env \<Rightarrow> bool" where
  "boolean_text db \<longleftrightarrow>
     (\<forall>b. jsonb_text db (PBool b) = Some (if b then ''true'' else ''false'')) \<and>
     cast_bool db ''true'' = Some True \<and> cast_bool db ''false'' = Some False"

definition plain_ok_flag :: "audit_event \<Rightarrow> bool" where
  "plain_ok_flag e \<longleftrightarrow> dict_ok (ev_detail e) \<and>
     dict_get (ev_detail e) ''ok'' \<in> {None, Some (PBool True), Some (PBool False)}"

lemma canon_eq_PBool: "canon v = PBool b \<longleftrightarrow> v = PBool b" "PBool b = canon v \<longleftrightarrow> v = PBool b"
  by (cases v; auto)+

lemma row_ok_flag_plain:
  assumes "jsonb_faithful db" "boolean_text db" "plain_ok_flag (cr_event r)"
  shows "row_ok_flag db (record_to_row db r) =
    Some (dict_get (ev_detail (cr_event r)) ''ok'' \<in> {None, Some (PBool True)})"
proof -
  obtain d' where d': "jsonb db (PDict (ev_detail (cr_event r))) = PDict d'"
    "canon (PDict d') = canon (PDict (ev_detail (cr_event r)))"
    using jsonb_PDict [OF assms(1)] by blast
  have "map_option canon (dict_get (ev_detail (cr_event r)) ''ok'') = map_option canon (dict_get d' ''ok'')"
    using canon_dict_get assms(3) d'(2) by (metis plain_ok_flag_def)
  then have "dict_get d' ''ok'' = dict_get (ev_detail (cr_event r)) ''ok''"
    using assms(3) by (cases "dict_get d' ''ok''") (auto simp: plain_ok_flag_def canon_eq_PBool)
  with assms(2,3) d'(1) show ?thesis
    by (auto simp: row_ok_flag_def record_to_row_def Let_def boolean_text_def plain_ok_flag_def)
qed

lemma pg_has_executed_rows:
  assumes j: "jsonb_faithful db" "boolean_text db" and p: "\<forall>e \<in> set (events rs). plain_ok_flag e"
  shows "pg_has_executed db (map (record_to_row db) rs) a = Inr (has_executed rs a)"
proof -
  let ?hit = "\<lambda>r. ev_type (cr_event r) = EXECUTED \<and> ev_action (cr_event r) = a"
  have f: "filter (\<lambda>row. row_event_type row = event_type_value EXECUTED \<and> row_action_id row = a)
      (map (record_to_row db) rs) = map (record_to_row db) (filter ?hit rs)"
    by (simp add: filter_map comp_def record_to_row_def Let_def del: event_type_value.simps)
  have flag: "row_ok_flag db (record_to_row db r) =
      Some (dict_get (ev_detail (cr_event r)) ''ok'' \<in> {None, Some (PBool True)})" if "r \<in> set rs" for r
    using row_ok_flag_plain [OF j] p that by (simp add: events_def)
  have "row_ok_flag db ` record_to_row db ` set (filter ?hit rs)
      = (\<lambda>r. Some (dict_get (ev_detail (cr_event r)) ''ok'' \<in> {None, Some (PBool True)})) ` set (filter ?hit rs)"
    using flag by (force simp: image_image)
  then have "pg_has_executed db (map (record_to_row db) rs) a = Inr (Some True \<in>
      (\<lambda>r. Some (dict_get (ev_detail (cr_event r)) ''ok'' \<in> {None, Some (PBool True)})) ` set (filter ?hit rs))"
    unfolding pg_has_executed_def f Let_def set_map by auto
  also have "\<dots> = Inr (has_executed rs a)"
    by (auto simp: has_executed_iff counts_as_executed_iff events_def)
  finally show ?thesis .
qed

lemma chain_ok_occurrence:
  "chain_ok env rs \<Longrightarrow> i < length rs \<Longrightarrow> j < length ss \<Longrightarrow> ss ! j = rs ! i \<Longrightarrow> i \<noteq> j \<Longrightarrow> \<not> chain_ok env ss"
  using chain_ok_seq by (metis of_nat_eq_iff)

section \<open>Properties\<close>

text \<open>A small environment for the examples: a digest that keeps the length and the first
  character of its input.\<close>

definition demo_env :: audit_env where
  "demo_env = \<lparr>sha256 = (\<lambda>x. replicate 63 (CHR ''a'') @ [if length x mod 2 = 0 then CHR ''b'' else CHR ''c'']),
     iso = (\<lambda>d. int_str (instant d)), stamps = (\<lambda>n. (nat_str n, int n))\<rparr>"

definition demo_event :: audit_event where
  "demo_event = \<lparr>ev_id = ''e'', ev_timestamp = \<lparr>instant = 0, utc_offset = 0\<rparr>, ev_type = PROPOSED,
     ev_action = ''a1'', ev_tool = None, ev_actor = ''system'', ev_detail = [(''ok'', PBool True)]\<rparr>"

definition demo_db :: pg_env where
  "demo_db = \<lparr>session_tz = (\<lambda>_. 120), jsonb = (\<lambda>v. v),
     jsonb_text = (\<lambda>v. case v of PBool b \<Rightarrow> Some (if b then ''true'' else ''false'') | _ \<Rightarrow> None),
     cast_bool = (\<lambda>s. if s = ''true'' then Some True else if s = ''false'' then Some False else None)\<rparr>"

lemma demo_db_laws: "jsonb_faithful demo_db" "boolean_text demo_db"
  by (simp_all add: demo_db_def jsonb_faithful_def boolean_text_def)

lemma demo_env_hex: "hex_digest demo_env"
  by (auto simp: hex_digest_def demo_env_def)

text \<open>Verification is exact. A chain is accepted exactly when every record has its index as
  \<open>seq\<close>, the digest of its predecessor (the genesis constant for the first) as \<open>prev_hash\<close>, and the
  digest of that and its own event as \<open>event_hash\<close>; otherwise \<open>broken_at\<close> is the sequence number
  of the first record that fails, all records before it forming a valid chain.\<close>

theorem verify_chain_exact:
  "(cv_ok (verify_chain env rs) \<longleftrightarrow>
      (\<forall>i < length rs. cr_seq (rs ! i) = int i \<and>
         cr_prev_hash (rs ! i) = (if i = 0 then GENESIS_HASH else cr_event_hash (rs ! (i - 1))) \<and>
         cr_event_hash (rs ! i) = compute_event_hash env (cr_prev_hash (rs ! i)) (cr_event (rs ! i)))) \<and>
   (\<not> cv_ok (verify_chain env rs) \<longrightarrow>
      (\<exists>i < length rs. cv_broken_at (verify_chain env rs) = Some (cr_seq (rs ! i)) \<and>
         cv_ok (verify_chain env (take i rs)) \<and> \<not> cv_ok (verify_chain env (take (Suc i) rs))))"
proof (intro conjI impI)
  assume "\<not> cv_ok (verify_chain env rs)"
  from verify_loop_broken [OF this [unfolded verify_chain_def]] obtain i where
    i: "i < length rs" "cv_broken_at (verify_chain env rs) = Some (cr_seq (rs ! i))"
      "cv_ok (verify_chain env (take i rs))" "\<not> link_ok env i (prev_of rs i) (rs ! i)"
    unfolding verify_chain_def prev_of_def by auto
  moreover have "\<not> cv_ok (verify_chain env (take (Suc i) rs))"
    using i(1,4) prev_of_append [of i "take i rs" "drop i rs"]
    by (simp add: verify_chain_ok take_Suc_conv_app_nth chain_ok_snoc)
  ultimately show "\<exists>i < length rs. cv_broken_at (verify_chain env rs) = Some (cr_seq (rs ! i)) \<and>
      cv_ok (verify_chain env (take i rs)) \<and> \<not> cv_ok (verify_chain env (take (Suc i) rs))" by blast
qed (auto simp: verify_chain_ok chain_ok_def link_ok_def prev_of_def)

theorem verify_chain_exact_witness:
  "\<exists>i < length [(link demo_env None demo_event)\<lparr>cr_seq := 7\<rparr>].
     cv_broken_at (verify_chain demo_env [(link demo_env None demo_event)\<lparr>cr_seq := 7\<rparr>]) = Some 7"
  using verify_chain_exact [of demo_env "[(link demo_env None demo_event)\<lparr>cr_seq := 7\<rparr>]"]
  by (auto simp: link_def)

text \<open>C8: every log that is written through the interface verifies, whichever backend keeps it, and
  the Postgres log refines the in-memory one: appending UTC events to an empty table never fails, the
  rows are exactly those of the in-memory records, and reading them back, whatever the time zone of
  the session and the key order of jsonb, gives a chain that verifies and has the same records.\<close>

theorem logs_verify:
  assumes "jsonb_faithful db" "\<forall>e \<in> set es. utc_event e"
  shows "cv_ok (verify_chain env (mem_log_of env es)) \<and> events (mem_log_of env es) = es \<and>
    (\<exists>t rs. append_all (pg_append_event env db) [] es = Inr t \<and>
       t = map (record_to_row db) (mem_log_of env es) \<and> pg_load db t = Inr rs \<and>
       cv_ok (verify_chain env rs) \<and> list_all2 (same_event env) (events rs) es)"
proof -
  have init: "pg_log_ok env db []" "pg_load db [] = Inr []"
    using assms(1) by (simp_all add: pg_log_ok_def pg_load_def)
  from pg_audit.append_all_ok [OF init assms(2)] obtain t rs where
    "append_all (pg_append_event env db) [] es = Inr t" "pg_load db t = Inr rs" "chain_ok env rs"
    "list_all2 (same_event env) (events rs) es" by (auto simp: events_def)
  moreover have "append_all (pg_append_event env db) [] es = Inr (map (record_to_row db) (mem_log_of env es))"
    using pg_append_all_rows [OF assms(1), of env "[]" es] assms(2)
    by (simp add: mem_log_of_def events_def)
  ultimately show ?thesis by (simp add: verify_chain_ok)
qed

theorem logs_verify_witness:
  "cv_ok (verify_chain demo_env (mem_log_of demo_env [demo_event, demo_event])) \<and>
   (\<exists>t. append_all (pg_append_event demo_env demo_db) [] [demo_event, demo_event] = Inr t)"
  using logs_verify [OF demo_db_laws(1), of "[demo_event, demo_event]" demo_env]
  by (auto simp: demo_event_def utc_event_def)

text \<open>C6: editing. If the event of one record of a valid chain is replaced in place, the chain still
  verifies only when the new event is the same one (field by field, the detail as a dictionary), or
  when the two byte strings that the record hashes to are a collision of the digest.\<close>

theorem edit_detected:
  assumes "cv_ok (verify_chain env rs)" "i < length rs"
    and "cv_ok (verify_chain env (rs[i := (rs ! i)\<lparr>cr_event := e\<rparr>]))"
  shows "same_event env e (cr_event (rs ! i)) \<or>
    (hash_input env (cr_prev_hash (rs ! i)) e \<noteq> hash_input env (cr_prev_hash (rs ! i)) (cr_event (rs ! i)) \<and>
     sha256 env (hash_input env (cr_prev_hash (rs ! i)) e) =
     sha256 env (hash_input env (cr_prev_hash (rs ! i)) (cr_event (rs ! i))))"
  using verify_edit [of env rs i e] assms
  by (auto simp: verify_chain_ok hash_input_inject compute_event_hash_def)

theorem edit_detected_witness:
  "same_event demo_env demo_event (cr_event (mem_log_of demo_env [demo_event] ! 0)) \<or>
   sha256 demo_env (hash_input demo_env (cr_prev_hash (mem_log_of demo_env [demo_event] ! 0)) demo_event) =
   sha256 demo_env (hash_input demo_env (cr_prev_hash (mem_log_of demo_env [demo_event] ! 0))
     (cr_event (mem_log_of demo_env [demo_event] ! 0)))"
proof -
  have "(mem_log_of demo_env [demo_event])[0 := (mem_log_of demo_env [demo_event] ! 0)\<lparr>cr_event := demo_event\<rparr>]
      = mem_log_of demo_env [demo_event]"
    by (simp add: mem_log_of_def mem_append_event_def link_def)
  then show ?thesis
    using edit_detected [of demo_env "mem_log_of demo_env [demo_event]" 0 demo_event]
    by (auto simp: verify_chain_ok) (simp add: mem_log_of_def mem_append_event_def)
qed

text \<open>Structure. Removing a record before the last one, inserting any record before an existing
  one, and exchanging two records are always detected, whatever the digest function.\<close>

theorem reorder_detected:
  assumes "cv_ok (verify_chain env rs)" "i < length rs"
  shows "(Suc i < length rs \<longrightarrow> \<not> cv_ok (verify_chain env (take i rs @ drop (Suc i) rs))) \<and>
    \<not> cv_ok (verify_chain env (take i rs @ r # drop i rs)) \<and>
    (\<forall>j. i < j \<and> j < length rs \<longrightarrow> \<not> cv_ok (verify_chain env (rs[i := rs ! j, j := rs ! i])))"
proof (intro conjI allI impI)
  note ok = assms(1) [unfolded verify_chain_ok]
  show "\<not> cv_ok (verify_chain env (take i rs @ drop (Suc i) rs))" if "Suc i < length rs"
    using chain_ok_occurrence [OF ok that, of i] that assms(2) by (simp add: verify_chain_ok nth_append)
  show "\<not> cv_ok (verify_chain env (take i rs @ r # drop i rs))"
    using chain_ok_occurrence [OF ok assms(2), of "Suc i"] assms(2) by (simp add: verify_chain_ok nth_append)
  show "\<not> cv_ok (verify_chain env (rs[i := rs ! j, j := rs ! i]))" if "i < j \<and> j < length rs" for j
    using chain_ok_occurrence [OF ok assms(2), of j] that by (simp add: verify_chain_ok)
qed

theorem reorder_detected_witness:
  "\<not> cv_ok (verify_chain demo_env (tl (mem_log_of demo_env [demo_event, demo_event])))"
  using reorder_detected [of demo_env "mem_log_of demo_env [demo_event, demo_event]" 0]
  by (simp add: verify_chain_ok) (simp add: mem_log_of_def mem_append_event_def)

text \<open>Truncation is not detected. Dropping any number of records from the end of a valid chain
  leaves a chain that \<open>verify_chain\<close> accepts.\<close>

theorem truncation_accepted:
  assumes "cv_ok (verify_chain env rs)"
  shows "cv_ok (verify_chain env (take n rs))"
  using assms chain_ok_prefix [of env "take n rs" "drop n rs"] by (simp add: verify_chain_ok)

theorem truncation_accepted_witness:
  "cv_ok (verify_chain demo_env (take 1 (mem_log_of demo_env [demo_event, demo_event])))"
  using truncation_accepted [of demo_env "mem_log_of demo_env [demo_event, demo_event]" 1]
  by (simp add: verify_chain_ok)

text \<open>With an anchor the chain is unique. Two valid non-empty chains that end in the same digest
  have the same records, or they exhibit either two different hashed byte strings with one digest or
  a hashed byte string whose digest is the genesis constant.\<close>

theorem anchored_log_unique:
  assumes "hex_digest env" "cv_ok (verify_chain env rs)" "cv_ok (verify_chain env ss)"
    and "rs \<noteq> []" "ss \<noteq> []" "cr_event_hash (last rs) = cr_event_hash (last ss)"
  shows "list_all2 (same_record env) rs ss \<or>
    (\<exists>x \<in> hash_inputs env rs. \<exists>y \<in> hash_inputs env ss. x \<noteq> y \<and> sha256 env x = sha256 env y) \<or>
    (\<exists>x \<in> hash_inputs env rs \<union> hash_inputs env ss. sha256 env x = GENESIS_HASH)"
  using anchored_chain_unique [OF assms(1)] assms(2-) unfolding verify_chain_ok forged_def by blast

theorem anchored_log_unique_witness:
  "list_all2 (same_record demo_env) (mem_log_of demo_env [demo_event]) (mem_log_of demo_env [demo_event]) \<or>
   forged demo_env (mem_log_of demo_env [demo_event]) (mem_log_of demo_env [demo_event])"
  using anchored_log_unique [OF demo_env_hex, of "mem_log_of demo_env [demo_event]" "mem_log_of demo_env [demo_event]"]
  by (auto simp: verify_chain_ok forged_def) (simp_all add: mem_log_of_def mem_append_event_def)

text \<open>The SQL idempotency query agrees with the Python scan. On the rows of a log whose events
  have no \<open>ok\<close> entry or a boolean one, as all recorders write, the query does not fail and returns
  what \<open>has_executed\<close> computes over the events.\<close>

theorem has_executed_sql_agrees:
  assumes "jsonb_faithful db" "boolean_text db" "\<forall>e \<in> set (events rs). plain_ok_flag e"
  shows "pg_has_executed db (map (record_to_row db) rs) a = Inr (has_executed rs a)"
  using assms by (rule pg_has_executed_rows)

theorem has_executed_sql_agrees_witness:
  "pg_has_executed demo_db (map (record_to_row demo_db) (mem_log_of demo_env [demo_event\<lparr>ev_type := EXECUTED\<rparr>])) ''a1''
   = Inr True"
  using has_executed_sql_agrees [OF demo_db_laws, of "mem_log_of demo_env [demo_event\<lparr>ev_type := EXECUTED\<rparr>]" "''a1''"]
  by (simp add: demo_event_def plain_ok_flag_def dict_ok_def dict_keys_def has_executed_iff
      counts_as_executed_iff)

end
