(* ===== verification/Execution.thy ===== *)
theory Execution
  imports Tools Audit_Log
begin

text \<open>
  \<^verbatim>\<open>src/src/atlas/execution.py\<close>: \<open>GuardedExecutor\<close>, which makes gated actions idempotent by the
  audit ledger, and routes the outcome of every run to an \<open>EXECUTED\<close> or a \<open>FAILED\<close> event.

  The state is explicit: the audit log and the world of side effects go in and come out. The results
  below are about sequences of guarded executions by one writer, which is the setting that the module
  documents; a crash between the side effect and its audit event is outside the model.
\<close>

definition is_replay_of :: "string \<Rightarrow> audit_event \<Rightarrow> bool" where
  "is_replay_of aid e = (counts_as_executed e \<and> ev_action e = aid)"

definition replay_result :: "proposed_action \<Rightarrow> audit_log \<Rightarrow> action_result" where
  "replay_result a lg =
     (let prior_output =
        (case find (is_replay_of (pa_id a)) (rev (events lg)) of
           None \<Rightarrow> None
         | Some e \<Rightarrow> Some [(''replay_skipped'', PBool True), (''prior'', PDict (ev_detail e))])
      in \<lparr>ar_id = pa_id a, ar_tool = pa_tool a, ar_ok = True,
          ar_output = PDict (case prior_output of None \<Rightarrow> [(''replay_skipped'', PBool True)] | Some d \<Rightarrow> d),
          ar_error = None\<rparr>)"

definition execute_guarded :: "audit_env \<Rightarrow> 'w registry \<Rightarrow> proposed_action \<Rightarrow> principal
    \<Rightarrow> audit_tool_context option \<Rightarrow> audit_log \<Rightarrow> 'w \<Rightarrow> action_result result \<times> audit_log \<times> 'w" where
  "execute_guarded env reg a p extra lg w =
     (if requires_approval (TierEnum (pa_tier a)) \<and> has_executed lg (pa_id a)
      then let lg' = replay_skipped env lg a ''already executed'' extra
           in (Inr (replay_result a lg'), lg', w)
      else let (r, w') = execute reg a p w
           in if ar_ok r
              then (case executed env lg r extra of
                      Inl e \<Rightarrow> (Inl e, lg, w')
                    | Inr lg' \<Rightarrow> (Inr r, lg', w'))
              else (Inr r, failed env lg r extra, w'))"

section \<open>One execution\<close>

lemma execute_id [simp]: "ar_id (fst (execute reg a p w)) = pa_id a" "ar_tool (fst (execute reg a p w)) = pa_tool a"
  by (auto simp: execute_def split: sum.splits prod.splits)

text \<open>The event that an execution appends.\<close>

definition exec_detail :: "action_result \<Rightarrow> audit_tool_context option \<Rightarrow> pydict" where
  "exec_detail r extra = merge_detail [(''ok'', PBool (ar_ok r)), (''error'', opt_str (ar_error r))] extra"

lemma exec_detail_ok [simp]: "dict_get (exec_detail r extra) ''ok'' = Some (PBool (ar_ok r))"
  by (simp add: exec_detail_def dict_ok_def dict_keys_def)

lemma execute_guarded_replay:
  "pa_tier a \<noteq> READ \<Longrightarrow> has_executed lg (pa_id a) \<Longrightarrow>
   execute_guarded env reg a p extra lg w =
     (Inr (replay_result a (replay_skipped env lg a ''already executed'' extra)),
      replay_skipped env lg a ''already executed'' extra, w)"
  by (simp add: execute_guarded_def Let_def)

lemma execute_guarded_run:
  "pa_tier a = READ \<or> \<not> has_executed lg (pa_id a) \<Longrightarrow>
   execute_guarded env reg a p extra lg w =
     (let (r, w') = execute reg a p w
      in (Inr r,
          record_event env lg (if ar_ok r then EXECUTED else FAILED) (pa_id a) (Some (pa_tool a)) ''system''
            (exec_detail r extra), w'))"
proof -
  assume c: "pa_tier a = READ \<or> \<not> has_executed lg (pa_id a)"
  obtain r w' where x: "execute reg a p w = (r, w')" by (cases "execute reg a p w")
  then have "ar_id r = pa_id a" "ar_tool r = pa_tool a" using execute_id [of reg a p w] by simp_all
  with c x show ?thesis
    by (auto simp: execute_guarded_def executed_def failed_def exec_detail_def Let_def)
qed

lemma execute_guarded_cases:
  obtains
    (replay) "pa_tier a \<noteq> READ" "has_executed lg (pa_id a)"
      "execute_guarded env reg a p extra lg w =
        (Inr (replay_result a (replay_skipped env lg a ''already executed'' extra)),
         replay_skipped env lg a ''already executed'' extra, w)"
  | (run) r w' where "pa_tier a = READ \<or> \<not> has_executed lg (pa_id a)" "execute reg a p w = (r, w')"
      "execute_guarded env reg a p extra lg w =
        (Inr r, record_event env lg (if ar_ok r then EXECUTED else FAILED) (pa_id a) (Some (pa_tool a))
           ''system'' (exec_detail r extra), w')"
proof (cases "pa_tier a \<noteq> READ \<and> has_executed lg (pa_id a)")
  case True
  then show thesis by (intro replay) (simp_all add: execute_guarded_replay)
next
  case False
  obtain r w' where "execute reg a p w = (r, w')" by (cases "execute reg a p w")
  moreover from this False execute_guarded_run [of a lg env reg p extra w] have
    "execute_guarded env reg a p extra lg w =
        (Inr r, record_event env lg (if ar_ok r then EXECUTED else FAILED) (pa_id a) (Some (pa_tool a))
           ''system'' (exec_detail r extra), w')" by auto
  ultimately show thesis using False run by blast
qed

definition log_of :: "action_result result \<times> audit_log \<times> 'w \<Rightarrow> audit_log" where
  "log_of x = fst (snd x)"

definition world_of :: "action_result result \<times> audit_log \<times> 'w \<Rightarrow> 'w" where
  "world_of x = snd (snd x)"

lemma log_world_simps [simp]: "log_of (r, l, w) = l" "world_of (r, l, w) = w"
  by (simp_all add: log_of_def world_of_def)

text \<open>Exactly one event is appended, for the executed action, of one of three types.\<close>

lemma execute_guarded_event:
  "\<exists>e. events (log_of (execute_guarded env reg a p extra lg w)) = events lg @ [e] \<and>
     ev_action e = pa_id a \<and> ev_tool e = Some (pa_tool a) \<and> ev_type e \<in> {EXECUTED, FAILED, REPLAY_SKIPPED}"
  by (rule execute_guarded_cases [of a lg env reg p extra w]) (auto simp: replay_skipped_def)

lemma execute_guarded_chain:
  "chain_ok env lg \<Longrightarrow> chain_ok env (log_of (execute_guarded env reg a p extra lg w))"
  by (rule execute_guarded_cases [of a lg env reg p extra w]) (auto simp: replay_skipped_def)

lemma execute_guarded_returns: "\<exists>r. fst (execute_guarded env reg a p extra lg w) = Inr r"
  by (rule execute_guarded_cases [of a lg env reg p extra w]) auto

section \<open>Counting executions\<close>

definition exec_count :: "string \<Rightarrow> audit_log \<Rightarrow> nat" where
  "exec_count aid lg = length (filter (is_replay_of aid) (events lg))"

lemma exec_count_0: "exec_count aid lg = 0 \<longleftrightarrow> \<not> has_executed lg aid"
  by (auto simp: exec_count_def has_executed_iff is_replay_of_def filter_empty_conv)

lemma exec_count_record:
  "exec_count aid (record_event env lg ty a tool_name actor d) =
   exec_count aid lg + (if ty = EXECUTED \<and> a = aid \<and> dict_get d ''ok'' \<in> {None, Some (PBool True)} then 1 else 0)"
  by (auto simp: exec_count_def is_replay_of_def counts_as_executed_iff)

lemma exec_count_guarded:
  "exec_count aid (log_of (execute_guarded env reg a p extra lg w)) =
   exec_count aid lg +
     (if pa_id a = aid \<and> (pa_tier a = READ \<or> \<not> has_executed lg aid) \<and> ar_ok (fst (execute reg a p w)) then 1 else 0)"
  by (rule execute_guarded_cases [of a lg env reg p extra w])
    (auto simp: replay_skipped_def exec_count_record)

text \<open>A run of the guarded executor over a list of requests.\<close>

type_synonym exec_request = "proposed_action \<times> principal \<times> audit_tool_context option"

fun run_all :: "audit_env \<Rightarrow> 'w registry \<Rightarrow> exec_request list \<Rightarrow> audit_log \<times> 'w \<Rightarrow> audit_log \<times> 'w" where
  "run_all env reg [] s = s"
| "run_all env reg ((a, p, extra) # rest) s =
     run_all env reg rest (snd (execute_guarded env reg a p extra (fst s) (snd s)))"

lemma run_all_count:
  assumes "\<forall>(a, p, extra) \<in> set reqs. pa_id a = aid \<longrightarrow> pa_tier a \<noteq> READ" "exec_count aid (fst s) \<le> 1"
  shows "exec_count aid (fst (run_all env reg reqs s)) \<le> 1"
  using assms
proof (induction reqs arbitrary: s)
  case (Cons q reqs)
  obtain a p extra where q: "q = (a, p, extra)" by (cases q)
  let ?s = "snd (execute_guarded env reg a p extra (fst s) (snd s))"
  have "exec_count aid (fst ?s) \<le> 1"
    using exec_count_guarded [of aid env reg a p extra "fst s" "snd s"] Cons.prems q exec_count_0 [of aid "fst s"]
    by (auto simp: log_of_def split: if_splits)
  with Cons q show ?case by simp
qed simp

lemma run_all_executed_stable:
  assumes "has_executed (fst s) aid" "\<forall>(a, p, extra) \<in> set reqs. pa_id a = aid \<and> pa_tier a \<noteq> READ"
  shows "snd (run_all env reg reqs s) = snd s \<and> has_executed (fst (run_all env reg reqs s)) aid"
  using assms
proof (induction reqs arbitrary: s)
  case (Cons q reqs)
  obtain a p extra where q: "q = (a, p, extra)" by (cases q)
  let ?s = "snd (execute_guarded env reg a p extra (fst s) (snd s))"
  have "?s = (replay_skipped env (fst s) a ''already executed'' extra, snd s)"
    using Cons.prems q by (simp add: execute_guarded_replay)
  moreover from this have "has_executed (fst ?s) aid"
    using Cons.prems(1) by (simp add: replay_skipped_def record_event_append)
  ultimately show ?case using Cons q by auto
qed simp

section \<open>Properties\<close>

definition demo_action :: proposed_action where
  "demo_action = \<lparr>pa_id = ''act_1'', pa_tool = ''send_email'', pa_args = [(''to'', PStr ''a@b.c'')],
     pa_tier = SEND, pa_rationale = [], pa_permission = Some ''tool:send:domain:b.c''\<rparr>"

definition demo_registry :: "email_message fake_sender registry" where
  "demo_registry = [(''send_email'', send_email_tool (\<lambda>_ _. []) (Some fake_email_send))]"

definition demo_run :: "action_result result \<times> audit_log \<times> email_message fake_sender" where
  "demo_run = execute_guarded demo_env demo_registry demo_action anonymous None [] (fake_init False)"

text \<open>Replays are harmless. Once a gated action has a counted \<open>EXECUTED\<close> event, executing it again
  returns a successful result marked as a replay, appends one \<open>REPLAY_SKIPPED\<close> event and leaves the
  world unchanged, and so does any sequence of further attempts at that action.\<close>

theorem replay_has_no_effect:
  assumes "pa_tier a \<noteq> READ" "has_executed lg (pa_id a)"
    and "\<forall>(b, q, x) \<in> set reqs. pa_id b = pa_id a \<and> pa_tier b \<noteq> READ"
  shows "(\<exists>lg' r e d. execute_guarded env reg a p extra lg w = (Inr r, lg', w) \<and> ar_ok r \<and>
       ar_output r = PDict d \<and> dict_get d ''replay_skipped'' = Some (PBool True) \<and>
       events lg' = events lg @ [e] \<and> ev_type e = REPLAY_SKIPPED \<and> ev_action e = pa_id a) \<and>
    snd (run_all env reg reqs (lg, w)) = w"
proof
  show "\<exists>lg' r e d. execute_guarded env reg a p extra lg w = (Inr r, lg', w) \<and> ar_ok r \<and>
       ar_output r = PDict d \<and> dict_get d ''replay_skipped'' = Some (PBool True) \<and>
       events lg' = events lg @ [e] \<and> ev_type e = REPLAY_SKIPPED \<and> ev_action e = pa_id a"
    using assms(1,2) by (auto simp: execute_guarded_replay replay_result_def Let_def replay_skipped_def
        split: option.splits)
  show "snd (run_all env reg reqs (lg, w)) = w"
    using run_all_executed_stable [of "(lg, w)" "pa_id a" reqs env reg] assms(2,3) by simp
qed

theorem replay_has_no_effect_witness:
  "has_executed (log_of demo_run) ''act_1'' \<and> fs_count (world_of demo_run) = 1 \<and>
   fs_count (snd (run_all demo_env demo_registry [(demo_action, anonymous, None)]
     (log_of demo_run, world_of demo_run))) = 1"
proof -
  have h: "has_executed (log_of demo_run) ''act_1''" and c: "fs_count (world_of demo_run) = 1"
    by code_simp+
  have "snd (run_all demo_env demo_registry [(demo_action, anonymous, None)] (log_of demo_run, world_of demo_run))
      = world_of demo_run"
    using replay_has_no_effect [of demo_action "log_of demo_run" "[(demo_action, anonymous, None)]"
        demo_env demo_registry anonymous None "world_of demo_run"] h
    by (simp add: demo_action_def)
  with h c show ?thesis by simp
qed

text \<open>At most once. In any sequence of guarded executions, of this and of other actions, in any
  order and by any principals, an action id that is only ever used with a gated tier gets at most one
  counted \<open>EXECUTED\<close> event.\<close>

theorem gated_action_executes_at_most_once:
  assumes "\<forall>(a, p, extra) \<in> set reqs. pa_id a = aid \<longrightarrow> pa_tier a \<noteq> READ" "exec_count aid lg \<le> 1"
  shows "exec_count aid (fst (run_all env reg reqs (lg, w))) \<le> 1"
  using run_all_count [OF assms(1), of "(lg, w)"] assms(2) by simp

theorem gated_action_executes_at_most_once_witness:
  "exec_count ''act_1'' (fst (run_all demo_env demo_registry
     [(demo_action, anonymous, None), (demo_action, anonymous, None)] ([], fake_init False))) \<le> 1"
  using gated_action_executes_at_most_once [of "[(demo_action, anonymous, None), (demo_action, anonymous, None)]"
      "''act_1''" "[]" demo_env demo_registry "fake_init False"]
  by (simp add: demo_action_def exec_count_def events_def)

text \<open>Outcomes are recorded and failures can be retried. An execution that is not a replay always
  returns, runs the tool once, appends exactly one event, \<open>EXECUTED\<close> with \<open>ok\<close> true when the tool
  succeeded and \<open>FAILED\<close> otherwise, and only a success makes later attempts replays. The chain stays
  valid.\<close>

theorem outcome_recorded:
  assumes "pa_tier a = READ \<or> \<not> has_executed lg (pa_id a)" "chain_ok env lg" "execute reg a p w = (r, w')"
  shows "\<exists>lg' e. execute_guarded env reg a p extra lg w = (Inr r, lg', w') \<and> events lg' = events lg @ [e] \<and>
    ev_type e = (if ar_ok r then EXECUTED else FAILED) \<and> ev_action e = pa_id a \<and>
    dict_get (ev_detail e) ''ok'' = Some (PBool (ar_ok r)) \<and> chain_ok env lg' \<and>
    (has_executed lg' (pa_id a) \<longleftrightarrow> ar_ok r \<or> has_executed lg (pa_id a))"
  using assms execute_guarded_run [OF assms(1), of env reg p extra w]
  by (auto simp: record_event_append counts_as_executed_iff)

theorem outcome_recorded_witness:
  "\<exists>r lg' w'. execute_guarded demo_env demo_registry demo_action anonymous None [] (fake_init True) = (Inr r, lg', w') \<and>
     \<not> has_executed lg' ''act_1''"
proof -
  let ?x = "execute demo_registry demo_action anonymous (fake_init True)"
  have f: "\<not> ar_ok (fst ?x)" by code_simp
  obtain r w' where x: "?x = (r, w')" by (cases ?x)
  show ?thesis
    using outcome_recorded [OF _ _ x, of "[]" demo_env None] f x by (auto simp: demo_action_def)
qed

end
