(* ===== verification/Knowledge.thy ===== *)
theory Knowledge
  imports Rbac
begin

text \<open>
  \<^verbatim>\<open>src/src/atlas/knowledge/interfaces.py\<close> and \<^verbatim>\<open>memory_store.py\<close>: entities, relations, the read
  check \<open>can_read\<close>, and the in-memory knowledge graph.

  The graph is a record: the entities by id (a dictionary), the relations in insertion order, and the
  bound policy, a backend's \<open>effective_permissions\<close> (\<open>None\<close> means the built-in policy). The locale
  \<open>knowledge_graph\<close> is the contract that the planner relies on; it is interpreted on the in-memory
  graph here.
\<close>

datatype scope = PERSONAL | ORG

primrec scope_value :: "scope \<Rightarrow> string" where
  "scope_value PERSONAL = ''personal''"
| "scope_value ORG = ''org''"

record entity =
  en_id :: string
  en_type :: string
  en_name :: string
  en_content :: string
  en_acl :: "string list"
  en_scope :: scope

record relation =
  rel_src :: string
  rel_dst :: string
  rel_type :: string

definition IDENTITY_ACL_PREFIX :: string where
  "IDENTITY_ACL_PREFIX = ''kg:read:user:''"

definition identity_acl :: "string \<Rightarrow> string" where
  "identity_acl uid = IDENTITY_ACL_PREFIX @ uid"

definition extraction_entity_prefix :: "string \<Rightarrow> string \<Rightarrow> string" where
  "extraction_entity_prefix owner_segment source_id = owner_segment @ '':'' @ source_id @ '':entity:''"

type_synonym policy = "principal option \<Rightarrow> string set"

fun can_read_loop :: "policy \<Rightarrow> principal option \<Rightarrow> string list \<Rightarrow> bool" where
  "can_read_loop store p [] = False"
| "can_read_loop store p (permission # acl) =
     (if startswith permission IDENTITY_ACL_PREFIX
      then (let owner = drop (length IDENTITY_ACL_PREFIX) permission
            in if p \<noteq> None \<and> user_id (the p) = owner then True else can_read_loop store p acl)
      else if policy_can store p (Some permission) then True
      else can_read_loop store p acl)"

definition can_read :: "policy option \<Rightarrow> principal option \<Rightarrow> entity \<Rightarrow> bool" where
  "can_read pol p e =
     (if en_acl e = [] then True
      else let store = (case pol of None \<Rightarrow> mem_effective_permissions ROLE_PERMISSIONS | Some s \<Rightarrow> s)
           in can_read_loop store p (en_acl e))"

section \<open>The in-memory graph\<close>

record kg =
  kg_entities :: "entity dict"
  kg_relations :: "relation list"
  kg_policy :: "policy option"

definition kg_init :: "policy option \<Rightarrow> kg" where
  "kg_init pol = \<lparr>kg_entities = [], kg_relations = [], kg_policy = pol\<rparr>"

definition upsert_entity :: "entity \<Rightarrow> kg \<Rightarrow> kg" where
  "upsert_entity e k = k\<lparr>kg_entities := dict_set (en_id e) e (kg_entities k)\<rparr>"

definition add_relation :: "relation \<Rightarrow> kg \<Rightarrow> kg" where
  "add_relation r k =
     (if list_ex (\<lambda>r'. (rel_src r', rel_dst r', rel_type r') = (rel_src r, rel_dst r, rel_type r)) (kg_relations k)
      then k
      else k\<lparr>kg_relations := kg_relations k @ [r]\<rparr>)"

definition persist_extraction ::
  "string \<Rightarrow> string \<Rightarrow> entity list \<Rightarrow> relation list \<Rightarrow> kg \<Rightarrow> kg" where
  "persist_extraction owner_segment source_id es rels k =
     (let pre = extraction_entity_prefix owner_segment source_id;
          k1 = k\<lparr>kg_entities := filter (\<lambda>(i, e). \<not> startswith i pre) (kg_entities k),
                 kg_relations := filter (\<lambda>r. \<not> startswith (rel_src r) pre \<and> \<not> startswith (rel_dst r) pre)
                   (kg_relations k)\<rparr>;
          k2 = foldl (\<lambda>k e. upsert_entity e k) k1 es
      in foldl (\<lambda>k r. add_relation r k) k2 rels)"

definition bind_policy :: "policy \<Rightarrow> kg \<Rightarrow> kg" where
  "bind_policy pol k = k\<lparr>kg_policy := Some pol\<rparr>"

text \<open>\<open>xs[:n]\<close>, also for a negative bound.\<close>

definition py_take :: "int \<Rightarrow> 'a list \<Rightarrow> 'a list" where
  "py_take n xs = (if 0 \<le> n then take (nat n) xs else take (nat (int (length xs) + n)) xs)"

definition matches_terms :: "string list \<Rightarrow> entity \<Rightarrow> bool" where
  "matches_terms terms e =
     (let haystack = lower (en_name e @ [CHR 0x0A] @ en_content e)
      in terms = [] \<or> list_ex (\<lambda>term. str_in term haystack) terms)"

definition kg_query :: "kg \<Rightarrow> principal option \<Rightarrow> string \<Rightarrow> int \<Rightarrow> entity list" where
  "kg_query k p txt limit =
     (let terms = filter (\<lambda>w. w \<noteq> []) (split_ws (lower txt))
      in py_take limit
           (filter (\<lambda>e. can_read (kg_policy k) p e \<and> matches_terms terms e)
             (map snd (kg_entities k))))"

definition seed_demo_graph :: kg where
  "seed_demo_graph =
     add_relation \<lparr>rel_src = ''note-1'', rel_dst = ''doc-1'', rel_type = ''references''\<rparr>
       (upsert_entity \<lparr>en_id = ''doc-1'', en_type = ''doc'', en_name = ''Q3 revenue figures'',
           en_content = ''Confidential org revenue numbers for the quarter.'',
           en_acl = [''kg:read:org''], en_scope = ORG\<rparr>
       (upsert_entity \<lparr>en_id = ''note-1'', en_type = ''note'', en_name = ''Alice onboarding checklist'',
           en_content = ''Personal onboarding tasks: set up laptop, read the handbook.'',
           en_acl = [''kg:read:personal''], en_scope = PERSONAL\<rparr> (kg_init None)))"

section \<open>Who may read an entity\<close>

lemma identity_split: "startswith permission IDENTITY_ACL_PREFIX \<longleftrightarrow> (\<exists>uid. permission = identity_acl uid)"
  by (auto simp: identity_acl_def prefix_def)

lemma drop_identity [simp]: "drop (length IDENTITY_ACL_PREFIX) (identity_acl uid) = uid"
  by (simp add: identity_acl_def)

lemma can_read_loop_iff:
  "can_read_loop store p acl \<longleftrightarrow>
   (\<exists>permission \<in> set acl.
      (\<exists>uid. permission = identity_acl uid \<and> p \<noteq> None \<and> user_id (the p) = uid) \<or>
      (\<not> startswith permission IDENTITY_ACL_PREFIX \<and> policy_can store p (Some permission)))"
  by (induction acl) (auto simp: identity_split Let_def)

definition store_of :: "policy option \<Rightarrow> policy" where
  "store_of pol = (case pol of None \<Rightarrow> mem_effective_permissions ROLE_PERMISSIONS | Some s \<Rightarrow> s)"

lemma can_read_iff:
  "can_read pol p e \<longleftrightarrow> en_acl e = [] \<or>
   (\<exists>permission \<in> set (en_acl e).
      (\<exists>q. p = Some q \<and> permission = identity_acl (user_id q)) \<or>
      (\<not> startswith permission IDENTITY_ACL_PREFIX \<and> policy_can (store_of pol) p (Some permission)))"
  by (cases p) (auto simp: can_read_def can_read_loop_iff store_of_def Let_def split: option.splits)

lemma can_read_identity_only:
  "en_acl e = [identity_acl uid] \<Longrightarrow> can_read pol p e \<longleftrightarrow> (\<exists>q. p = Some q \<and> user_id q = uid)"
  by (auto simp: can_read_iff identity_split) (auto simp: identity_acl_def)

section \<open>The contract of a knowledge graph\<close>

lemma py_take_subset: "set (py_take n xs) \<subseteq> set xs"
  by (auto simp: py_take_def dest: in_set_takeD)

lemma length_py_take: "0 \<le> n \<Longrightarrow> length (py_take n xs) \<le> nat n"
  by (simp add: py_take_def)

locale knowledge_graph =
  fixes query :: "'k \<Rightarrow> principal option \<Rightarrow> string \<Rightarrow> int \<Rightarrow> entity list"
    and pol :: "'k \<Rightarrow> policy option"
    and stored :: "'k \<Rightarrow> entity set"
  assumes query_sound: "e \<in> set (query k p txt n) \<Longrightarrow> e \<in> stored k \<and> can_read (pol k) p e"
    and query_bound: "0 \<le> n \<Longrightarrow> length (query k p txt n) \<le> nat n"
begin

lemma no_leak: "\<not> can_read (pol k) p e \<Longrightarrow> e \<notin> set (query k p txt n)"
  using query_sound by blast

lemma personal_isolated:
  "en_acl e = [identity_acl uid] \<Longrightarrow> user_id q \<noteq> uid \<Longrightarrow> e \<notin> set (query k (Some q) txt n)"
  using no_leak can_read_identity_only by auto

end

lemma kg_query_sound:
  "e \<in> set (kg_query k p txt n) \<Longrightarrow> e \<in> snd ` set (kg_entities k) \<and> can_read (kg_policy k) p e"
  using py_take_subset unfolding kg_query_def Let_def by fastforce

lemma kg_query_bound: "0 \<le> n \<Longrightarrow> length (kg_query k p txt n) \<le> nat n"
  unfolding kg_query_def Let_def by (rule length_py_take)

interpretation mem_kg: knowledge_graph kg_query kg_policy "\<lambda>k. snd ` set (kg_entities k)"
  by unfold_locales (rule kg_query_sound, assumption, rule kg_query_bound)

section \<open>Writes\<close>

definition kg_ok :: "kg \<Rightarrow> bool" where
  "kg_ok k \<longleftrightarrow> dict_ok (kg_entities k) \<and> (\<forall>(i, e) \<in> set (kg_entities k). en_id e = i) \<and> distinct (kg_relations k)"

lemma relation_eq_iff: "(r :: relation) = r' \<longleftrightarrow> (rel_src r', rel_dst r', rel_type r') = (rel_src r, rel_dst r, rel_type r)"
  by (cases r; cases r') auto

lemma add_relation_eq: "add_relation r k = (if r \<in> set (kg_relations k) then k else k\<lparr>kg_relations := kg_relations k @ [r]\<rparr>)"
proof -
  have "list_ex (\<lambda>r'. (rel_src r', rel_dst r', rel_type r') = (rel_src r, rel_dst r, rel_type r)) (kg_relations k)
      \<longleftrightarrow> r \<in> set (kg_relations k)"
    by (simp only: list_ex_iff relation_eq_iff [of r, symmetric]) blast
  then show ?thesis by (simp only: add_relation_def)
qed

lemma set_update_subset: "set (AList.update k v xs) \<subseteq> insert (k, v) (set xs)"
  by (induction xs) auto

lemma kg_ok_ops [simp]:
  "kg_ok (kg_init pol)" "kg_ok k \<Longrightarrow> kg_ok (upsert_entity e k)" "kg_ok k \<Longrightarrow> kg_ok (add_relation r k)"
  "kg_ok k \<Longrightarrow> kg_ok (bind_policy p k)"
  using set_update_subset [of "en_id e" e "kg_entities k"]
  by (auto simp: kg_ok_def kg_init_def upsert_entity_def add_relation_eq bind_policy_def dict_ok_def
      dict_keys_def distinct_update)

lemma dict_ok_filter: "dict_ok d \<Longrightarrow> dict_ok (filter P d)"
  by (simp add: dict_ok_def dict_keys_def distinct_map_filter)

lemma kg_ok_folds:
  "kg_ok k \<Longrightarrow> kg_ok (foldl (\<lambda>k e. upsert_entity e k) k es)"
  "kg_ok k \<Longrightarrow> kg_ok (foldl (\<lambda>k r. add_relation r k) k rels)"
  by (induction es arbitrary: k, simp_all) (induction rels arbitrary: k, simp_all)

lemma kg_ok_persist_extraction: "kg_ok k \<Longrightarrow> kg_ok (persist_extraction seg src es rels k)"
  unfolding persist_extraction_def Let_def
  by (intro kg_ok_folds) (auto simp: kg_ok_def dict_ok_filter)

lemma dict_get_filter_key: "dict_get (filter (\<lambda>(i, e). P i) d) k = (if P k then dict_get d k else None)"
  by (induction d) auto

lemma upserts_relations [simp]: "kg_relations (foldl (\<lambda>k e. upsert_entity e k) k es) = kg_relations k"
  by (induction es arbitrary: k) (simp_all add: upsert_entity_def)

lemma adds_entities [simp]: "kg_entities (foldl (\<lambda>k r. add_relation r k) k rels) = kg_entities k"
  by (induction rels arbitrary: k) (simp_all add: add_relation_eq)

lemma adds_relations: "set (kg_relations (foldl (\<lambda>k r. add_relation r k) k rels)) = set (kg_relations k) \<union> set rels"
  by (induction rels arbitrary: k) (auto simp: add_relation_eq)

lemma upserts_get:
  "distinct (map en_id es) \<Longrightarrow>
   dict_get (kg_entities (foldl (\<lambda>k e. upsert_entity e k) k es)) i =
     (case find (\<lambda>e. en_id e = i) es of Some e \<Rightarrow> Some e | None \<Rightarrow> dict_get (kg_entities k) i)"
proof (induction es arbitrary: k)
  case (Cons e es)
  have "find (\<lambda>x. en_id x = en_id e) es = None" using Cons.prems by (auto simp: find_None_iff rev_image_eqI)
  with Cons show ?case by (auto simp: upsert_entity_def split: option.splits)
qed simp

lemma adds_relations_present:
  "set rels \<subseteq> set (kg_relations k) \<Longrightarrow> foldl (\<lambda>k r. add_relation r k) k rels = k"
  by (induction rels) (auto simp: add_relation_eq)

section \<open>Properties\<close>

text \<open>C17: who can read. An entity is readable exactly when it has no access list, or an entry of the
  list is the identity entry of the caller, or a role entry that the policy grants to the caller. An
  identity entry is never satisfied by a role: under every policy, also one that grants everything to
  everyone, a personal entity is readable by its owner only.\<close>

theorem can_read_exact:
  "(can_read pol p e \<longleftrightarrow> en_acl e = [] \<or>
     (\<exists>permission \<in> set (en_acl e).
        (\<exists>q. p = Some q \<and> permission = identity_acl (user_id q)) \<or>
        (\<not> startswith permission IDENTITY_ACL_PREFIX \<and> policy_can (store_of pol) p (Some permission)))) \<and>
   (can_read (Some (\<lambda>_. {WILDCARD})) (Some q) (e\<lparr>en_acl := [identity_acl uid]\<rparr>) \<longleftrightarrow> user_id q = uid)"
  using can_read_iff [of pol p e] can_read_identity_only [of "e\<lparr>en_acl := [identity_acl uid]\<rparr>" uid]
  by simp

text \<open>Queries do not leak. Every entity that a query returns is stored and readable by the caller
  and there are at most \<open>limit\<close> of them; when the readable entities that match one of the terms
  are not more than \<open>limit\<close>, the query returns all of them in insertion order.\<close>

theorem query_sound_and_complete:
  assumes "0 \<le> limit"
  shows "(\<forall>e \<in> set (kg_query k p txt limit). e \<in> snd ` set (kg_entities k) \<and> can_read (kg_policy k) p e) \<and>
    length (kg_query k p txt limit) \<le> nat limit \<and>
    (let hits = filter (\<lambda>e. can_read (kg_policy k) p e \<and> matches_terms (split_ws (lower txt)) e)
        (map snd (kg_entities k))
     in length hits \<le> nat limit \<longrightarrow> kg_query k p txt limit = hits)"
proof -
  have "filter (\<lambda>w. w \<noteq> []) (split_ws (lower txt)) = split_ws (lower txt)"
    by (rule filter_True) (use split_ws_nonempty in blast)
  then have "length hits \<le> nat limit \<longrightarrow> kg_query k p txt limit = hits"
    if "hits = filter (\<lambda>e. can_read (kg_policy k) p e \<and> matches_terms (split_ws (lower txt)) e)
        (map snd (kg_entities k))" for hits
    using assms that by (simp add: kg_query_def Let_def py_take_def)
  then show ?thesis using mem_kg.query_sound mem_kg.query_bound [OF assms] by (simp add: Let_def)
qed

definition demo_guest :: principal where
  "demo_guest = \<lparr>user_id = ''u'', roles = [''guest''], org_id = None\<rparr>"

theorem query_sound_and_complete_witness:
  "kg_query seed_demo_graph (Some demo_guest) ''revenue handbook'' 5 = [snd (hd (kg_entities seed_demo_graph))] \<and>
   can_read (kg_policy seed_demo_graph) (Some demo_guest) (snd (hd (kg_entities seed_demo_graph)))"
proof -
  have q: "kg_query seed_demo_graph (Some demo_guest) ''revenue handbook'' 5 = [snd (hd (kg_entities seed_demo_graph))]"
    by code_simp
  have "\<forall>e \<in> set (kg_query seed_demo_graph (Some demo_guest) ''revenue handbook'' 5).
      can_read (kg_policy seed_demo_graph) (Some demo_guest) e"
    using query_sound_and_complete [OF zero_le_numeral, of seed_demo_graph "Some demo_guest" "''revenue handbook''"]
    by blast
  then show ?thesis unfolding q by simp
qed

text \<open>Re-extraction replaces. After persisting the extraction of a source, the entities under its
  prefix are exactly the new ones, every entity with another id is as before, the relations are the
  old ones that do not touch the prefix together with the new ones (without duplicates), and
  persisting the same extraction again changes neither.\<close>

theorem persist_extraction_replaces:
  assumes "kg_ok k" "distinct (map en_id es)"
    and "\<forall>e \<in> set es. startswith (en_id e) (extraction_entity_prefix seg src)"
  shows "(let k' = persist_extraction seg src es rels k; pre = extraction_entity_prefix seg src in
     kg_ok k' \<and>
     (\<forall>i. dict_get (kg_entities k') i =
        (if startswith i pre then find (\<lambda>e. en_id e = i) es else dict_get (kg_entities k) i)) \<and>
     set (kg_relations k') = {r \<in> set (kg_relations k). \<not> startswith (rel_src r) pre \<and> \<not> startswith (rel_dst r) pre}
        \<union> set rels \<and>
     (\<forall>i. dict_get (kg_entities (persist_extraction seg src es rels k')) i = dict_get (kg_entities k') i) \<and>
     set (kg_relations (persist_extraction seg src es rels k')) = set (kg_relations k'))"
proof -
  let ?pre = "extraction_entity_prefix seg src"
  have g: "dict_get (kg_entities (persist_extraction seg src es rels k)) i =
      (if startswith i ?pre then find (\<lambda>e. en_id e = i) es else dict_get (kg_entities k) i)" for i k
  proof -
    have "\<not> startswith i ?pre \<Longrightarrow> find (\<lambda>e. en_id e = i) es = None"
      using assms(3) by (auto simp: find_None_iff)
    then show ?thesis
      by (auto simp: persist_extraction_def Let_def upserts_get [OF assms(2)] dict_get_filter_key
          split: option.splits)
  qed
  have r: "set (kg_relations (persist_extraction seg src es rels k)) =
      {r \<in> set (kg_relations k). \<not> startswith (rel_src r) ?pre \<and> \<not> startswith (rel_dst r) ?pre} \<union> set rels" for k
    by (auto simp: persist_extraction_def Let_def adds_relations)
  show ?thesis
    unfolding Let_def using kg_ok_persist_extraction [OF assms(1)] by (auto simp: g r)
qed

theorem persist_extraction_replaces_witness:
  "kg_ok seed_demo_graph \<and>
   dict_get (kg_entities (persist_extraction ''u'' ''doc'' [] [] seed_demo_graph)) ''doc-1'' =
   dict_get (kg_entities seed_demo_graph) ''doc-1''"
proof
  show ok: "kg_ok seed_demo_graph" by (simp add: seed_demo_graph_def)
  have "\<not> startswith ''doc-1'' (extraction_entity_prefix ''u'' ''doc'')"
    by (simp add: extraction_entity_prefix_def)
  then show "dict_get (kg_entities (persist_extraction ''u'' ''doc'' [] [] seed_demo_graph)) ''doc-1'' =
   dict_get (kg_entities seed_demo_graph) ''doc-1''"
    using persist_extraction_replaces [OF ok, of "[]" "''u''" "''doc''" "[]"] by (simp add: Let_def)
qed

end
