(* ===== verification/Confidence.thy ===== *)
theory Confidence
  imports Knowledge
begin

text \<open>
  \<^verbatim>\<open>src/src/atlas/governance/confidence.py\<close>: source attribution and the confidence score. The score
  is a real number; \<open>round2\<close> is Python's \<open>round(x, 2)\<close> on floats, of which only monotonicity and the
  values at 0 and 1 are used.
\<close>

datatype source_kind = TOOL | KNOWLEDGE

record source =
  so_kind :: source_kind
  so_ref :: string
  so_label :: string

definition GROUNDED_ANSWER :: real where
  "GROUNDED_ANSWER = 8 / 10"

definition UNGROUNDED_ANSWER :: real where
  "UNGROUNDED_ANSWER = 5 / 10"

type_synonym source_acc = "source list \<times> (source_kind \<times> string) list"

definition add_source :: "source_acc \<Rightarrow> source \<Rightarrow> source_acc" where
  "add_source acc s =
     (let (sources, seen) = acc; key = (so_kind s, so_ref s)
      in if key \<notin> set seen then (sources @ [s], key # seen) else acc)"

definition result_source :: "action_result \<Rightarrow> source option" where
  "result_source r =
     (if ar_ok r
      then (case ar_output r of
              PDict d \<Rightarrow>
                (case dict_get d ''source'' of
                   Some label \<Rightarrow>
                     if truthy label
                     then Some \<lparr>so_kind = TOOL, so_ref = ar_tool r, so_label = py_str label\<rparr> else None
                 | None \<Rightarrow> None)
            | _ \<Rightarrow> None)
      else None)"

definition entity_source :: "entity \<Rightarrow> source" where
  "entity_source e = \<lparr>so_kind = KNOWLEDGE, so_ref = en_id e, so_label = en_name e\<rparr>"

definition collect_sources :: "action_result list \<Rightarrow> entity list \<Rightarrow> source list" where
  "collect_sources results kg_context =
     fst (foldl add_source
       (foldl (\<lambda>acc r. case result_source r of None \<Rightarrow> acc | Some s \<Rightarrow> add_source acc s) ([], []) results)
       (map entity_source kg_context))"

definition score_confidence ::
  "(real \<Rightarrow> real) \<Rightarrow> action_result list \<Rightarrow> entity list \<Rightarrow> real" where
  "score_confidence round2 results kg_context =
     (if results \<noteq> []
      then round2 (real (length (filter ar_ok results)) / real (length results))
      else if kg_context \<noteq> [] then GROUNDED_ANSWER else UNGROUNDED_ANSWER)"

section \<open>Sources\<close>

lemma collect_sources_candidates:
  "collect_sources results kg_context =
   fst (foldl add_source ([], []) (List.map_filter result_source results @ map entity_source kg_context))"
proof -
  have "foldl (\<lambda>acc r. case result_source r of None \<Rightarrow> acc | Some s \<Rightarrow> add_source acc s) acc results
      = foldl add_source acc (List.map_filter result_source results)" for acc
    by (induction results arbitrary: acc) (auto simp: map_filter_simps split: option.splits)
  then show ?thesis by (simp add: collect_sources_def)
qed

definition source_key :: "source \<Rightarrow> source_kind \<times> string" where
  "source_key s = (so_kind s, so_ref s)"

lemma foldl_add_source:
  assumes "set (snd acc) = source_key ` set (fst acc)" "distinct (map source_key (fst acc))"
  shows "(let acc' = foldl add_source acc ss in
     distinct (map source_key (fst acc')) \<and>
     source_key ` set (fst acc') = source_key ` (set (fst acc) \<union> set ss) \<and>
     set (fst acc') \<subseteq> set (fst acc) \<union> set ss)"
  using assms
proof (induction ss arbitrary: acc)
  case (Cons s ss)
  obtain xs seen where acc: "acc = (xs, seen)" by (cases acc)
  let ?acc = "add_source acc s"
  have "set (snd ?acc) = source_key ` set (fst ?acc)" "distinct (map source_key (fst ?acc))"
      "source_key ` set (fst ?acc) = source_key ` (insert s (set xs))" "set (fst ?acc) \<subseteq> insert s (set xs)"
    using Cons.prems by (auto simp: acc add_source_def Let_def simp flip: source_key_def)
  with Cons.IH [of ?acc] show ?case by (auto simp: acc Let_def)
qed simp

lemma collect_sources_facts:
  "distinct (map source_key (collect_sources results kg_context))"
  "source_key ` set (collect_sources results kg_context) =
   source_key ` (set (List.map_filter result_source results) \<union> entity_source ` set kg_context)"
  "set (collect_sources results kg_context) \<subseteq>
   set (List.map_filter result_source results) \<union> entity_source ` set kg_context"
  using foldl_add_source [of "([], [])" "List.map_filter result_source results @ map entity_source kg_context"]
  unfolding collect_sources_candidates Let_def by auto

section \<open>Properties\<close>

definition round2_ok :: "(real \<Rightarrow> real) \<Rightarrow> bool" where
  "round2_ok r \<longleftrightarrow> mono r \<and> r 0 = 0 \<and> r 1 = 1"

lemma ratio_bounds:
  "xs \<noteq> [] \<Longrightarrow> 0 \<le> real (length (filter P xs)) / real (length xs) \<and> real (length (filter P xs)) / real (length xs) \<le> 1"
  using length_filter_le [of P xs] by (auto simp: divide_le_eq_1)



end
