(* ===== verification/Graph.thy ===== *)
theory Graph
  imports Orchestration
begin

text \<open>
  The compiled graph of \<^verbatim>\<open>src/src/atlas/orchestration/graph.py\<close> (\<open>build_graph\<close>) as a transition
  system: START, planner, the conditional edge, approval (with its durable interrupt), executor,
  responder, END.

  A system state has the checkpoint of every thread (its channel values and the node to run next),
  the shared audit log, the world of side effects, the policy and the knowledge graph. A step runs one
  node of one thread, starts a turn, or is an outside change (policy edit, knowledge write, a change of
  the world). A node that raises leaves the checkpoint of its thread as it was, with the log and the
  world as the node left them, so it can be run again. Threads interleave arbitrarily.

  The plan of a planner step is any function that builds its actions with \<open>ToolRegistry.propose\<close>, as
  \<open>heuristic_plan\<close> and \<open>llm_plan\<close> do; nothing else is assumed of it, so the results hold whatever the
  model answers.
\<close>

record thread =
  th_state :: agent_state
  th_next :: node

record 'w system =
  sys_threads :: "string \<Rightarrow> thread option"
  sys_log :: audit_log
  sys_world :: 'w
  sys_policy :: policy
  sys_kg :: kg

text \<open>Starting a turn: the input overwrites every channel but \<open>messages\<close>, which is appended to.\<close>

definition start_turn :: "thread option \<Rightarrow> string \<Rightarrow> principal option \<Rightarrow> thread" where
  "start_turn old msg p =
     (let init = initial_state msg p;
          prior = (case old of None \<Rightarrow> [] | Some th \<Rightarrow> st_messages (th_state th))
      in \<lparr>th_state = init\<lparr>st_messages := prior @ st_messages init\<rparr>, th_next = Planner\<rparr>)"

definition set_thread :: "string \<Rightarrow> thread \<Rightarrow> 'w system \<Rightarrow> 'w system" where
  "set_thread tid th s = s\<lparr>sys_threads := (sys_threads s)(tid \<mapsto> th)\<rparr>"

inductive step :: "audit_env \<Rightarrow> 'w registry \<Rightarrow> 'w system \<Rightarrow> 'w system \<Rightarrow> bool"
  for env :: audit_env and reg :: "'w registry" where
  start: "step env reg s (set_thread tid (start_turn (sys_threads s tid) msg p) s)"
| plan: "sys_threads s tid = Some th \<Longrightarrow> th_next th = Planner \<Longrightarrow> plans_via_registry reg plan_fn \<Longrightarrow>
    planner_node env reg (sys_policy s) (kg_query (sys_kg s)) plan_fn (th_state th) (sys_log s) = (Inr st, lg) \<Longrightarrow>
    step env reg s (set_thread tid \<lparr>th_state = st, th_next = route_after_planner st\<rparr> s\<lparr>sys_log := lg\<rparr>)"
| plan_error: "sys_threads s tid = Some th \<Longrightarrow> th_next th = Planner \<Longrightarrow> plans_via_registry reg plan_fn \<Longrightarrow>
    planner_node env reg (sys_policy s) (kg_query (sys_kg s)) plan_fn (th_state th) (sys_log s) = (Inl e, lg) \<Longrightarrow>
    step env reg s (s\<lparr>sys_log := lg\<rparr>)"
| resume: "sys_threads s tid = Some th \<Longrightarrow> th_next th = Approval \<Longrightarrow>
    approval_node env (th_state th) raw (sys_log s) = (Inr st, lg) \<Longrightarrow>
    step env reg s (set_thread tid \<lparr>th_state = st, th_next = Executor\<rparr> s\<lparr>sys_log := lg\<rparr>)"
| resume_error: "sys_threads s tid = Some th \<Longrightarrow> th_next th = Approval \<Longrightarrow>
    approval_node env (th_state th) raw (sys_log s) = (Inl e, lg) \<Longrightarrow>
    step env reg s (s\<lparr>sys_log := lg\<rparr>)"
| exec: "sys_threads s tid = Some th \<Longrightarrow> th_next th = Executor \<Longrightarrow>
    executor_node env reg (sys_policy s) (th_state th) (sys_log s) (sys_world s) = (Inr st, lg, w) \<Longrightarrow>
    step env reg s (set_thread tid \<lparr>th_state = st, th_next = Responder\<rparr> s\<lparr>sys_log := lg, sys_world := w\<rparr>)"
| exec_error: "sys_threads s tid = Some th \<Longrightarrow> th_next th = Executor \<Longrightarrow>
    executor_node env reg (sys_policy s) (th_state th) (sys_log s) (sys_world s) = (Inl e, lg, w) \<Longrightarrow>
    step env reg s (s\<lparr>sys_log := lg, sys_world := w\<rparr>)"
| respond: "sys_threads s tid = Some th \<Longrightarrow> th_next th = Responder \<Longrightarrow>
    step env reg s (set_thread tid \<lparr>th_state = responder_node round2 narrator (th_state th), th_next = End\<rparr> s)"
| edit_policy: "step env reg s (s\<lparr>sys_policy := pol\<rparr>)"
| edit_knowledge: "step env reg s (s\<lparr>sys_kg := k\<rparr>)"
| outside_world: "step env reg s (s\<lparr>sys_world := w\<rparr>)"

definition initial_system :: "'w system \<Rightarrow> bool" where
  "initial_system s \<longleftrightarrow> sys_threads s = Map.empty \<and> sys_log s = []"

inductive reachable :: "audit_env \<Rightarrow> 'w registry \<Rightarrow> 'w system \<Rightarrow> bool"
  for env :: audit_env and reg :: "'w registry" where
  init: "initial_system s \<Longrightarrow> reachable env reg s"
| step: "reachable env reg s \<Longrightarrow> step env reg s s' \<Longrightarrow> reachable env reg s'"

inductive_cases step_elim: "step env reg s s'"

section \<open>Justified logs\<close>

definition ran :: "audit_event \<Rightarrow> bool" where
  "ran e \<longleftrightarrow> ev_type e \<in> {EXECUTED, FAILED, REPLAY_SKIPPED}"

text \<open>What the log must show before an action may run: its proposal and, if it is gated, a later
  approval of the same id.\<close>

definition cleared :: "audit_event list \<Rightarrow> proposed_action \<Rightarrow> bool" where
  "cleared evs a \<longleftrightarrow> (\<exists>xs x ys. evs = xs @ x # ys \<and> proposal_event a x \<and>
     (pa_tier a \<noteq> READ \<longrightarrow> (\<exists>y \<in> set ys. ev_type y = APPROVED \<and> ev_action y = pa_id a)))"

definition justified :: "'w registry \<Rightarrow> audit_event list \<Rightarrow> bool" where
  "justified reg evs \<longleftrightarrow> (\<forall>xs e ys. evs = xs @ e # ys \<longrightarrow> ran e \<longrightarrow>
     (\<exists>a. cleared xs a \<and> from_registry reg a \<and> ev_action e = pa_id a \<and> ev_tool e = Some (pa_tool a)))"

lemma cleared_append: "cleared evs a \<Longrightarrow> cleared (evs @ es) a"
  unfolding cleared_def by fastforce

lemma justified_Nil [simp]: "justified reg []"
  by (simp add: justified_def)

lemma justified_snoc:
  "justified reg (evs @ [e]) \<longleftrightarrow> justified reg evs \<and>
   (ran e \<longrightarrow> (\<exists>a. cleared evs a \<and> from_registry reg a \<and> ev_action e = pa_id a \<and> ev_tool e = Some (pa_tool a)))"
proof
  assume j: "justified reg (evs @ [e])"
  have "\<exists>a. cleared xs a \<and> from_registry reg a \<and> ev_action x = pa_id a \<and> ev_tool x = Some (pa_tool a)"
    if "evs = xs @ x # ys" "ran x" for xs x ys
    using j that unfolding justified_def by (metis append_Cons append_assoc)
  with j show "justified reg evs \<and>
   (ran e \<longrightarrow> (\<exists>a. cleared evs a \<and> from_registry reg a \<and> ev_action e = pa_id a \<and> ev_tool e = Some (pa_tool a)))"
    unfolding justified_def by blast
next
  assume j: "justified reg evs \<and>
   (ran e \<longrightarrow> (\<exists>a. cleared evs a \<and> from_registry reg a \<and> ev_action e = pa_id a \<and> ev_tool e = Some (pa_tool a)))"
  have "\<exists>a. cleared xs a \<and> from_registry reg a \<and> ev_action x = pa_id a \<and> ev_tool x = Some (pa_tool a)"
    if "evs @ [e] = xs @ x # ys" "ran x" for xs x ys
  proof (cases ys rule: rev_cases)
    case Nil
    with that j show ?thesis by auto
  next
    case (snoc ys' y)
    with that(1) have "evs = xs @ x # ys'" by simp
    with that(2) j show ?thesis unfolding justified_def by blast
  qed
  then show "justified reg (evs @ [e])" unfolding justified_def by blast
qed

lemma justified_append:
  "justified reg evs \<Longrightarrow> \<forall>e \<in> set es. \<not> ran e \<Longrightarrow> justified reg (evs @ es)"
proof (induction es rule: rev_induct)
  case (snoc e es)
  then show ?case using justified_snoc [of reg "evs @ es" e] by simp
qed simp

section \<open>The invariant\<close>

definition thread_ok :: "'w registry \<Rightarrow> audit_event list \<Rightarrow> thread \<Rightarrow> bool" where
  "thread_ok reg evs th \<longleftrightarrow>
     (\<forall>a \<in> set (st_proposed (th_state th)). from_registry reg a \<and> (\<exists>x \<in> set evs. proposal_event a x) \<and>
        (pa_tier a \<noteq> READ \<and> pa_id a \<in> set (st_approved (th_state th)) \<longrightarrow> cleared evs a)) \<and>
     (th_next th = Planner \<longrightarrow> st_approved (th_state th) = [])"

definition system_ok :: "audit_env \<Rightarrow> 'w registry \<Rightarrow> 'w system \<Rightarrow> bool" where
  "system_ok env reg s \<longleftrightarrow> chain_ok env (sys_log s) \<and> justified reg (events (sys_log s)) \<and>
     (\<forall>tid th. sys_threads s tid = Some th \<longrightarrow> thread_ok reg (events (sys_log s)) th)"

lemma thread_ok_append: "thread_ok reg evs th \<Longrightarrow> thread_ok reg (evs @ es) th"
  unfolding thread_ok_def using cleared_append by fastforce

lemma cleared_read: "x \<in> set evs \<Longrightarrow> proposal_event a x \<Longrightarrow> pa_tier a = READ \<Longrightarrow> cleared evs a"
  unfolding cleared_def by (meson split_list)

lemma cleared_approved:
  assumes "x \<in> set evs" "proposal_event a x" "y \<in> set es" "ev_type y = APPROVED" "ev_action y = pa_id a"
  shows "cleared (evs @ es) a"
proof -
  obtain xs ys where "evs = xs @ x # ys" using assms(1) by (meson split_list)
  then have "evs @ es = xs @ x # (ys @ es)" by simp
  with assms show ?thesis unfolding cleared_def by (metis UnCI set_append)
qed

lemma system_ok_update:
  assumes "system_ok env reg s" "chain_ok env lg" "justified reg (events lg)" "events lg = events (sys_log s) @ es"
    and "thread_ok reg (events lg) th"
  shows "system_ok env reg (set_thread tid th s\<lparr>sys_log := lg\<rparr>)"
  using assms by (auto simp: system_ok_def set_thread_def intro: thread_ok_append)

lemma system_ok_log:
  assumes "system_ok env reg s" "chain_ok env lg" "justified reg (events lg)" "events lg = events (sys_log s) @ es"
  shows "system_ok env reg (s\<lparr>sys_log := lg\<rparr>)"
  using assms by (auto simp: system_ok_def intro: thread_ok_append)

lemma system_ok_thread:
  "system_ok env reg s \<Longrightarrow> thread_ok reg (events (sys_log s)) th \<Longrightarrow> system_ok env reg (set_thread tid th s)"
  by (auto simp: system_ok_def set_thread_def)

lemma system_ok_world [simp]: "system_ok env reg (s\<lparr>sys_world := w\<rparr>) = system_ok env reg s"
  "system_ok env reg (s\<lparr>sys_policy := pol\<rparr>) = system_ok env reg s"
  "system_ok env reg (s\<lparr>sys_kg := k\<rparr>) = system_ok env reg s"
  by (simp_all add: system_ok_def)

lemma thread_ok_start: "thread_ok reg evs (start_turn old msg p)"
  by (simp add: thread_ok_def start_turn_def Let_def initial_state_def)

lemma planner_step_ok:
  assumes ok: "system_ok env reg s" and th: "sys_threads s tid = Some th" "th_next th = Planner"
    and plan: "plans_via_registry reg plan_fn"
    and node: "planner_node env reg pol kq plan_fn (th_state th) (sys_log s) = (Inr st, lg)"
  shows "system_ok env reg (set_thread tid \<lparr>th_state = st, th_next = nx\<rparr> s\<lparr>sys_log := lg\<rparr>)"
proof -
  let ?p = "get_current_principal (th_state th)"
  from node obtain acts ctx where acts: "plan_fn (last_user_text (st_messages (th_state th))) reg ctx = Inr acts"
      "lg = snd (planner_loop env reg pol ?p acts (sys_log s))"
      "st = (th_state th)\<lparr>st_proposed := fst (planner_loop env reg pol ?p acts (sys_log s)), st_kg_context := ctx\<rparr>"
    by (auto simp: planner_node_def Let_def split: sum.splits prod.splits)
  obtain es where es: "events lg = events (sys_log s) @ es" "\<forall>e \<in> set es. ev_type e \<in> {PROPOSED, DENIED}"
      "\<forall>a \<in> set acts. \<exists>e \<in> set es. proposal_event a e"
    using planner_loop_events acts(2) by blast
  have fr: "\<forall>a \<in> set acts. from_registry reg a" using plan acts(1) by (auto simp: plans_via_registry_def)
  have "st_approved (th_state th) = []" using ok th by (auto simp: system_ok_def thread_ok_def)
  then have t: "thread_ok reg (events lg) \<lparr>th_state = st, th_next = nx\<rparr>"
    using es fr by (auto simp: thread_ok_def acts(3) planner_loop_result)
  have "\<forall>e \<in> set es. \<not> ran e" using es(2) by (auto simp: ran_def)
  then have j: "justified reg (events lg)"
    unfolding es(1) using ok by (auto simp: system_ok_def intro: justified_append)
  have "chain_ok env lg" using ok planner_loop_chain acts(2) by (auto simp: system_ok_def)
  from system_ok_update [OF ok this j es(1) t] show ?thesis .
qed

lemma planner_error_log:
  "planner_node env reg pol kq plan_fn st lg = (Inl e, lg') \<Longrightarrow> lg' = lg"
  by (auto simp: planner_node_def Let_def split: sum.splits prod.splits)

lemma approval_error_log: "approval_node env st raw lg = (Inl e, lg') \<Longrightarrow> lg' = lg"
  by (auto simp: approval_node_def Let_def split: sum.splits)

lemma approval_step_ok:
  assumes ok: "system_ok env reg s" and th: "sys_threads s tid = Some th"
    and node: "approval_node env (th_state th) raw (sys_log s) = (Inr st, lg)"
  shows "system_ok env reg (set_thread tid \<lparr>th_state = st, th_next = Executor\<rparr> s\<lparr>sys_log := lg\<rparr>)"
proof -
  from node obtain ds where ds: "parse_decisions raw (map pa_id (gated_actions (th_state th))) = Inr ds"
      "lg = foldl (decided env) (sys_log s) ds"
      "st = (th_state th)\<lparr>st_approved := map ad_id (filter ad_approved ds),
        st_rejected := map ad_id (filter (\<lambda>d. \<not> ad_approved d) ds)\<rparr>"
    by (auto simp: approval_node_def Let_def split: sum.splits)
  obtain es where es: "events lg = events (sys_log s) @ es" "\<forall>e \<in> set es. ev_type e \<in> {APPROVED, REJECTED}"
      "\<forall>d \<in> set ds. ad_approved d \<longrightarrow> (\<exists>e \<in> set es. ev_type e = APPROVED \<and> ev_action e = ad_id d)"
    using decided_events ds(2) by blast
  have old: "thread_ok reg (events (sys_log s)) th" using ok th by (auto simp: system_ok_def)
  have "cleared (events lg) a" if a: "a \<in> set (st_proposed st)" "pa_id a \<in> set (st_approved st)" for a
  proof -
    from a(2) obtain d where d: "d \<in> set ds" "ad_approved d" "pa_id a = ad_id d" by (auto simp: ds(3))
    with es(3) obtain y where "y \<in> set es" "ev_type y = APPROVED" "ev_action y = pa_id a" by auto
    moreover from old a(1) obtain x where "x \<in> set (events (sys_log s))" "proposal_event a x"
      by (auto simp: thread_ok_def ds(3))
    ultimately show ?thesis unfolding es(1) using cleared_approved by blast
  qed
  then have t: "thread_ok reg (events lg) \<lparr>th_state = st, th_next = Executor\<rparr>"
    using old unfolding thread_ok_def es(1) by (auto simp: ds(3))
  have "\<forall>e \<in> set es. \<not> ran e" using es(2) by (auto simp: ran_def)
  then have j: "justified reg (events lg)"
    unfolding es(1) using ok by (auto simp: system_ok_def intro: justified_append)
  have "chain_ok env lg" using ok decided_chain ds(2) by (auto simp: system_ok_def)
  from system_ok_update [OF ok this j es(1) t] show ?thesis .
qed

definition extends :: "audit_env \<Rightarrow> 'w registry \<Rightarrow> audit_log \<Rightarrow> audit_log \<Rightarrow> bool" where
  "extends env reg lg0 lg \<longleftrightarrow>
     (\<exists>es. events lg = events lg0 @ es) \<and> chain_ok env lg \<and> justified reg (events lg)"

lemma executor_loop_extends:
  assumes ok: "chain_ok env lg" "justified reg (events lg)"
    and cl: "\<And>a. a \<in> set acts \<Longrightarrow> from_registry reg a \<and>
      (pa_tier a = READ \<or> pa_id a \<in> set approved \<longrightarrow> cleared (events lg) a)"
  shows "extends env reg lg (fst (snd (executor_loop env reg pol p approved acts lg w)))"
proof -
  have "(\<lambda>l (v :: 'a). extends env reg lg l) (fst (snd (executor_loop env reg pol p approved acts lg w)))
    (snd (snd (executor_loop env reg pol p approved acts lg w)))"
  proof (rule executor_loop_invariant [where S = "set acts" and env = env])
    fix a l1 e and l :: audit_log and v :: 'a
    assume n: "extends env reg lg l" "events l1 = events l @ [e]" "ev_type e \<in> {DENIED, SKIPPED}"
      "chain_ok env l \<Longrightarrow> chain_ok env l1"
    then show "extends env reg lg l1" by (auto simp: extends_def justified_snoc ran_def)
  next
    fix a l meta r l1 and v w1 :: 'a
    assume a: "a \<in> set acts" and x: "extends env reg lg l"
      and g: "execute_guarded env reg a p (Some meta) l v = (Inr r, l1, w1)"
      and ap: "pa_tier a = READ \<or> pa_id a \<in> set approved"
    obtain es where es: "events l = events lg @ es" using x by (auto simp: extends_def)
    have c: "cleared (events l) a" "from_registry reg a" using cl [OF a] ap cleared_append es by auto
    obtain e where e: "events l1 = events l @ [e]" "ev_action e = pa_id a" "ev_tool e = Some (pa_tool a)"
      using execute_guarded_event [of env reg a p "Some meta" l v] g by auto
    have "chain_ok env l1"
      using execute_guarded_chain [of env l reg a p "Some meta" v] x g by (auto simp: extends_def)
    moreover have "justified reg (events l1)"
      unfolding e(1) justified_snoc using x e(2,3) c by (auto simp: extends_def)
    ultimately show "extends env reg lg l1" using e(1) es by (simp add: extends_def)
  qed (use ok in \<open>auto simp: extends_def\<close>)
  then show ?thesis .
qed

lemma executor_node_extends:
  assumes ok: "system_ok env reg s" and th: "sys_threads s tid = Some th"
    and node: "executor_node env reg pol (th_state th) (sys_log s) w0 = (r, lg, w)"
  shows "extends env reg (sys_log s) lg"
proof -
  have t: "thread_ok reg (events (sys_log s)) th" and c: "chain_ok env (sys_log s)" "justified reg (events (sys_log s))"
    using ok th by (auto simp: system_ok_def)
  have "lg = fst (snd (executor_loop env reg pol (get_current_principal (th_state th))
      (st_approved (th_state th)) (st_proposed (th_state th)) (sys_log s) w0))"
    using node by (auto simp: executor_node_def split: sum.splits prod.splits)
  moreover have "from_registry reg a \<and> (pa_tier a = READ \<or> pa_id a \<in> set (st_approved (th_state th))
      \<longrightarrow> cleared (events (sys_log s)) a)" if "a \<in> set (st_proposed (th_state th))" for a
    using t that cleared_read unfolding thread_ok_def by blast
  ultimately show ?thesis using executor_loop_extends [OF c] by blast
qed

lemma executor_node_state:
  "executor_node env reg pol st lg w0 = (Inr st', lg', w) \<Longrightarrow>
   st_proposed st' = st_proposed st \<and> st_approved st' = st_approved st"
  by (auto simp: executor_node_def split: sum.splits prod.splits)

lemma step_ok:
  assumes "step env reg s s'" "system_ok env reg s"
  shows "system_ok env reg s'"
  using assms
proof (cases rule: step.cases)
  case (start tid msg p)
  with assms(2) show ?thesis by (simp add: system_ok_thread thread_ok_start)
next
  case (plan tid th plan_fn st lg)
  with assms(2) show ?thesis using planner_step_ok by blast
next
  case (plan_error tid th plan_fn e lg)
  then have "s' = s" using planner_error_log by fastforce
  with assms(2) show ?thesis by simp
next
  case (resume tid th raw st lg)
  with assms(2) show ?thesis using approval_step_ok by blast
next
  case (resume_error tid th raw e lg)
  then have "s' = s" using approval_error_log by fastforce
  with assms(2) show ?thesis by simp
next
  case (exec tid th st lg w)
  have x: "extends env reg (sys_log s) lg" using executor_node_extends [OF assms(2) exec(2,4)] .
  then obtain es where es: "events lg = events (sys_log s) @ es" by (auto simp: extends_def)
  have "thread_ok reg (events (sys_log s)) th" using assms(2) exec(2) by (auto simp: system_ok_def)
  then have "thread_ok reg (events lg) \<lparr>th_state = st, th_next = Responder\<rparr>"
    using executor_node_state [OF exec(4)] thread_ok_append [of reg "events (sys_log s)" th es] es
    by (simp add: thread_ok_def)
  with x es show ?thesis
    using system_ok_update [OF assms(2), of lg es "\<lparr>th_state = st, th_next = Responder\<rparr>" tid] exec(1)
    by (auto simp: extends_def set_thread_def system_ok_def)
next
  case (exec_error tid th e lg w)
  have x: "extends env reg (sys_log s) lg" using executor_node_extends [OF assms(2) exec_error(2,4)] .
  then show ?thesis
    using system_ok_log [OF assms(2), of lg] exec_error(1) by (auto simp: extends_def system_ok_def)
next
  case (respond tid th round2 narrator)
  have "thread_ok reg (events (sys_log s)) th" using assms(2) respond(2) by (auto simp: system_ok_def)
  then have "thread_ok reg (events (sys_log s))
      \<lparr>th_state = responder_node round2 narrator (th_state th), th_next = End\<rparr>"
    by (simp add: thread_ok_def responder_node_def Let_def)
  with respond(1) assms(2) show ?thesis by (simp add: system_ok_thread)
qed auto

lemma step_appends:
  assumes "system_ok env reg s" "step env reg s s'"
  shows "\<exists>es. events (sys_log s') = events (sys_log s) @ es"
  using assms(2)
proof (cases rule: step.cases)
  case (plan tid th plan_fn st lg)
  from plan(5) obtain acts x where "planner_loop env reg (sys_policy s) (get_current_principal (th_state th)) acts (sys_log s) = (x, lg)"
    by (auto simp: planner_node_def Let_def split: sum.splits prod.splits)
  then show ?thesis
    using planner_loop_events [of env reg "sys_policy s" "get_current_principal (th_state th)" acts "sys_log s"] plan(1)
    by (auto simp: set_thread_def)
next
  case (plan_error tid th plan_fn e lg)
  then show ?thesis using planner_error_log by fastforce
next
  case (resume tid th raw st lg)
  from resume(4) obtain ds where "lg = foldl (decided env) (sys_log s) ds"
    by (auto simp: approval_node_def Let_def split: sum.splits)
  then show ?thesis using decided_events [of env "sys_log s" ds] resume(1) by (auto simp: set_thread_def)
next
  case (resume_error tid th raw e lg)
  then show ?thesis using approval_error_log by fastforce
next
  case (exec tid th st lg w)
  then show ?thesis using executor_node_extends [OF assms(1) exec(2,4)] by (auto simp: extends_def set_thread_def)
next
  case (exec_error tid th e lg w)
  then show ?thesis using executor_node_extends [OF assms(1) exec_error(2,4)] by (auto simp: extends_def)
qed (simp_all add: set_thread_def)

lemma reachable_ok: "reachable env reg s \<Longrightarrow> system_ok env reg s"
proof (induction rule: reachable.induct)
  case (init s)
  then show ?case by (simp add: initial_system_def system_ok_def events_def)
next
  case (step s s')
  then show ?case using step_ok by blast
qed

section \<open>At most one execution\<close>

definition gated_only :: "audit_event list \<Rightarrow> string \<Rightarrow> bool" where
  "gated_only evs aid \<longleftrightarrow> (\<forall>e \<in> set evs. ev_type e = PROPOSED \<and> ev_action e = aid \<longrightarrow>
     dict_get (ev_detail e) ''risk_tier'' \<noteq> Some (PStr (tier_value READ)))"

definition once :: "string \<Rightarrow> audit_log \<Rightarrow> bool" where
  "once aid lg \<longleftrightarrow> (gated_only (events lg) aid \<longrightarrow> exec_count aid lg \<le> 1)"

lemma once_quiet:
  assumes "once aid lg" "events lg' = events lg @ es" "\<forall>e \<in> set es. ev_type e \<noteq> EXECUTED"
  shows "once aid lg'"
proof -
  have "filter (is_replay_of aid) es = []"
    using assms(3) by (auto simp: is_replay_of_def counts_as_executed_iff filter_empty_conv)
  then show ?thesis using assms(1,2) by (auto simp: once_def gated_only_def exec_count_def)
qed

lemma once_run:
  assumes "once aid lg" "x \<in> set (events lg)" "proposal_event a x"
  shows "once aid (log_of (execute_guarded env reg a p extra lg w))"
proof -
  let ?lg = "log_of (execute_guarded env reg a p extra lg w)"
  obtain e where e: "events ?lg = events lg @ [e]"
    using execute_guarded_event [of env reg a p extra lg w] by blast
  have "pa_id a = aid \<Longrightarrow> gated_only (events lg) aid \<Longrightarrow> pa_tier a \<noteq> READ"
    using assms(2,3) by (auto simp: gated_only_def proposal_event_def)
  moreover have "gated_only (events ?lg) aid \<Longrightarrow> gated_only (events lg) aid"
    using e by (auto simp: gated_only_def)
  ultimately show ?thesis
    using assms(1) exec_count_guarded [of aid env reg a p extra lg w] exec_count_0 [of aid lg]
    by (auto simp: once_def split: if_splits)
qed

lemma executor_loop_once:
  assumes "once aid lg" "\<And>a. a \<in> set acts \<Longrightarrow> \<exists>x \<in> set (events lg). proposal_event a x"
  shows "once aid (fst (snd (executor_loop env reg pol p approved acts lg w)))"
proof -
  have "(\<lambda>l (v :: 'a). once aid l \<and> (\<exists>es. events l = events lg @ es))
      (fst (snd (executor_loop env reg pol p approved acts lg w)))
      (snd (snd (executor_loop env reg pol p approved acts lg w)))"
  proof (rule executor_loop_invariant [where S = "set acts" and env = env])
    fix a l1 e and l :: audit_log and v :: 'a
    assume "once aid l \<and> (\<exists>es. events l = events lg @ es)" "events l1 = events l @ [e]"
      "ev_type e \<in> {DENIED, SKIPPED}"
    then show "once aid l1 \<and> (\<exists>es. events l1 = events lg @ es)" using once_quiet [of aid l l1 "[e]"] by auto
  next
    fix a l meta r l1 and v w1 :: 'a
    assume a: "a \<in> set acts" and x: "once aid l \<and> (\<exists>es. events l = events lg @ es)"
      and g: "execute_guarded env reg a p (Some meta) l v = (Inr r, l1, w1)"
    from assms(2) [OF a] obtain y where y: "y \<in> set (events lg)" "proposal_event a y" by blast
    then have "y \<in> set (events l)" using x by auto
    with y x g once_run [of aid l y a env reg p "Some meta" v] have "once aid l1" by simp
    moreover obtain e where "events l1 = events l @ [e]"
      using execute_guarded_event [of env reg a p "Some meta" l v] g by auto
    ultimately show "once aid l1 \<and> (\<exists>es. events l1 = events lg @ es)" using x by auto
  qed (use assms(1) in auto)
  then show ?thesis by blast
qed

lemma executor_node_once:
  assumes "system_ok env reg s" "sys_threads s tid = Some th" "once aid (sys_log s)"
    and "executor_node env reg pol (th_state th) (sys_log s) w0 = (r, lg, w)"
  shows "once aid lg"
proof -
  have "lg = fst (snd (executor_loop env reg pol (get_current_principal (th_state th))
      (st_approved (th_state th)) (st_proposed (th_state th)) (sys_log s) w0))"
    using assms(4) by (auto simp: executor_node_def split: sum.splits prod.splits)
  moreover have "\<exists>x \<in> set (events (sys_log s)). proposal_event a x" if "a \<in> set (st_proposed (th_state th))" for a
    using assms(1,2) that unfolding system_ok_def thread_ok_def by blast
  ultimately show ?thesis using executor_loop_once [OF assms(3), of "st_proposed (th_state th)"] by simp
qed

lemma planner_node_once:
  assumes "planner_node env reg pol kq plan_fn st lg = (r, lg')" "once aid lg"
  shows "once aid lg'"
proof (cases r)
  case (Inl e)
  with assms planner_error_log show ?thesis by metis
next
  case (Inr st')
  with assms(1) obtain acts x where "planner_loop env reg pol (get_current_principal st) acts lg = (x, lg')"
    by (auto simp: planner_node_def Let_def split: sum.splits prod.splits)
  then obtain es where es: "events lg' = events lg @ es" "\<forall>e \<in> set es. ev_type e \<in> {PROPOSED, DENIED}"
    using planner_loop_events [of env reg pol "get_current_principal st" acts lg] by auto
  have "\<forall>e \<in> set es. ev_type e \<noteq> EXECUTED" using es(2) by auto
  from once_quiet [OF assms(2) es(1) this] show ?thesis .
qed

lemma approval_node_once:
  assumes "approval_node env st raw lg = (r, lg')" "once aid lg"
  shows "once aid lg'"
proof (cases r)
  case (Inl e)
  with assms approval_error_log show ?thesis by metis
next
  case (Inr st')
  with assms(1) obtain ds where "lg' = foldl (decided env) lg ds"
    by (auto simp: approval_node_def Let_def split: sum.splits)
  then obtain es where es: "events lg' = events lg @ es" "\<forall>e \<in> set es. ev_type e \<in> {APPROVED, REJECTED}"
    using decided_events by blast
  have "\<forall>e \<in> set es. ev_type e \<noteq> EXECUTED" using es(2) by auto
  from once_quiet [OF assms(2) es(1) this] show ?thesis .
qed

lemma reachable_once: "reachable env reg s \<Longrightarrow> once aid (sys_log s)"
proof (induction rule: reachable.induct)
  case (init s)
  then show ?case by (simp add: initial_system_def once_def exec_count_def events_def)
next
  case (step s s')
  note ok = reachable_ok [OF step(1)] and IH = step(3)
  from step(2) show ?case
    by (cases rule: step.cases)
      (auto simp: set_thread_def IH intro: planner_node_once [OF _ IH] approval_node_once [OF _ IH]
        executor_node_once [OF ok _ IH])
qed

section \<open>A run of the system\<close>

definition demo_member :: principal where
  "demo_member = \<lparr>user_id = ''alice'', roles = [''member''], org_id = Some ''acme''\<rparr>"

definition demo_plan :: "email_message fake_sender plan_fn" where
  "demo_plan request reg ctx =
     result_bind (propose reg ''act_1'' ''send_email'' [(''to'', PStr ''bob@acme.org''), (''body'', PStr request)] [])
       (\<lambda>a. Inr [a])"

definition demo_system :: "email_message fake_sender system" where
  "demo_system = \<lparr>sys_threads = Map.empty, sys_log = [], sys_world = fake_init False,
     sys_policy = mem_effective_permissions ROLE_PERMISSIONS, sys_kg = kg_init None\<rparr>"

definition demo_started :: thread where
  "demo_started = start_turn None ''email bob'' (Some demo_member)"

definition demo_planned :: "agent_state result \<times> audit_log" where
  "demo_planned = planner_node demo_env demo_registry (mem_effective_permissions ROLE_PERMISSIONS)
     (kg_query (kg_init None)) demo_plan (th_state demo_started) []"

definition demo_approved :: "agent_state result \<times> audit_log" where
  "demo_approved = approval_node demo_env (projr (fst demo_planned)) (PBool True) (snd demo_planned)"

definition demo_executed :: "agent_state result \<times> audit_log \<times> email_message fake_sender" where
  "demo_executed = executor_node demo_env demo_registry (mem_effective_permissions ROLE_PERMISSIONS)
     (projr (fst demo_approved)) (snd demo_approved) (fake_init False)"

lemma demo_outcomes_eval:
  "case demo_planned of (r1, l1) \<Rightarrow>
     is_ok r1 \<and> route_after_planner (projr r1) = Approval \<and>
     (case approval_node demo_env (projr r1) (PBool True) l1 of (r2, l2) \<Rightarrow>
        is_ok r2 \<and>
        (case executor_node demo_env demo_registry (mem_effective_permissions ROLE_PERMISSIONS) (projr r2) l2
            (fake_init False) of (r3, l3, w3) \<Rightarrow>
           is_ok r3 \<and> map ev_type (events l3) = [PROPOSED, APPROVED, EXECUTED] \<and> length (fs_sent w3) = 1 \<and>
           exec_count ''act_1'' l3 = 1 \<and>
           map (\<lambda>e. dict_get (ev_detail e) ''risk_tier'') (events l3) = [Some (PStr ''send''), None, None]))"
  by code_simp

lemma demo_outcomes:
  "is_ok (fst demo_planned)" "route_after_planner (projr (fst demo_planned)) = Approval"
  "is_ok (fst demo_approved)" "is_ok (fst demo_executed)"
  "map ev_type (events (fst (snd demo_executed))) = [PROPOSED, APPROVED, EXECUTED]"
  "length (fs_sent (snd (snd demo_executed))) = 1" "exec_count ''act_1'' (fst (snd demo_executed)) = 1"
  "map (\<lambda>e. dict_get (ev_detail e) ''risk_tier'') (events (fst (snd demo_executed))) = [Some (PStr ''send''), None, None]"
  using demo_outcomes_eval
  unfolding case_prod_beta demo_executed_def [symmetric] demo_approved_def [symmetric] by simp_all

lemma is_ok_projr: "is_ok r \<Longrightarrow> r = Inr (projr r)"
  by (cases r) auto

lemma registry_ok_demo: "registry_ok demo_registry"
  by (simp add: registry_ok_def demo_registry_def dict_ok_def dict_keys_def send_email_tool_def)

lemma demo_reachable:
  "\<exists>s. reachable demo_env demo_registry s \<and> sys_log s = fst (snd demo_executed)"
proof -
  let ?r = "reachable demo_env demo_registry"
  let ?t1 = "demo_started"
  let ?t2 = "\<lparr>th_state = projr (fst demo_planned), th_next = Approval\<rparr>"
  let ?t3 = "\<lparr>th_state = projr (fst demo_approved), th_next = Executor\<rparr>"
  have p: "demo_planned = (Inr (projr (fst demo_planned)), snd demo_planned)"
    using is_ok_projr [OF demo_outcomes(1)] by (metis prod.collapse)
  have a: "demo_approved = (Inr (projr (fst demo_approved)), snd demo_approved)"
    using is_ok_projr [OF demo_outcomes(3)] by (metis prod.collapse)
  have x: "demo_executed = (Inr (projr (fst demo_executed)), fst (snd demo_executed), snd (snd demo_executed))"
    using is_ok_projr [OF demo_outcomes(4)] by (metis prod.collapse)
  have pv: "plans_via_registry demo_registry demo_plan"
    by (auto simp: plans_via_registry_def demo_plan_def result_bind_Inr_iff intro: propose_from_registry)
  have s1: "?r (set_thread ''t'' ?t1 demo_system)"
    using reachable.step [OF reachable.init step.start [where tid = "''t''" and msg = "''email bob''" and p = "Some demo_member" and s = demo_system]]
    by (simp add: initial_system_def demo_system_def demo_started_def)
  let ?s2 = "(set_thread ''t'' ?t2 (set_thread ''t'' ?t1 demo_system))\<lparr>sys_log := snd demo_planned\<rparr>"
  have "step demo_env demo_registry (set_thread ''t'' ?t1 demo_system) ?s2"
    unfolding demo_outcomes(2) [symmetric]
    by (rule step.plan [where th = ?t1 and plan_fn = demo_plan])
      (use p pv in \<open>simp_all add: set_thread_def demo_system_def demo_planned_def, simp_all add: demo_started_def start_turn_def Let_def\<close>)
  with s1 have s2: "?r ?s2" by (rule reachable.step)
  let ?s3 = "(set_thread ''t'' ?t3 ?s2)\<lparr>sys_log := snd demo_approved\<rparr>"
  have "step demo_env demo_registry ?s2 ?s3"
    by (rule step.resume [where th = ?t2 and raw = "PBool True"])
      (use a in \<open>simp_all add: set_thread_def demo_approved_def\<close>)
  with s2 have s3: "?r ?s3" by (rule reachable.step)
  let ?s4 = "(set_thread ''t'' \<lparr>th_state = projr (fst demo_executed), th_next = Responder\<rparr> ?s3)
    \<lparr>sys_log := fst (snd demo_executed), sys_world := snd (snd demo_executed)\<rparr>"
  have "step demo_env demo_registry ?s3 ?s4"
    by (rule step.exec [where th = ?t3])
      (use x in \<open>simp_all add: set_thread_def demo_executed_def demo_system_def\<close>)
  with s3 have "?r ?s4" by (rule reachable.step)
  moreover have "sys_log ?s4 = fst (snd demo_executed)" by (simp add: set_thread_def)
  ultimately show ?thesis by blast
qed


section \<open>Properties\<close>

lemma demo_log:
  obtains s e1 e2 e3 where "reachable demo_env demo_registry s" "events (sys_log s) = [e1, e2, e3]"
    "ev_type e1 = PROPOSED" "ev_type e2 = APPROVED" "ev_type e3 = EXECUTED"
proof -
  obtain s where s: "reachable demo_env demo_registry s" "sys_log s = fst (snd demo_executed)"
    using demo_reachable by blast
  obtain e1 e2 e3 where "events (sys_log s) = [e1, e2, e3]"
      "ev_type e1 = PROPOSED" "ev_type e2 = APPROVED" "ev_type e3 = EXECUTED"
    using demo_outcomes(5) unfolding s(2) by (auto simp: map_eq_Cons_conv)
  with s(1) show thesis using that by blast
qed

text \<open>C1: no sensitive action without approval. In every reachable state of the system, whatever the
  planner proposes, however threads interleave and whatever is edited in between, an event in the audit
  log that says an action ran (executed, failed or replayed) is preceded by the proposal of that action
  on a registered tool, recorded with the risk tier that the tool declares; and if that tier is not
  \<open>READ\<close>, an approval of the same action id stands between proposal and run.\<close>

theorem no_action_without_approval:
  assumes "registry_ok reg" "reachable env reg s" "events (sys_log s) = xs @ e # ys"
    and "ev_type e \<in> {EXECUTED, FAILED, REPLAY_SKIPPED}"
  shows "\<exists>us prop vs name t. xs = us @ prop # vs \<and> ev_tool e = Some name \<and> dict_get reg name = Some t \<and>
    ev_type prop = PROPOSED \<and> ev_action prop = ev_action e \<and> ev_tool prop = Some name \<and>
    dict_get (ev_detail prop) ''risk_tier'' = Some (PStr (tier_value (t_tier t))) \<and>
    (t_tier t \<noteq> READ \<longrightarrow> (\<exists>appr \<in> set vs. ev_type appr = APPROVED \<and> ev_action appr = ev_action e))"
proof -
  have "justified reg (events (sys_log s))" using reachable_ok [OF assms(2)] by (simp add: system_ok_def)
  moreover have "ran e" using assms(4) by (simp add: ran_def)
  ultimately obtain a where a: "cleared xs a" "from_registry reg a" "ev_action e = pa_id a" "ev_tool e = Some (pa_tool a)"
    using assms(3) unfolding justified_def by blast
  obtain t where t: "dict_get reg (pa_tool a) = Some t" "pa_tier a = t_tier t"
    using from_registry_tier [OF assms(1) a(2)] by blast
  from a(1) obtain us pr vs where "xs = us @ pr # vs" "proposal_event a pr"
      "pa_tier a \<noteq> READ \<longrightarrow> (\<exists>y \<in> set vs. ev_type y = APPROVED \<and> ev_action y = pa_id a)"
    unfolding cleared_def by blast
  with a t show ?thesis unfolding proposal_event_def by metis
qed

theorem no_action_without_approval_witness:
  "\<exists>s e1 e2 e3 us prop vs. reachable demo_env demo_registry s \<and> events (sys_log s) = [e1, e2, e3] \<and>
     ev_type e3 = EXECUTED \<and> [e1, e2] = us @ prop # vs \<and> ev_type prop = PROPOSED \<and> ev_action prop = ev_action e3"
proof -
  obtain s e1 e2 e3 where s: "reachable demo_env demo_registry s" "events (sys_log s) = [e1, e2, e3]"
      "ev_type e3 = EXECUTED"
    using demo_log by metis
  then obtain us pr vs where "[e1, e2] = us @ pr # vs" "ev_type pr = PROPOSED" "ev_action pr = ev_action e3"
    using no_action_without_approval [OF registry_ok_demo s(1), of "[e1, e2]" e3 "[]"] by auto
  with s show ?thesis by metis
qed

text \<open>C2: at most once, system wide. In every reachable state an action id that was only ever proposed
  with a gated tier has at most one counted execution in the log, across all threads, turns, resumes and
  repeated runs of a node.\<close>

theorem action_runs_at_most_once:
  assumes "reachable env reg s"
    and "\<forall>e \<in> set (events (sys_log s)). ev_type e = PROPOSED \<and> ev_action e = aid \<longrightarrow>
      dict_get (ev_detail e) ''risk_tier'' \<noteq> Some (PStr (tier_value READ))"
  shows "exec_count aid (sys_log s) \<le> 1"
  using reachable_once [OF assms(1), of aid] assms(2) by (simp add: once_def gated_only_def)

theorem action_runs_at_most_once_witness:
  "\<exists>s. reachable demo_env demo_registry s \<and> has_executed (sys_log s) ''act_1'' \<and>
     exec_count ''act_1'' (sys_log s) \<le> 1"
proof -
  obtain s where s: "reachable demo_env demo_registry s" "sys_log s = fst (snd demo_executed)"
    using demo_reachable by blast
  have "\<forall>e \<in> set (events (sys_log s)). dict_get (ev_detail e) ''risk_tier'' \<noteq> Some (PStr (tier_value READ))"
    using demo_outcomes(8) unfolding s(2) by (auto simp: map_eq_Cons_conv)
  then have "exec_count ''act_1'' (sys_log s) \<le> 1" using action_runs_at_most_once [OF s(1)] by blast
  moreover have "has_executed (sys_log s) ''act_1''"
    using demo_outcomes(7) exec_count_0 [of "''act_1''" "sys_log s"] s(2) by auto
  ultimately show ?thesis using s(1) by blast
qed

text \<open>C9: the log of a running system always verifies. In every reachable state \<open>verify_chain\<close> accepts
  the log, and every step only appends to it.\<close>

theorem running_log_verifies:
  assumes "reachable env reg s" "step env reg s s'"
  shows "cv_ok (verify_chain env (sys_log s')) \<and> (\<exists>es. events (sys_log s') = events (sys_log s) @ es)"
  using step_appends [OF reachable_ok [OF assms(1)] assms(2)] reachable_ok [OF reachable.step [OF assms]]
  by (simp add: verify_chain_ok system_ok_def)

theorem running_log_verifies_witness:
  "\<exists>s s'. reachable demo_env demo_registry s \<and> has_executed (sys_log s) ''act_1'' \<and>
     step demo_env demo_registry s s' \<and> cv_ok (verify_chain demo_env (sys_log s'))"
proof -
  obtain s where s: "reachable demo_env demo_registry s" "sys_log s = fst (snd demo_executed)"
    using demo_reachable by blast
  have "has_executed (sys_log s) ''act_1''"
    using demo_outcomes(7) exec_count_0 [of "''act_1''" "sys_log s"] s(2) by auto
  with s(1) show ?thesis using running_log_verifies [OF s(1) step.start] step.start by blast
qed

end
