(* ===== verification/Interface.thy ===== *)
theory Interface
  imports Graph
begin

text \<open>
  The HTTP interface: identity (\<^verbatim>\<open>src/src/atlas/interface/auth.py\<close>, \<^verbatim>\<open>security.py\<close>), request and response
  shapes (\<^verbatim>\<open>schemas.py\<close>), rate limiting (\<^verbatim>\<open>rate_limit.py\<close>), the resume pre-checks of \<^verbatim>\<open>resume_lock.py\<close> and
  the handlers of \<^verbatim>\<open>routes.py\<close> with the error envelope of \<^verbatim>\<open>app.py\<close>.

  A handler returns \<open>Inl\<close> of an HTTP error or of an unhandled exception, or \<open>Inr\<close> of its answer. Token
  verification (PyJWT), the rate limiting backend, the clock and the digest are parameters. Header
  names are compared in lower case, as the framework does.
\<close>

section \<open>Requests and errors\<close>

datatype http_exc = Http nat string | Invalid string | Unhandled exn

type_synonym 'a reply = "http_exc + 'a"

definition reply_bind :: "'a reply \<Rightarrow> ('a \<Rightarrow> 'b reply) \<Rightarrow> 'b reply" where
  "reply_bind r f = (case r of Inl e \<Rightarrow> Inl e | Inr x \<Rightarrow> f x)"

lemma reply_bind_simps [simp]: "reply_bind (Inl e) f = Inl e" "reply_bind (Inr x) f = f x"
  by (simp_all add: reply_bind_def)

lemma reply_bind_Inr_iff: "reply_bind r f = Inr y \<longleftrightarrow> (\<exists>x. r = Inr x \<and> f x = Inr y)"
  by (cases r) auto

record request =
  hr_headers :: "string dict"
  hr_client :: "string option"

definition header :: "request \<Rightarrow> string \<Rightarrow> string" where
  "header rq name = (case dict_get (hr_headers rq) (lower name) of None \<Rightarrow> [] | Some v \<Rightarrow> v)"

text \<open>The envelope of every error answer: status, code and message.\<close>

definition error_body :: "(nat \<Rightarrow> string option) \<Rightarrow> http_exc \<Rightarrow> nat \<times> string \<times> string" where
  "error_body status_name e =
     (case e of
        Http status detail \<Rightarrow> (status, case status_name status of None \<Rightarrow> ''error'' | Some n \<Rightarrow> n, detail)
      | Invalid msg \<Rightarrow> (422, ''validation_error'', msg)
      | Unhandled _ \<Rightarrow> (500, ''internal_error'', ''Internal server error.''))"

section \<open>Identity\<close>

text \<open>An authenticator: key lookup and token verification with the classes of exceptions they are
  documented to raise, and the configured claim names.\<close>

record oidc =
  oi_get_key :: "string \<Rightarrow> string result"
  oi_decode :: "string \<Rightarrow> string \<Rightarrow> pydict result"
  oi_is_jwk_error :: "exn \<Rightarrow> bool"
  oi_is_jwt_error :: "exn \<Rightarrow> bool"
  oi_user_claim :: string
  oi_roles_claim :: string
  oi_org_claim :: string
  oi_email_claim :: string

definition verified_claims :: "oidc \<Rightarrow> string \<Rightarrow> pydict result" where
  "verified_claims a token =
     (case oi_get_key a token of
        Inl e \<Rightarrow> Inl (if oi_is_jwk_error a e then Exn ''AuthDependencyError'' ''authentication service unavailable'' else e)
      | Inr key \<Rightarrow>
          (case oi_decode a token key of
             Inl e \<Rightarrow> Inl (if oi_is_jwt_error a e then Exn ''AuthError'' ''invalid or expired token'' else e)
           | Inr claims \<Rightarrow> Inr claims))"

definition parse_roles :: "pyval \<Rightarrow> string list" where
  "parse_roles raw = (case raw of
     PStr s \<Rightarrow> split_ws (map (\<lambda>c. if c = CHR '','' then CHR '' '' else c) s)
   | PList xs \<Rightarrow> filter (\<lambda>r. r \<noteq> []) (map (\<lambda>x. strip (py_str x)) xs)
   | _ \<Rightarrow> [])"

definition none_if_blank :: "string \<Rightarrow> string option" where
  "none_if_blank s = (if strip s = [] then None else Some (strip s))"

definition email_from_token :: "oidc \<Rightarrow> string \<Rightarrow> string option result" where
  "email_from_token a token =
     result_bind (verified_claims a token) (\<lambda>claims.
       Inr (case get_default claims (oi_email_claim a) PNone of
              PNone \<Rightarrow> None
            | v \<Rightarrow> none_if_blank (py_str v)))"

definition principal_from_token :: "oidc \<Rightarrow> string \<Rightarrow> principal result" where
  "principal_from_token a token =
     result_bind (verified_claims a token) (\<lambda>claims.
       let v = get_default claims (oi_user_claim a) PNone;
           uid = strip (if truthy v then py_str v else [])
       in if uid = [] then Inl (Exn ''AuthError'' ''token missing subject'')
          else if uid = user_id anonymous then Inl (Exn ''AuthError'' ''reserved subject'')
          else Inr \<lparr>user_id = uid, roles = parse_roles (get_default claims (oi_roles_claim a) PNone),
                    org_id = (case get_default claims (oi_org_claim a) PNone of
                       PNone \<Rightarrow> None | x \<Rightarrow> none_if_blank (py_str x))\<rparr>)"

definition bearer_token :: "request \<Rightarrow> string option" where
  "bearer_token rq =
     (let h = header rq ''Authorization'';
          token = after_first (CHR '' '') h
      in if lower (before_first (CHR '' '') h) \<noteq> ''bearer'' \<or> strip token = [] then None
         else Some (strip token))"

record header_names =
  hn_user :: string
  hn_roles :: string
  hn_org :: string

definition principal_from_headers :: "header_names \<Rightarrow> request \<Rightarrow> principal" where
  "principal_from_headers hn rq =
     (let uid = strip (header rq (hn_user hn))
      in if uid = [] \<or> uid = user_id anonymous then anonymous
         else \<lparr>user_id = uid,
               roles = filter (\<lambda>r. r \<noteq> []) (map strip (split_on (CHR '','') (header rq (hn_roles hn)))),
               org_id = none_if_blank (header rq (hn_org hn))\<rparr>)"

definition get_request_principal :: "oidc option \<Rightarrow> header_names \<Rightarrow> request \<Rightarrow> principal reply" where
  "get_request_principal authenticator hn rq =
     (case authenticator of
        None \<Rightarrow> Inr (principal_from_headers hn rq)
      | Some a \<Rightarrow>
          (case bearer_token rq of
             None \<Rightarrow> Inl (Http 401 ''Missing bearer token.'')
           | Some token \<Rightarrow>
               (case principal_from_token a token of
                  Inr p \<Rightarrow> Inr p
                | Inl e \<Rightarrow>
                    Inl (if exc_class e = ''AuthDependencyError''
                         then Http 503 ''Authentication service temporarily unavailable.''
                         else if exc_class e = ''AuthError'' then Http 401 ''Invalid or expired token.''
                         else Unhandled e))))"

definition verify_thread_owner :: "principal option \<Rightarrow> principal \<Rightarrow> unit reply" where
  "verify_thread_owner owner caller =
     (if caller = anonymous then Inl (Http 403 ''Authentication required for thread access.'')
      else if owner = Some anonymous then Inl (Http 403 ''Authentication required for thread access.'')
      else (case owner of
              None \<Rightarrow> Inl (Http 403 ''You do not have access to this thread.'')
            | Some o' \<Rightarrow>
                if user_id o' \<noteq> user_id caller \<or> org_id o' \<noteq> org_id caller
                then Inl (Http 403 ''You do not have access to this thread.'')
                else Inr ()))"

section \<open>Rate limiting\<close>

record rate_decision =
  rd_allowed :: bool
  rd_retry_after :: real

text \<open>The backend answers with a permission and the end of the window, or fails; a failure allows.\<close>

definition upstash_acquire :: "(string \<Rightarrow> 'w \<Rightarrow> (bool \<times> real) result \<times> 'w) \<Rightarrow> real \<Rightarrow> string \<Rightarrow> 'w \<Rightarrow> rate_decision \<times> 'w" where
  "upstash_acquire limit now key w =
     (case limit key w of
        (Inl _, w') \<Rightarrow> (\<lparr>rd_allowed = True, rd_retry_after = 0\<rparr>, w')
      | (Inr (allowed, reset), w') \<Rightarrow>
          (if allowed then \<lparr>rd_allowed = True, rd_retry_after = 0\<rparr>
           else \<lparr>rd_allowed = False, rd_retry_after = max 0 (reset - now)\<rparr>, w'))"

text \<open>\<open>json.dumps\<close> with its default \<open>ensure_ascii\<close>: everything outside the printable ASCII range is escaped.\<close>

definition json_char_ascii :: "char \<Rightarrow> string" where
  "json_char_ascii c = (if 127 \<le> cp c then [CHR 0x5C, CHR ''u'', CHR ''0'', CHR ''0''] @ hex2 (cp c) else json_char c)"

definition json_quote_ascii :: "string \<Rightarrow> string" where
  "json_quote_ascii s = CHR 0x22 # concat (map json_char_ascii s) @ [CHR 0x22]"

definition principal_payload :: "principal \<Rightarrow> string" where
  "principal_payload p =
     ''{'' @ json_quote_ascii ''org_id'' @ '':'' @ (case org_id p of None \<Rightarrow> ''null'' | Some s \<Rightarrow> json_quote_ascii s)
     @ '','' @ json_quote_ascii ''user_id'' @ '':'' @ json_quote_ascii (user_id p) @ ''}''"

definition identified_principal_key :: "(string \<Rightarrow> string) \<Rightarrow> principal \<Rightarrow> string" where
  "identified_principal_key digest p = ''u|'' @ digest (principal_payload p)"

definition rate_limit_key :: "(string \<Rightarrow> string) \<Rightarrow> principal \<Rightarrow> request \<Rightarrow> string" where
  "rate_limit_key digest p rq =
     (if p = anonymous then ''ip|'' @ (case hr_client rq of None \<Rightarrow> ''unknown'' | Some h \<Rightarrow> h)
      else identified_principal_key digest p)"

text \<open>\<open>None\<close> stands for a disabled limiter. The number is the \<open>Retry-After\<close> header of a 429.\<close>

definition enforce_rate_limit :: "(string \<Rightarrow> string) \<Rightarrow> (string \<Rightarrow> 'w \<Rightarrow> rate_decision \<times> 'w) option \<Rightarrow> request \<Rightarrow> principal
    \<Rightarrow> 'w \<Rightarrow> (http_exc \<times> int + unit) \<times> 'w" where
  "enforce_rate_limit digest limiter rq p w =
     (case limiter of
        None \<Rightarrow> (Inr (), w)
      | Some acquire \<Rightarrow>
          (case acquire (rate_limit_key digest p rq) w of
             (d, w') \<Rightarrow>
               (if \<not> rd_allowed d then Inl (Http 429 ''Rate limit exceeded.'', \<lceil>rd_retry_after d\<rceil>) else Inr (), w')))"

definition enforce_rate_limit_by_ip :: "(string \<Rightarrow> string) \<Rightarrow> (string \<Rightarrow> 'w \<Rightarrow> rate_decision \<times> 'w) option \<Rightarrow> request
    \<Rightarrow> 'w \<Rightarrow> (http_exc \<times> int + unit) \<times> 'w" where
  "enforce_rate_limit_by_ip digest limiter rq w = enforce_rate_limit digest limiter rq anonymous w"

section \<open>Resuming a thread\<close>

record approve_request =
  aq_thread :: string
  aq_approve :: "bool option"
  aq_approved :: "string list"
  aq_rejected :: "string list"

definition validate_decisions :: "approve_request \<Rightarrow> approve_request result" where
  "validate_decisions b =
     (if aq_thread b = [] then Inl (Exn ''ValidationError'' ''String should have at least 1 character'')
      else if aq_approve b = None \<and> aq_approved b = [] \<and> aq_rejected b = []
      then Inl (Exn ''ValueError'' ''provide `approve` or `approved_ids`/`rejected_ids`'')
      else if aq_approve b \<noteq> None \<and> (aq_approved b \<noteq> [] \<or> aq_rejected b \<noteq> [])
      then Inl (Exn ''ValueError'' ''use either `approve` or `approved_ids`/`rejected_ids`, not both'')
      else if set (aq_approved b) \<inter> set (aq_rejected b) \<noteq> {}
      then Inl (Exn ''ValueError'' ''an action_id cannot appear in both `approved_ids` and `rejected_ids`'')
      else Inr b)"

definition is_awaiting_approval :: "thread \<Rightarrow> bool" where
  "is_awaiting_approval th = (th_next th = Approval)"

definition decision :: "string \<Rightarrow> bool \<Rightarrow> string \<Rightarrow> pyval" where
  "decision aid ok by_whom = PDict [(''action_id'', PStr aid), (''approved'', PBool ok), (''decided_by'', PStr by_whom)]"

definition decision_payload :: "approve_request \<Rightarrow> thread \<Rightarrow> principal \<Rightarrow> pyval list" where
  "decision_payload b th caller =
     (case aq_approve b of
        Some ok \<Rightarrow> map (\<lambda>a. decision (pa_id a) ok (user_id caller)) (gated_actions (th_state th))
      | None \<Rightarrow>
          map (\<lambda>aid. decision aid True (user_id caller)) (aq_approved b) @
          map (\<lambda>aid. decision aid False (user_id caller)) (aq_rejected b))"

text \<open>The checks that \<open>gate_resume\<close> makes while it holds the lock.\<close>

definition gate_check :: "thread option \<Rightarrow> principal \<Rightarrow> approve_request \<Rightarrow> pyval list reply" where
  "gate_check snapshot p b =
     (case snapshot of
        None \<Rightarrow> Inl (Http 404 ''Thread not found.'')
      | Some th \<Rightarrow>
          reply_bind (verify_thread_owner (st_principal (th_state th)) p) (\<lambda>_.
            if \<not> is_awaiting_approval th then Inl (Http 409 ''Thread is not awaiting approval.'')
            else Inr (decision_payload b th p)))"

section \<open>Answers\<close>

definition opt_val :: "string option \<Rightarrow> pyval" where
  "opt_val s = (case s of None \<Rightarrow> PNone | Some x \<Rightarrow> PStr x)"

definition action_dump :: "proposed_action \<Rightarrow> pydict" where
  "action_dump a = [(''action_id'', PStr (pa_id a)), (''tool'', PStr (pa_tool a)), (''args'', PDict (pa_args a)),
     (''risk_tier'', PStr (tier_value (pa_tier a))), (''rationale'', PStr (pa_rationale a)),
     (''required_permission'', opt_val (pa_permission a))]"

definition result_dump :: "action_result \<Rightarrow> pydict" where
  "result_dump r = [(''action_id'', PStr (ar_id r)), (''tool'', PStr (ar_tool r)), (''ok'', PBool (ar_ok r)),
     (''output'', ar_output r), (''error'', opt_val (ar_error r))]"

definition source_dump :: "source \<Rightarrow> pydict" where
  "source_dump s = [(''kind'', PStr (case so_kind s of TOOL \<Rightarrow> ''tool'' | KNOWLEDGE \<Rightarrow> ''knowledge'')),
     (''ref'', PStr (so_ref s)), (''label'', PStr (so_label s))]"

datatype turn_status = Completed | Awaiting_Approval | In_Progress

record agent_response =
  rp_status :: turn_status
  rp_thread :: string
  rp_response :: "string option"
  rp_pending :: "pydict list"
  rp_sources :: "pydict list"
  rp_confidence :: "real option"
  rp_results :: "pydict list"

definition empty_response :: "turn_status \<Rightarrow> string \<Rightarrow> agent_response" where
  "empty_response st tid = \<lparr>rp_status = st, rp_thread = tid, rp_response = None, rp_pending = [], rp_sources = [],
     rp_confidence = None, rp_results = []\<rparr>"

definition last_ai_text :: "msg list \<Rightarrow> string option" where
  "last_ai_text ms = (if ms = [] then None else Some (case last ms of Human t \<Rightarrow> t | AI t \<Rightarrow> t))"

definition completed_response :: "string \<Rightarrow> agent_state \<Rightarrow> agent_response" where
  "completed_response tid st = (empty_response Completed tid)
     \<lparr>rp_response := last_ai_text (st_messages st), rp_sources := map source_dump (st_sources st),
      rp_confidence := st_confidence st, rp_results := map result_dump (st_results st)\<rparr>"

definition awaiting_response :: "string \<Rightarrow> agent_state \<Rightarrow> agent_response" where
  "awaiting_response tid st =
     (empty_response Awaiting_Approval tid)\<lparr>rp_pending := map action_dump (gated_actions st)\<rparr>"

text \<open>\<open>graph.invoke\<close> returns at the interrupt (the thread then waits at \<open>Approval\<close>) or with the final state.\<close>

definition response_from_invoke :: "string \<Rightarrow> thread \<Rightarrow> agent_response" where
  "response_from_invoke tid th =
     (if is_awaiting_approval th then awaiting_response tid (th_state th) else completed_response tid (th_state th))"

definition response_from_snapshot :: "string \<Rightarrow> thread \<Rightarrow> agent_response" where
  "response_from_snapshot tid th =
     (if is_awaiting_approval th then awaiting_response tid (th_state th)
      else if th_next th \<noteq> End then empty_response In_Progress tid
      else completed_response tid (th_state th))"

definition get_thread :: "(string \<Rightarrow> thread option) \<Rightarrow> string \<Rightarrow> principal \<Rightarrow> agent_response reply" where
  "get_thread threads tid p =
     (case threads tid of
        None \<Rightarrow> Inl (Http 404 ''Thread not found.'')
      | Some th \<Rightarrow>
          reply_bind (verify_thread_owner (st_principal (th_state th)) p) (\<lambda>_. Inr (response_from_snapshot tid th)))"

text \<open>The handlers that run the graph, over \<open>invoke\<close>: the run of a thread until it waits, ends or raises,
  with its effect on the rest of the system. A fresh thread id is an argument.\<close>

definition chat :: "(string \<Rightarrow> thread \<Rightarrow> 's \<Rightarrow> thread result \<times> 's) \<Rightarrow> string \<Rightarrow> string \<Rightarrow> principal \<Rightarrow> 's
    \<Rightarrow> agent_response reply \<times> 's" where
  "chat invoke fresh message p s =
     (if message = [] then (Inl (Invalid ''String should have at least 1 character''), s)
      else case invoke fresh (start_turn None message (Some p)) s of
             (Inl e, s') \<Rightarrow> (Inl (Unhandled e), s')
           | (Inr th, s') \<Rightarrow> (Inr (response_from_invoke fresh th), s'))"

definition approve :: "(string \<Rightarrow> thread \<Rightarrow> pyval \<Rightarrow> 's \<Rightarrow> thread result \<times> 's) \<Rightarrow> ('s \<Rightarrow> string \<Rightarrow> thread option)
    \<Rightarrow> approve_request \<Rightarrow> principal \<Rightarrow> 's \<Rightarrow> agent_response reply \<times> 's" where
  "approve resume threads b p s =
     (case validate_decisions b of
        Inl e \<Rightarrow> (Inl (Invalid (if exc_class e = ''ValueError'' then ''Value error, '' @ exc_msg e else exc_msg e)), s)
      | Inr b \<Rightarrow>
          (case gate_check (threads s (aq_thread b)) p b of
             Inl e \<Rightarrow> (Inl e, s)
           | Inr decisions \<Rightarrow>
               (case threads s (aq_thread b) of
                  None \<Rightarrow> (Inl (Http 404 ''Thread not found.''), s)
                | Some th \<Rightarrow>
                    (case resume (aq_thread b) th (PList decisions) s of
                       (Inl e, s') \<Rightarrow> (Inl (Unhandled e), s')
                     | (Inr th', s') \<Rightarrow> (Inr (response_from_invoke (aq_thread b) th'), s')))))"

section \<open>Streaming\<close>

text \<open>The body of an event stream, given the chunks that the graph run yields: either the text of a
  model chunk with the node it comes from, an update with the node names it carries, or the
  interrupt.\<close>

datatype chunk = Message pyval string | Updates "string list" | Interrupt

datatype sse = Sse_Open string | Sse_Node string | Sse_Token string | Sse_Awaiting agent_response
  | Sse_Completed agent_response | Sse_Error | Sse_Done

definition sse_chunk_text :: "pyval \<Rightarrow> string" where
  "sse_chunk_text content = (case content of
     PStr s \<Rightarrow> s
   | PList blocks \<Rightarrow>
       concat (map (\<lambda>b. case b of
           PStr s \<Rightarrow> s
         | PDict d \<Rightarrow> (case get_default d ''text'' (PStr []) of PStr s \<Rightarrow> s | _ \<Rightarrow> [])
         | _ \<Rightarrow> []) blocks)
   | _ \<Rightarrow> [])"

text \<open>The loop over the chunks; the flag tells whether it stopped at an interrupt.\<close>

fun stream_chunks :: "string \<Rightarrow> thread \<Rightarrow> chunk list \<Rightarrow> sse list \<times> bool" where
  "stream_chunks tid final [] = ([], False)"
| "stream_chunks tid final (Message content n # cs) =
     (let (es, awaiting) = stream_chunks tid final cs
      in if n \<noteq> ''responder'' \<or> sse_chunk_text content = [] then (es, awaiting)
         else (Sse_Token (sse_chunk_text content) # es, awaiting))"
| "stream_chunks tid final (Updates ns # cs) =
     (let (es, awaiting) = stream_chunks tid final cs
      in (map Sse_Node (filter (\<lambda>n. \<not> startswith n ''__'') ns) @ es, awaiting))"
| "stream_chunks tid final (Interrupt # cs) = ([Sse_Awaiting (awaiting_response tid (th_state final))], True)"

text \<open>\<open>raised\<close>: the producer raised after these chunks. \<open>final\<close> is the checkpoint read at the end.\<close>

definition stream_lifecycle :: "string \<Rightarrow> chunk list \<Rightarrow> bool \<Rightarrow> thread \<Rightarrow> sse list" where
  "stream_lifecycle tid cs raised final =
     (let (es, awaiting) = stream_chunks tid final cs
      in [Sse_Open tid] @ es @
         (if raised then [Sse_Error]
          else if awaiting then [] else [Sse_Completed (response_from_snapshot tid final)]) @ [Sse_Done])"

section \<open>Identity lemmas\<close>

lemma none_if_blank_Some: "none_if_blank s = Some t \<Longrightarrow> strip t = t \<and> t \<noteq> []"
  by (auto simp: none_if_blank_def split: if_splits)

text \<open>A resolved identity is the anonymous one or has a real user name and no blank organisation.\<close>

definition identified :: "principal \<Rightarrow> bool" where
  "identified p \<longleftrightarrow> user_id p \<noteq> [] \<and> user_id p \<noteq> user_id anonymous \<and> strip (user_id p) = user_id p \<and>
     (\<forall>oid. org_id p = Some oid \<longrightarrow> strip oid = oid \<and> oid \<noteq> [])"

lemma token_identified: "principal_from_token a token = Inr p \<Longrightarrow> identified p"
  by (auto simp: principal_from_token_def result_bind_Inr_iff identified_def Let_def
      dest: none_if_blank_Some split: if_splits pyval.splits)

lemma headers_identified: "principal_from_headers hn rq = anonymous \<or> identified (principal_from_headers hn rq)"
  by (auto simp: principal_from_headers_def identified_def Let_def dest: none_if_blank_Some)

lemma verify_thread_owner_Inr:
  "verify_thread_owner owner caller = Inr () \<longleftrightarrow>
   caller \<noteq> anonymous \<and> (\<exists>ow. owner = Some ow \<and> ow \<noteq> anonymous \<and> user_id ow = user_id caller \<and> org_id ow = org_id caller)"
  by (auto simp: verify_thread_owner_def split: option.splits)

lemma verify_thread_owner_Inl: "verify_thread_owner owner caller = Inl e \<Longrightarrow> \<exists>d. e = Http 403 d"
  by (auto simp: verify_thread_owner_def split: option.splits if_splits)

lemma verify_cases:
  obtains d where "verify_thread_owner owner caller = Inl (Http 403 d)" | "verify_thread_owner owner caller = Inr ()"
  using verify_thread_owner_Inl by (cases "verify_thread_owner owner caller") (auto, metis)

section \<open>Decisions that reach the approval node\<close>

lemma in_ids_PStr [simp]: "in_ids (PStr s) ids = Inr (s \<in> set ids)"
  by (simp add: in_ids_def)

lemma parse_decision_list:
  "parse_items (map (\<lambda>(aid, ok). decision aid ok by_whom) xs) ids =
   Inr (map (\<lambda>(aid, ok). mk_decision aid ok by_whom) (filter (\<lambda>(aid, ok). aid \<in> set ids) xs))"
  by (induction xs) (auto simp: decision_def get_default_def py_str_def truthy_def)

definition decided_pairs :: "approve_request \<Rightarrow> thread \<Rightarrow> (string \<times> bool) list" where
  "decided_pairs b th = (case aq_approve b of
     Some ok \<Rightarrow> map (\<lambda>a. (pa_id a, ok)) (gated_actions (th_state th))
   | None \<Rightarrow> map (\<lambda>aid. (aid, True)) (aq_approved b) @ map (\<lambda>aid. (aid, False)) (aq_rejected b))"

lemma decision_payload_pairs:
  "decision_payload b th caller = map (\<lambda>(aid, ok). decision aid ok (user_id caller)) (decided_pairs b th)"
  by (simp add: decision_payload_def decided_pairs_def split: option.splits)

lemma parse_decision_payload:
  "parse_decisions (PList (decision_payload b th caller)) (map pa_id (gated_actions (th_state th))) =
   Inr (map (\<lambda>(aid, ok). mk_decision aid ok (user_id caller))
     (filter (\<lambda>(aid, ok). aid \<in> pa_id ` set (gated_actions (th_state th))) (decided_pairs b th)))"
  using parse_decision_list by (simp add: parse_decisions_def decision_payload_pairs)

section \<open>Rate limit keys\<close>

lemma json_unchar_ascii: "json_unchar (json_char_ascii c @ x) = Some (c, x)"
proof -
  have "cp c div 16 < 16" using cp_less_256 [of c] by linarith
  then show ?thesis using json_unchar_json_char [of c x]
    by (auto simp: json_char_ascii_def hex2_def)
qed

lemma prefix_code_ascii: "prefix_code json_char_ascii"
  by (rule prefix_code_by_decoder [OF json_unchar_ascii]) (auto simp: json_char_ascii_def json_char_def Let_def)

lemma hd_json_char_ascii: "hd (json_char_ascii c) \<noteq> CHR 0x22"
  using hd_json_char [of c] by (simp add: json_char_ascii_def)

lemma json_quote_ascii_inject: "json_quote_ascii s @ x = json_quote_ascii t @ y \<longleftrightarrow> s = t \<and> x = y"
  using prefix_code_term_inject [OF prefix_code_ascii hd_json_char_ascii, of s x t y]
  by (auto simp: json_quote_ascii_def)

lemma principal_payload_inject:
  assumes "principal_payload p = principal_payload q"
  shows "org_id p = org_id q \<and> user_id p = user_id q"
proof (cases "org_id p"; cases "org_id q")
  assume "org_id p = None" "org_id q = None"
  with assms json_quote_ascii_inject [of "user_id p" "''}''" "user_id q" "''}''"] show ?thesis
    by (simp add: principal_payload_def)
next
  fix s assume "org_id p = None" "org_id q = Some s"
  with assms show ?thesis by (simp add: principal_payload_def json_quote_ascii_def)
next
  fix s assume "org_id p = Some s" "org_id q = None"
  with assms show ?thesis by (simp add: principal_payload_def json_quote_ascii_def)
next
  fix s u assume o: "org_id p = Some s" "org_id q = Some u"
  let ?r = "\<lambda>x. '','' @ json_quote_ascii ''user_id'' @ '':'' @ json_quote_ascii x @ ''}''"
  from assms o have "json_quote_ascii s @ ?r (user_id p) = json_quote_ascii u @ ?r (user_id q)"
    by (simp add: principal_payload_def)
  then have "s = u" "?r (user_id p) = ?r (user_id q)" by (simp_all only: json_quote_ascii_inject)
  with o json_quote_ascii_inject [of "user_id p" "''}''" "user_id q" "''}''"] show ?thesis by simp
qed

section \<open>Properties\<close>

text \<open>C29: only the owner can resume a thread. The pre-checks of a resume pass only if the thread exists,
  waits for approval, and was started by an identified principal with the caller's user and
  organisation. Whoever is not the owner gets the same 403 whatever the thread is doing, and reads
  (\<open>/threads\<close>) are guarded in the same way.\<close>

theorem resume_owner_only:
  "(gate_check snapshot p b = Inr ds) =
     (\<exists>th ow. snapshot = Some th \<and> th_next th = Approval \<and> st_principal (th_state th) = Some ow \<and>
        ow \<noteq> anonymous \<and> p \<noteq> anonymous \<and> user_id ow = user_id p \<and> org_id ow = org_id p \<and>
        ds = decision_payload b th p) \<and>
   (st_principal (th_state th1) = st_principal (th_state th2) \<and>
      \<not> (\<exists>ow. st_principal (th_state th1) = Some ow \<and> user_id ow = user_id p \<and> org_id ow = org_id p) \<longrightarrow>
      (\<exists>d. gate_check (Some th1) p b = Inl (Http 403 d) \<and> gate_check (Some th2) p b = Inl (Http 403 d))) \<and>
   (get_thread threads tid p = Inr r \<longrightarrow>
      (\<exists>th ow. threads tid = Some th \<and> st_principal (th_state th) = Some ow \<and> p \<noteq> anonymous \<and>
         user_id ow = user_id p \<and> org_id ow = org_id p))"
proof (intro conjI impI)
  show "(gate_check snapshot p b = Inr ds) =
     (\<exists>th ow. snapshot = Some th \<and> th_next th = Approval \<and> st_principal (th_state th) = Some ow \<and>
        ow \<noteq> anonymous \<and> p \<noteq> anonymous \<and> user_id ow = user_id p \<and> org_id ow = org_id p \<and>
        ds = decision_payload b th p)"
    by (auto simp: gate_check_def reply_bind_Inr_iff verify_thread_owner_Inr is_awaiting_approval_def split: option.splits)
  assume a: "st_principal (th_state th1) = st_principal (th_state th2) \<and>
      \<not> (\<exists>ow. st_principal (th_state th1) = Some ow \<and> user_id ow = user_id p \<and> org_id ow = org_id p)"
  then have "verify_thread_owner (st_principal (th_state th1)) p \<noteq> Inr ()" by (auto simp: verify_thread_owner_Inr)
  then obtain d where "verify_thread_owner (st_principal (th_state th1)) p = Inl (Http 403 d)"
    by (metis verify_cases)
  with a show "\<exists>d. gate_check (Some th1) p b = Inl (Http 403 d) \<and> gate_check (Some th2) p b = Inl (Http 403 d)"
    by (simp add: gate_check_def)
next
  assume "get_thread threads tid p = Inr r"
  then show "\<exists>th ow. threads tid = Some th \<and> st_principal (th_state th) = Some ow \<and> p \<noteq> anonymous \<and>
         user_id ow = user_id p \<and> org_id ow = org_id p"
    by (auto simp: get_thread_def reply_bind_Inr_iff verify_thread_owner_Inr split: option.splits)
qed

definition demo_paused :: thread where
  "demo_paused = \<lparr>th_state = (initial_state ''hi'' (Some demo_member))\<lparr>st_proposed := [demo_action]\<rparr>, th_next = Approval\<rparr>"

definition demo_request :: approve_request where
  "demo_request = \<lparr>aq_thread = ''t'', aq_approve = None, aq_approved = [''act_1'', ''act_9''], aq_rejected = []\<rparr>"

theorem resume_owner_only_witness:
  "gate_check (Some demo_paused) demo_member demo_request = Inr (decision_payload demo_request demo_paused demo_member) \<and>
   (\<exists>d. gate_check (Some demo_paused) (demo_member\<lparr>user_id := ''mallory''\<rparr>) demo_request = Inl (Http 403 d))"
proof
  show "gate_check (Some demo_paused) demo_member demo_request = Inr (decision_payload demo_request demo_paused demo_member)"
    by code_simp
  show "\<exists>d. gate_check (Some demo_paused) (demo_member\<lparr>user_id := ''mallory''\<rparr>) demo_request = Inl (Http 403 d)"
    using resume_owner_only [of None "demo_member\<lparr>user_id := ''mallory''\<rparr>" demo_request "[]" demo_paused demo_paused
        "\<lambda>_. None" "[]" "empty_response Completed []"]
    by (auto simp: demo_paused_def initial_state_def demo_member_def)
qed

text \<open>C30: what the owner decides is what the graph receives. For a well-formed request, resuming with the
  payload of the gate approves exactly the pending gated actions that the request approves (all or none
  for the blanket form) and rejects exactly those it rejects, no action is both, ids that are not
  pending are ignored, and the log names the caller as the one who decided.\<close>

theorem approval_request_means_what_it_says:
  assumes "validate_decisions b = Inr b'" "gate_check (Some th) p b' = Inr ds"
  shows "\<exists>st lg'. approval_node env (th_state th) (PList ds) lg = (Inr st, lg') \<and>
    (let gated = {pa_id a |a. a \<in> set (st_proposed (th_state th)) \<and> pa_tier a \<noteq> READ} in
      set (st_approved st) = (case aq_approve b of Some ok \<Rightarrow> if ok then gated else {} | None \<Rightarrow> gated \<inter> set (aq_approved b)) \<and>
      set (st_rejected st) = (case aq_approve b of Some ok \<Rightarrow> if ok then {} else gated | None \<Rightarrow> gated \<inter> set (aq_rejected b))) \<and>
    set (st_approved st) \<inter> set (st_rejected st) = {} \<and>
    (\<exists>ds'. lg' = foldl (decided env) lg ds' \<and> (\<forall>d \<in> set ds'. ad_by d = user_id p))"
proof -
  let ?ids = "map pa_id (gated_actions (th_state th))"
  let ?prs = "filter (\<lambda>(aid, ok). aid \<in> pa_id ` set (gated_actions (th_state th))) (decided_pairs b th)"
  let ?ds = "map (\<lambda>(aid, ok). mk_decision aid ok (user_id p)) ?prs"
  have b: "b' = b" "set (aq_approved b) \<inter> set (aq_rejected b) = {}"
    using assms(1) by (auto simp: validate_decisions_def split: if_splits)
  have "ds = decision_payload b th p"
    using assms(2) b(1) by (auto simp: gate_check_def reply_bind_Inr_iff split: if_splits)
  then have pd: "parse_decisions (PList ds) ?ids = Inr ?ds" using parse_decision_payload by simp
  define st where "st = (th_state th)\<lparr>st_approved := map ad_id (filter ad_approved ?ds),
      st_rejected := map ad_id (filter (\<lambda>d. \<not> ad_approved d) ?ds)\<rparr>"
  have node: "approval_node env (th_state th) (PList ds) lg = (Inr st, foldl (decided env) lg ?ds)"
    using pd by (simp add: approval_node_def Let_def st_def)
  have ap: "set (st_approved st) = {aid. (aid, True) \<in> set ?prs}" "set (st_rejected st) = {aid. (aid, False) \<in> set ?prs}"
    by (force simp: st_def mk_decision_def)+
  let ?g = "{pa_id a |a. a \<in> set (st_proposed (th_state th)) \<and> pa_tier a \<noteq> READ}"
  have g: "pa_id ` set (gated_actions (th_state th)) = ?g" using gated_ids [of "th_state th"] by simp
  have "set (st_approved st) = (case aq_approve b of Some ok \<Rightarrow> if ok then ?g else {} | None \<Rightarrow> ?g \<inter> set (aq_approved b))"
    "set (st_rejected st) = (case aq_approve b of Some ok \<Rightarrow> if ok then {} else ?g | None \<Rightarrow> ?g \<inter> set (aq_rejected b))"
    unfolding ap g [symmetric] by (auto simp: decided_pairs_def split: option.splits)
  moreover from this b(2) have "set (st_approved st) \<inter> set (st_rejected st) = {}"
    by (auto split: option.splits if_splits)
  moreover have "\<forall>d \<in> set ?ds. ad_by d = user_id p" by (auto simp: mk_decision_def)
  ultimately show ?thesis unfolding Let_def using node by blast
qed

theorem approval_request_means_what_it_says_witness:
  "\<exists>st lg'. approval_node demo_env (th_state demo_paused) (PList (decision_payload demo_request demo_paused demo_member)) []
     = (Inr st, lg') \<and> set (st_approved st) = {''act_1''}"
proof -
  have v: "validate_decisions demo_request = Inr demo_request" by code_simp
  have g: "gate_check (Some demo_paused) demo_member demo_request = Inr (decision_payload demo_request demo_paused demo_member)"
    by code_simp
  obtain st lg' where st: "approval_node demo_env (th_state demo_paused)
      (PList (decision_payload demo_request demo_paused demo_member)) [] = (Inr st, lg')"
      "set (st_approved st) = {pa_id a |a. a \<in> set (st_proposed (th_state demo_paused)) \<and> pa_tier a \<noteq> READ} \<inter> {''act_1'', ''act_9''}"
    using approval_request_means_what_it_says [OF v g, of demo_env "[]"]
    by (auto simp: Let_def demo_request_def)
  have "{pa_id a |a. a \<in> set (st_proposed (th_state demo_paused)) \<and> pa_tier a \<noteq> READ} \<inter> {''act_1'', ''act_9''} = {''act_1''}"
    by (auto simp: demo_paused_def demo_action_def)
  with st show ?thesis by auto
qed

text \<open>Identity is verified and throttled per principal. With an authenticator the caller's principal
  is the one of the verified token, never the anonymous one and never taken from headers; without one
  it comes from the headers and is anonymous or has a real user name. Blank organisations are dropped.
  Two identified principals share a rate limit bucket only if user and organisation agree or the digest
  collides, and no identified principal shares one with an anonymous client.\<close>

theorem identity_and_buckets:
  "(\<forall>a p. get_request_principal (Some a) hn rq = Inr p \<longrightarrow>
      (\<exists>token. bearer_token rq = Some token \<and> principal_from_token a token = Inr p) \<and> identified p \<and>
      get_request_principal (Some a) hn' rq = Inr p) \<and>
   (\<forall>p. get_request_principal None hn rq = Inr p \<longrightarrow> p = anonymous \<or> identified p) \<and>
   (p \<noteq> anonymous \<and> q \<noteq> anonymous \<and> rate_limit_key digest p rq1 = rate_limit_key digest q rq2 \<longrightarrow>
      org_id p = org_id q \<and> user_id p = user_id q \<or>
      (\<exists>x y. x \<noteq> y \<and> digest x = digest y)) \<and>
   (p \<noteq> anonymous \<longrightarrow> rate_limit_key digest p rq1 \<noteq> rate_limit_key digest anonymous rq2)"
proof (intro conjI allI impI)
  fix a p' assume g: "get_request_principal (Some a) hn rq = Inr p'"
  then obtain token where t: "bearer_token rq = Some token" "principal_from_token a token = Inr p'"
    by (auto simp: get_request_principal_def split: option.splits sum.splits)
  then show "\<exists>token. bearer_token rq = Some token \<and> principal_from_token a token = Inr p'" "identified p'"
    "get_request_principal (Some a) hn' rq = Inr p'"
    using token_identified by (auto simp: get_request_principal_def)
next
  fix p' assume "get_request_principal None hn rq = Inr p'"
  then show "p' = anonymous \<or> identified p'" using headers_identified by (auto simp: get_request_principal_def)
next
  assume "p \<noteq> anonymous \<and> q \<noteq> anonymous \<and> rate_limit_key digest p rq1 = rate_limit_key digest q rq2"
  then have "digest (principal_payload p) = digest (principal_payload q)"
    by (auto simp: rate_limit_key_def identified_principal_key_def)
  then show "org_id p = org_id q \<and> user_id p = user_id q \<or> (\<exists>x y. x \<noteq> y \<and> digest x = digest y)"
    using principal_payload_inject by blast
next
  assume "p \<noteq> anonymous"
  then show "rate_limit_key digest p rq1 \<noteq> rate_limit_key digest anonymous rq2"
    by (simp add: rate_limit_key_def identified_principal_key_def)
qed

definition demo_oidc :: oidc where
  "demo_oidc = \<lparr>oi_get_key = (\<lambda>_. Inr []), oi_decode = (\<lambda>_ _. Inr [(''sub'', PStr ''alice'')]),
     oi_is_jwk_error = (\<lambda>_. False), oi_is_jwt_error = (\<lambda>_. True), oi_user_claim = ''sub'',
     oi_roles_claim = ''roles'', oi_org_claim = ''org_id'', oi_email_claim = ''email''\<rparr>"

theorem identity_and_buckets_witness:
  "\<exists>p. get_request_principal (Some demo_oidc) \<lparr>hn_user = ''x'', hn_roles = ''y'', hn_org = ''z''\<rparr>
       \<lparr>hr_headers = [(''authorization'', ''Bearer t'')], hr_client = None\<rparr> = Inr p \<and> identified p \<and> user_id p = ''alice''"
proof -
  let ?x = "get_request_principal (Some demo_oidc) \<lparr>hn_user = ''x'', hn_roles = ''y'', hn_org = ''z''\<rparr>
       \<lparr>hr_headers = [(''authorization'', ''Bearer t'')], hr_client = None\<rparr>"
  have "case ?x of Inl _ \<Rightarrow> False | Inr p \<Rightarrow> user_id p = ''alice''" by code_simp
  then obtain p where p: "?x = Inr p" "user_id p = ''alice''" by (cases ?x) auto
  with identity_and_buckets [of "\<lparr>hn_user = ''x'', hn_roles = ''y'', hn_org = ''z''\<rparr>"
      "\<lparr>hr_headers = [(''authorization'', ''Bearer t'')], hr_client = None\<rparr>"] show ?thesis by blast
qed

end
