(* ===== verification/Resume_Lock.thy ===== *)
theory Resume_Lock
  imports Interface
begin

text \<open>
  \<^verbatim>\<open>src/src/atlas/interface/resume_lock.py\<close>: the per-thread lock that serialises resumes, as a machine whose
  steps interleave arbitrarily.

  The process-wide table maps thread ids to lock entries; an entry is an object on a heap (a list, an
  address is an index) with its lock and reference count. A caller is one resume request; its phase is
  the point it has reached in \<open>gate_resume\<close>, in the handler and in \<open>ResumeLease.release\<close>. The parts of the
  code under \<open>_entries_guard\<close> are one step each; acquiring and releasing the entry's lock are steps of
  their own, so every interleaving that the locks permit is a run of the machine.
\<close>

section \<open>State\<close>

record lock_entry =
  le_locked :: bool
  le_refs :: int

text \<open>The phases of a caller: blocked on the lock; holding it before the checks, or after passing them
  with the decisions; done with the request but with the lease not yet released; with the lease marked as
  released; after unlocking; finished.\<close>

datatype phase = Waiting | Checking | Passed "pyval list" | Leaving | Marked | Unlocked | Finished

datatype outcome = Pending | Refused http_exc | Resumed | Raised

record caller =
  ca_request :: approve_request
  ca_principal :: principal
  ca_entry :: nat
  ca_phase :: phase
  ca_outcome :: outcome

record lock_state =
  ls_entries :: "nat dict"
  ls_heap :: "lock_entry list"
  ls_callers :: "caller list"
  ls_threads :: "string \<Rightarrow> thread option"

definition ca_tid :: "caller \<Rightarrow> string" where
  "ca_tid c = aq_thread (ca_request c)"

definition new_entry :: lock_entry where
  "new_entry = \<lparr>le_locked = False, le_refs = 0\<rparr>"

definition add_refs :: "int \<Rightarrow> nat \<Rightarrow> lock_entry list \<Rightarrow> lock_entry list" where
  "add_refs d e h = h[e := (h ! e)\<lparr>le_refs := le_refs (h ! e) + d\<rparr>]"

definition set_locked :: "bool \<Rightarrow> nat \<Rightarrow> lock_entry list \<Rightarrow> lock_entry list" where
  "set_locked b e h = h[e := (h ! e)\<lparr>le_locked := b\<rparr>]"

definition set_phase :: "nat \<Rightarrow> phase \<Rightarrow> lock_state \<Rightarrow> lock_state" where
  "set_phase i ph s = s\<lparr>ls_callers := (ls_callers s)[i := (ls_callers s ! i)\<lparr>ca_phase := ph\<rparr>]\<rparr>"

definition set_outcome :: "nat \<Rightarrow> outcome \<Rightarrow> lock_state \<Rightarrow> lock_state" where
  "set_outcome i r s = s\<lparr>ls_callers := (ls_callers s)[i := (ls_callers s ! i)\<lparr>ca_outcome := r\<rparr>]\<rparr>"

section \<open>Operations\<close>

text \<open>The guarded part of \<open>acquire_resume_lock\<close>: find or make the entry and count the caller.\<close>

definition enter :: "approve_request \<Rightarrow> principal \<Rightarrow> lock_state \<Rightarrow> lock_state" where
  "enter b p s =
     (let tid = aq_thread b;
          (e, h, es) = (case dict_get (ls_entries s) tid of
             Some e \<Rightarrow> (e, ls_heap s, ls_entries s)
           | None \<Rightarrow> (length (ls_heap s), ls_heap s @ [new_entry], dict_set tid (length (ls_heap s)) (ls_entries s)))
      in s\<lparr>ls_entries := es, ls_heap := add_refs 1 e h,
           ls_callers := ls_callers s @
             [\<lparr>ca_request = b, ca_principal = p, ca_entry = e, ca_phase = Waiting, ca_outcome = Pending\<rparr>]\<rparr>)"

definition acquire :: "nat \<Rightarrow> lock_state \<Rightarrow> lock_state" where
  "acquire i s = set_phase i Checking (s\<lparr>ls_heap := set_locked True (ca_entry (ls_callers s ! i)) (ls_heap s)\<rparr>)"

text \<open>The checks of \<open>gate_resume\<close>: a failure starts the release, success hands out the decisions.\<close>

definition check_gate :: "nat \<Rightarrow> lock_state \<Rightarrow> lock_state" where
  "check_gate i s =
     (let c = ls_callers s ! i
      in case gate_check (ls_threads s (ca_tid c)) (ca_principal c) (ca_request c) of
           Inl e \<Rightarrow> set_outcome i (Refused e) (set_phase i Leaving s)
         | Inr ds \<Rightarrow> set_phase i (Passed ds) s)"

text \<open>The graph run: it takes the thread past the approval node, or raises and leaves the checkpoint.\<close>

definition run_ok :: "nat \<Rightarrow> thread \<Rightarrow> lock_state \<Rightarrow> lock_state" where
  "run_ok i th s = set_outcome i Resumed
     (set_phase i Leaving (s\<lparr>ls_threads := (ls_threads s)(ca_tid (ls_callers s ! i) \<mapsto> th)\<rparr>))"

definition run_raises :: "nat \<Rightarrow> lock_state \<Rightarrow> lock_state" where
  "run_raises i s = set_outcome i Raised (set_phase i Leaving s)"

text \<open>\<open>ResumeLease.release\<close>: mark the lease, release the lock, drop the reference. A second call finds the
  mark and does nothing.\<close>

definition mark :: "nat \<Rightarrow> lock_state \<Rightarrow> lock_state" where
  "mark i s = (if ca_phase (ls_callers s ! i) \<in> {Marked, Unlocked, Finished} then s else set_phase i Marked s)"

definition unlock :: "nat \<Rightarrow> lock_state \<Rightarrow> lock_state" where
  "unlock i s = set_phase i Unlocked (s\<lparr>ls_heap := set_locked False (ca_entry (ls_callers s ! i)) (ls_heap s)\<rparr>)"

definition unref :: "nat \<Rightarrow> lock_state \<Rightarrow> lock_state" where
  "unref i s =
     (let c = ls_callers s ! i; e = ca_entry c; h = add_refs (- 1) e (ls_heap s)
      in set_phase i Finished (s\<lparr>ls_heap := h,
           ls_entries := (if le_refs (h ! e) = 0 \<and> dict_get (ls_entries s) (ca_tid c) = Some e
                          then AList.delete (ca_tid c) (ls_entries s) else ls_entries s)\<rparr>))"

text \<open>How far a thread has come: before, at or past the approval node. No edge of the graph goes back.\<close>

primrec progress :: "node \<Rightarrow> nat" where
  "progress Planner = 0"
| "progress Approval = 1"
| "progress Executor = 2"
| "progress Responder = 2"
| "progress End = 2"

text \<open>The steps. Outside the machine a thread may be created under a fresh id and may move on, but a
  paused thread only leaves the approval node through a resume.\<close>

inductive lstep :: "lock_state \<Rightarrow> lock_state \<Rightarrow> bool" where
  enter: "lstep s (enter b p s)"
| acquire: "i < length (ls_callers s) \<Longrightarrow> ca_phase (ls_callers s ! i) = Waiting \<Longrightarrow>
    \<not> le_locked (ls_heap s ! ca_entry (ls_callers s ! i)) \<Longrightarrow> lstep s (acquire i s)"
| check: "i < length (ls_callers s) \<Longrightarrow> ca_phase (ls_callers s ! i) = Checking \<Longrightarrow> lstep s (check_gate i s)"
| run_ok: "i < length (ls_callers s) \<Longrightarrow> ca_phase (ls_callers s ! i) = Passed ds \<Longrightarrow>
    progress (th_next th) = 2 \<Longrightarrow> lstep s (run_ok i th s)"
| run_raises: "i < length (ls_callers s) \<Longrightarrow> ca_phase (ls_callers s ! i) = Passed ds \<Longrightarrow> lstep s (run_raises i s)"
| mark: "i < length (ls_callers s) \<Longrightarrow> ca_phase (ls_callers s ! i) \<in> {Leaving, Marked, Unlocked, Finished} \<Longrightarrow>
    lstep s (mark i s)"
| unlock: "i < length (ls_callers s) \<Longrightarrow> ca_phase (ls_callers s ! i) = Marked \<Longrightarrow> lstep s (unlock i s)"
| unref: "i < length (ls_callers s) \<Longrightarrow> ca_phase (ls_callers s ! i) = Unlocked \<Longrightarrow> lstep s (unref i s)"
| create: "ls_threads s tid = None \<Longrightarrow> lstep s (s\<lparr>ls_threads := (ls_threads s)(tid \<mapsto> th)\<rparr>)"
| advance: "ls_threads s tid = Some th \<Longrightarrow> th_next th \<noteq> Approval \<Longrightarrow> progress (th_next th) \<le> progress (th_next th') \<Longrightarrow>
    lstep s (s\<lparr>ls_threads := (ls_threads s)(tid \<mapsto> th')\<rparr>)"

definition lock_init :: lock_state where
  "lock_init = \<lparr>ls_entries = [], ls_heap = [], ls_callers = [], ls_threads = Map.empty\<rparr>"

inductive lreach :: "lock_state \<Rightarrow> bool" where
  init: "lreach lock_init"
| step: "lreach s \<Longrightarrow> lstep s s' \<Longrightarrow> lreach s'"

section \<open>The lock invariant\<close>

definition holds :: "phase \<Rightarrow> bool" where
  "holds ph \<longleftrightarrow> ph \<in> {Checking, Leaving, Marked} \<or> (\<exists>ds. ph = Passed ds)"

definition active :: "caller list \<Rightarrow> nat \<Rightarrow> nat" where
  "active cs e = length (filter (\<lambda>c. ca_entry c = e \<and> ca_phase c \<noteq> Finished) cs)"

definition holders :: "caller list \<Rightarrow> nat \<Rightarrow> nat" where
  "holders cs e = length (filter (\<lambda>c. ca_entry c = e \<and> holds (ca_phase c)) cs)"

definition table_ok :: "nat dict \<Rightarrow> caller list \<Rightarrow> bool" where
  "table_ok es cs \<longleftrightarrow> dict_ok es \<and>
     (\<forall>t u e. dict_get es t = Some e \<longrightarrow> dict_get es u = Some e \<longrightarrow> t = u) \<and>
     (\<forall>c \<in> set cs. ca_phase c \<noteq> Finished \<longrightarrow> dict_get es (ca_tid c) = Some (ca_entry c)) \<and>
     (\<forall>t e. dict_get es t = Some e \<longrightarrow> 0 < active cs e)"

definition heap_ok :: "lock_entry list \<Rightarrow> caller list \<Rightarrow> bool" where
  "heap_ok h cs \<longleftrightarrow> (\<forall>c \<in> set cs. ca_entry c < length h) \<and>
     (\<forall>e < length h. le_refs (h ! e) = int (active cs e) \<and> holders cs e = (if le_locked (h ! e) then 1 else 0))"

lemma count_update:
  "i < length xs \<Longrightarrow> length (filter P (xs[i := y])) + (if P (xs ! i) then 1 else 0) =
   length (filter P xs) + (if P y then 1 else 0)"
proof (induction xs arbitrary: i)
  case (Cons x xs)
  then show ?case by (cases i) auto
qed simp

lemma count_pos: "x \<in> set xs \<Longrightarrow> P x \<Longrightarrow> 0 < length (filter P xs)"
  by (induction xs) auto

text \<open>Changing the phase of one caller.\<close>

lemma active_update:
  assumes "i < length cs" "ca_entry c = ca_entry (cs ! i)"
  shows "active (cs[i := c]) e + (if ca_entry c = e \<and> ca_phase (cs ! i) \<noteq> Finished then 1 else 0) =
    active cs e + (if ca_entry c = e \<and> ca_phase c \<noteq> Finished then 1 else 0)"
  using count_update [OF assms(1), of "\<lambda>c. ca_entry c = e \<and> ca_phase c \<noteq> Finished" c] assms(2) by (simp add: active_def)

lemma holders_update:
  assumes "i < length cs" "ca_entry c = ca_entry (cs ! i)"
  shows "holders (cs[i := c]) e + (if ca_entry c = e \<and> holds (ca_phase (cs ! i)) then 1 else 0) =
    holders cs e + (if ca_entry c = e \<and> holds (ca_phase c) then 1 else 0)"
  using count_update [OF assms(1), of "\<lambda>c. ca_entry c = e \<and> holds (ca_phase c)" c] assms(2) by (simp add: holders_def)

lemma active_pos: "c \<in> set cs \<Longrightarrow> ca_phase c \<noteq> Finished \<Longrightarrow> 0 < active cs (ca_entry c)"
  unfolding active_def by (rule count_pos) auto

lemma table_ok_update:
  assumes "table_ok es cs" "i < length cs" "ca_entry c = ca_entry (cs ! i)" "ca_tid c = ca_tid (cs ! i)"
    and "ca_phase (cs ! i) \<noteq> Finished" "ca_phase c \<noteq> Finished"
  shows "table_ok es (cs[i := c])"
proof -
  have "active (cs[i := c]) e = active cs e" for e using active_update [OF assms(2,3), of e] assms(5,6) by simp
  moreover have "dict_get es (ca_tid d) = Some (ca_entry d)" if "d \<in> set (cs[i := c])" "ca_phase d \<noteq> Finished" for d
  proof -
    have old: "dict_get es (ca_tid x) = Some (ca_entry x)" if "x \<in> set cs" "ca_phase x \<noteq> Finished" for x
      using assms(1) that by (simp add: table_ok_def)
    from that(1) have "d = c \<or> d \<in> set cs" using set_update_subset_insert [of cs i c] by blast
    then show ?thesis using old [of d] old [OF nth_mem [OF assms(2)] assms(5)] that(2) assms(3,4) by auto
  qed
  ultimately show ?thesis using assms(1) by (simp add: table_ok_def)
qed

lemma entries_update:
  assumes "i < length cs" "ca_entry c = ca_entry (cs ! i)" "\<forall>d \<in> set cs. ca_entry d < n"
  shows "\<forall>d \<in> set (cs[i := c]). ca_entry d < n"
proof
  fix d assume "d \<in> set (cs[i := c])"
  then have "d = c \<or> d \<in> set cs" using set_update_subset_insert [of cs i c] by blast
  then show "ca_entry d < n" using assms by auto
qed

lemma heap_ok_update:
  assumes "heap_ok h cs" "i < length cs" "ca_entry c = ca_entry (cs ! i)"
    and "ca_phase (cs ! i) \<noteq> Finished" "ca_phase c \<noteq> Finished" "holds (ca_phase c) = holds (ca_phase (cs ! i))"
  shows "heap_ok h (cs[i := c])"
proof -
  have "active (cs[i := c]) e = active cs e" "holders (cs[i := c]) e = holders cs e" for e
    using active_update [OF assms(2,3), of e] holders_update [OF assms(2,3), of e] assms(4-6) by simp_all
  moreover have "\<forall>d \<in> set (cs[i := c]). ca_entry d < length h"
    using entries_update [OF assms(2,3)] assms(1) by (simp add: heap_ok_def)
  ultimately show ?thesis using assms(1) by (simp add: heap_ok_def)
qed

definition lock_ok :: "lock_state \<Rightarrow> bool" where
  "lock_ok s \<longleftrightarrow> table_ok (ls_entries s) (ls_callers s) \<and> heap_ok (ls_heap s) (ls_callers s)"

text \<open>A step that keeps table and heap and moves one caller between phases that both hold the lock or
  both do not.\<close>

lemma lock_ok_move:
  assumes "lock_ok s" "i < length (ls_callers s)" "ca_phase (ls_callers s ! i) \<noteq> Finished"
    and "ls_entries s' = ls_entries s" "ls_heap s' = ls_heap s" "ls_callers s' = (ls_callers s)[i := c]"
    and "ca_entry c = ca_entry (ls_callers s ! i)" "ca_tid c = ca_tid (ls_callers s ! i)" "ca_phase c \<noteq> Finished"
    and "holds (ca_phase c) = holds (ca_phase (ls_callers s ! i))"
  shows "lock_ok s'"
  using assms table_ok_update [of "ls_entries s" "ls_callers s" i c] heap_ok_update [of "ls_heap s" "ls_callers s" i c]
  by (simp add: lock_ok_def)

lemma lock_ok_acquire:
  assumes "lock_ok s" "i < length (ls_callers s)" "ca_phase (ls_callers s ! i) = Waiting"
    and "\<not> le_locked (ls_heap s ! ca_entry (ls_callers s ! i))"
  shows "lock_ok (acquire i s)"
proof -
  let ?cs = "ls_callers s" and ?h = "ls_heap s"
  let ?c = "(?cs ! i)\<lparr>ca_phase := Checking\<rparr>" and ?e = "ca_entry (?cs ! i)"
  have e: "?e < length ?h" using assms(1,2) by (auto simp: lock_ok_def heap_ok_def)
  have a: "active (?cs[i := ?c]) x = active ?cs x" for x
    using active_update [OF assms(2), of ?c x] assms(3) by simp
  have h: "holders (?cs[i := ?c]) x = holders ?cs x + (if ?e = x then 1 else 0)" for x
    using holders_update [OF assms(2), of ?c x] assms(3) by (simp add: holds_def)
  have "table_ok (ls_entries s) (?cs[i := ?c])"
    using assms by (intro table_ok_update) (auto simp: lock_ok_def ca_tid_def)
  moreover have "heap_ok (set_locked True ?e ?h) (?cs[i := ?c])"
    using assms a h e entries_update [OF assms(2), of ?c "length ?h"]
    by (auto simp: lock_ok_def heap_ok_def set_locked_def nth_list_update)
  ultimately show ?thesis by (simp add: lock_ok_def acquire_def set_phase_def)
qed

lemma lock_ok_unlock:
  assumes "lock_ok s" "i < length (ls_callers s)" "ca_phase (ls_callers s ! i) = Marked"
  shows "lock_ok (unlock i s)"
proof -
  let ?cs = "ls_callers s" and ?h = "ls_heap s"
  let ?c = "(?cs ! i)\<lparr>ca_phase := Unlocked\<rparr>" and ?e = "ca_entry (?cs ! i)"
  have e: "?e < length ?h" using assms(1,2) by (auto simp: lock_ok_def heap_ok_def)
  have a: "active (?cs[i := ?c]) x = active ?cs x" for x
    using active_update [OF assms(2), of ?c x] assms(3) by simp
  have h: "holders (?cs[i := ?c]) x + (if ?e = x then 1 else 0) = holders ?cs x" for x
    using holders_update [OF assms(2), of ?c x] assms(3) by (simp add: holds_def)
  have "table_ok (ls_entries s) (?cs[i := ?c])"
    using assms by (intro table_ok_update) (auto simp: lock_ok_def ca_tid_def)
  moreover have "holders (?cs[i := ?c]) x = (if le_locked (set_locked False ?e ?h ! x) then 1 else 0)" if "x < length ?h" for x
    using h [of x] assms(1) that by (auto simp: lock_ok_def heap_ok_def set_locked_def nth_list_update split: if_splits)
  then have "heap_ok (set_locked False ?e ?h) (?cs[i := ?c])"
    using assms a e entries_update [OF assms(2), of ?c "length ?h"]
    by (auto simp: lock_ok_def heap_ok_def set_locked_def nth_list_update)
  ultimately show ?thesis by (simp add: lock_ok_def unlock_def set_phase_def)
qed

lemma lock_ok_unref:
  assumes "lock_ok s" "i < length (ls_callers s)" "ca_phase (ls_callers s ! i) = Unlocked"
  shows "lock_ok (unref i s)"
proof -
  let ?cs = "ls_callers s" and ?h = "ls_heap s" and ?es = "ls_entries s"
  let ?o = "?cs ! i"
  let ?c = "?o\<lparr>ca_phase := Finished\<rparr>" and ?e = "ca_entry ?o" and ?t = "ca_tid ?o"
  let ?cs' = "?cs[i := ?c]" and ?h' = "add_refs (- 1) ?e ?h"
  have tab: "table_ok ?es ?cs" and hp: "heap_ok ?h ?cs" using assms(1) by (simp_all add: lock_ok_def)
  have o: "?o \<in> set ?cs" using assms(2) by simp
  have e: "?e < length ?h" using hp o by (simp add: heap_ok_def)
  have te: "dict_get ?es ?t = Some ?e" using tab o assms(3) by (simp add: table_ok_def)
  have a: "active ?cs' x + (if ?e = x then 1 else 0) = active ?cs x" for x
    using active_update [OF assms(2), of ?c x] assms(3) by simp
  have h: "holders ?cs' x = holders ?cs x" for x
    using holders_update [OF assms(2), of ?c x] assms(3) by (simp add: holds_def)
  have refs: "le_refs (?h' ! x) = int (active ?cs' x)" if "x < length ?h" for x
    using a [of x] hp that e by (auto simp: heap_ok_def add_refs_def nth_list_update split: if_splits)
  have lk: "length ?h' = length ?h" "le_locked (?h' ! x) = le_locked (?h ! x)" for x
    using e by (auto simp: add_refs_def nth_list_update)
  have hok: "heap_ok ?h' ?cs'"
    using refs hp h entries_update [OF assms(2), of ?c "length ?h"] unfolding heap_ok_def lk by simp
  have old: "dict_get ?es (ca_tid d) = Some (ca_entry d)" if "d \<in> set ?cs'" "ca_phase d \<noteq> Finished" for d
  proof -
    have "d \<in> set ?cs" using that set_update_subset_insert [of ?cs i ?c] by auto
    then show ?thesis using tab that(2) by (simp add: table_ok_def)
  qed
  have inj: "t = u" if "dict_get ?es t = Some x" "dict_get ?es u = Some x" for t u x
    using tab that unfolding table_ok_def by blast
  have pos: "0 < active ?cs x" if "dict_get ?es t = Some x" for t x
    using tab that unfolding table_ok_def by blast
  have "table_ok (if active ?cs' ?e = 0 then AList.delete ?t ?es else ?es) ?cs'"
  proof (cases "active ?cs' ?e = 0")
    case True
    have ne: "ca_tid d \<noteq> ?t" if "d \<in> set ?cs'" "ca_phase d \<noteq> Finished" for d
      using old [OF that] te True active_pos [OF that] by auto
    have "0 < active ?cs' x" if "dict_get (AList.delete ?t ?es) t = Some x" for t x
    proof -
      have t: "t \<noteq> ?t" "dict_get ?es t = Some x" using that by (auto simp: delete_conv' split: if_splits)
      then have "?e \<noteq> x" using inj te by blast
      then show ?thesis using a [of x] pos [OF t(2)] by simp
    qed
    then show ?thesis using True tab old ne inj
      by (auto simp: table_ok_def dict_ok_def dict_keys_def delete_conv' distinct_delete split: if_splits)
  next
    case False
    have "0 < active ?cs' x" if "dict_get ?es t = Some x" for t x
      using a [of x] pos [OF that] False by (cases "?e = x") auto
    then show ?thesis using False tab old by (simp add: table_ok_def)
  qed
  moreover have "le_refs (?h' ! ?e) = 0 \<longleftrightarrow> active ?cs' ?e = 0" using refs [OF e] by simp
  ultimately show ?thesis using hok te by (simp add: lock_ok_def unref_def set_phase_def Let_def)
qed

lemma active_snoc [simp]: "active (cs @ [c]) e = active cs e + (if ca_entry c = e \<and> ca_phase c \<noteq> Finished then 1 else 0)"
  by (simp add: active_def)

lemma holders_snoc [simp]: "holders (cs @ [c]) e = holders cs e + (if ca_entry c = e \<and> holds (ca_phase c) then 1 else 0)"
  by (simp add: holders_def)

lemma heap_bound: "heap_ok h cs \<Longrightarrow> length h \<le> e \<Longrightarrow> active cs e = 0 \<and> holders cs e = 0"
  by (auto simp: heap_ok_def active_def holders_def filter_empty_conv)

lemma lock_ok_enter:
  assumes "lock_ok s"
  shows "lock_ok (enter b p s)"
proof -
  have tab: "table_ok (ls_entries s) (ls_callers s)" and hp: "heap_ok (ls_heap s) (ls_callers s)"
    using assms by (simp_all add: lock_ok_def)
  show ?thesis
  proof (cases "dict_get (ls_entries s) (aq_thread b)")
    case (Some e)
    have "0 < active (ls_callers s) e" using tab Some unfolding table_ok_def by blast
    then have e: "e < length (ls_heap s)" using heap_bound [OF hp, of e] by (metis gr_implies_not0 not_less)
    show ?thesis using Some tab hp e
      by (auto simp: lock_ok_def enter_def Let_def table_ok_def heap_ok_def add_refs_def nth_list_update holds_def ca_tid_def)
  next
    case None
    let ?n = "length (ls_heap s)"
    have fresh: "dict_get (ls_entries s) t \<noteq> Some ?n" for t
      using tab heap_bound [OF hp, of ?n] unfolding table_ok_def by fastforce
    have ne: "ca_tid c \<noteq> aq_thread b" if "c \<in> set (ls_callers s)" "ca_phase c \<noteq> Finished" for c
      using tab that None unfolding table_ok_def by fastforce
    have "table_ok (dict_set (aq_thread b) ?n (ls_entries s)) (ls_callers s @
        [\<lparr>ca_request = b, ca_principal = p, ca_entry = ?n, ca_phase = Waiting, ca_outcome = Pending\<rparr>])"
      using tab fresh ne by (auto simp: table_ok_def ca_tid_def split: if_splits)
    moreover have "heap_ok (add_refs 1 ?n (ls_heap s @ [new_entry])) (ls_callers s @
        [\<lparr>ca_request = b, ca_principal = p, ca_entry = ?n, ca_phase = Waiting, ca_outcome = Pending\<rparr>])"
      using hp heap_bound [OF hp, of ?n]
      by (auto simp: heap_ok_def add_refs_def new_entry_def nth_append nth_list_update holds_def less_Suc_eq)
    ultimately show ?thesis using None by (simp add: lock_ok_def enter_def Let_def)
  qed
qed

lemmas phase_simps = set_phase_def set_outcome_def

lemma lock_ok_threads [simp]: "lock_ok (s\<lparr>ls_threads := x\<rparr>) = lock_ok s"
  by (simp add: lock_ok_def)

lemma lock_ok_step:
  assumes "lstep s s'" "lock_ok s"
  shows "lock_ok s'"
  using assms
proof (cases rule: lstep.cases)
  case (check i)
  then show ?thesis
    using lock_ok_move [OF assms(2) check(2), of s'
        "(ls_callers s ! i)\<lparr>ca_phase := Leaving, ca_outcome := ca_outcome (ls_callers s' ! i)\<rparr>"]
      lock_ok_move [OF assms(2) check(2), of s' "(ls_callers s ! i)\<lparr>ca_phase := ca_phase (ls_callers s' ! i)\<rparr>"]
    by (auto simp: check_gate_def Let_def phase_simps ca_tid_def holds_def split: sum.splits)
next
  case (run_ok i ds th)
  then show ?thesis
    using lock_ok_move [OF assms(2) run_ok(2), of s' "(ls_callers s ! i)\<lparr>ca_phase := Leaving, ca_outcome := Resumed\<rparr>"]
    by (auto simp: run_ok_def phase_simps ca_tid_def holds_def)
next
  case (run_raises i ds)
  then show ?thesis
    using lock_ok_move [OF assms(2) run_raises(2), of s' "(ls_callers s ! i)\<lparr>ca_phase := Leaving, ca_outcome := Raised\<rparr>"]
    by (auto simp: run_raises_def phase_simps ca_tid_def holds_def)
next
  case (mark i)
  then show ?thesis
    using lock_ok_move [OF assms(2) mark(2), of s' "(ls_callers s ! i)\<lparr>ca_phase := Marked\<rparr>"] assms(2)
    by (auto simp: mark_def phase_simps ca_tid_def holds_def)
qed (simp_all add: lock_ok_enter lock_ok_acquire lock_ok_unlock lock_ok_unref)

lemma two_count:
  assumes "i < length xs" "j < length xs" "i \<noteq> j" "P (xs ! i)" "P (xs ! j)"
  shows "2 \<le> length (filter P xs)"
proof -
  have "card {i, j} \<le> card {k. k < length xs \<and> P (xs ! k)}" using assms by (intro card_mono) auto
  then show ?thesis using assms(3) by (simp add: length_filter_conv_card)
qed

lemma holds_active: "holds ph \<Longrightarrow> ph \<noteq> Finished"
  by (auto simp: holds_def)

text \<open>Callers of one thread share its entry, so at most one of them holds the lock.\<close>

lemma same_entry:
  assumes "lock_ok s" "i < length (ls_callers s)" "j < length (ls_callers s)"
    and "ca_tid (ls_callers s ! i) = ca_tid (ls_callers s ! j)"
    and "ca_phase (ls_callers s ! i) \<noteq> Finished" "ca_phase (ls_callers s ! j) \<noteq> Finished"
  shows "ca_entry (ls_callers s ! i) = ca_entry (ls_callers s ! j)"
proof -
  have "\<forall>c \<in> set (ls_callers s). ca_phase c \<noteq> Finished \<longrightarrow> dict_get (ls_entries s) (ca_tid c) = Some (ca_entry c)"
    using assms(1) by (simp add: lock_ok_def table_ok_def)
  with assms(2-) show ?thesis by (metis nth_mem option.inject)
qed

lemma holder_unique:
  assumes ok: "lock_ok s" and i: "i < length (ls_callers s)" "holds (ca_phase (ls_callers s ! i))"
    and j: "j < length (ls_callers s)" "holds (ca_phase (ls_callers s ! j))"
    and t: "ca_tid (ls_callers s ! i) = ca_tid (ls_callers s ! j)"
  shows "i = j"
proof (rule ccontr)
  assume n: "i \<noteq> j"
  let ?e = "ca_entry (ls_callers s ! i)"
  have e: "ca_entry (ls_callers s ! j) = ?e" using same_entry [OF ok j(1) i(1)] t i j holds_active by metis
  have "2 \<le> holders (ls_callers s) ?e"
    unfolding holders_def by (rule two_count [OF i(1) j(1) n]) (use i j e in auto)
  moreover have "?e < length (ls_heap s)" using ok i(1) by (simp add: lock_ok_def heap_ok_def)
  then have "holders (ls_callers s) ?e \<le> 1" using ok by (simp add: lock_ok_def heap_ok_def)
  ultimately show False by simp
qed

section \<open>At most one resume\<close>

definition resumed :: "caller list \<Rightarrow> string \<Rightarrow> nat" where
  "resumed cs tid = length (filter (\<lambda>c. ca_tid c = tid \<and> ca_outcome c = Resumed) cs)"

definition caller_ok :: "(string \<Rightarrow> thread option) \<Rightarrow> caller \<Rightarrow> bool" where
  "caller_ok ths c \<longleftrightarrow>
     (ca_phase c \<in> {Waiting, Checking} \<or> (\<exists>ds. ca_phase c = Passed ds) \<longrightarrow> ca_outcome c = Pending) \<and>
     (\<forall>ds. ca_phase c = Passed ds \<longrightarrow> (\<exists>th. ths (ca_tid c) = Some th \<and> th_next th = Approval)) \<and>
     (ca_outcome c = Resumed \<longrightarrow> (\<exists>th. ths (ca_tid c) = Some th \<and> progress (th_next th) = 2))"

definition resumes_ok :: "lock_state \<Rightarrow> bool" where
  "resumes_ok s \<longleftrightarrow> (\<forall>c \<in> set (ls_callers s). caller_ok (ls_threads s) c) \<and> (\<forall>tid. resumed (ls_callers s) tid \<le> 1)"

lemma resumes_ok_move:
  assumes "resumes_ok s" "i < length (ls_callers s)" "ls_threads s' = ls_threads s"
    and "ls_callers s' = (ls_callers s)[i := c]" "ca_tid c = ca_tid (ls_callers s ! i)"
    and "caller_ok (ls_threads s) c" "ca_outcome c = Resumed \<longrightarrow> ca_outcome (ls_callers s ! i) = Resumed"
  shows "resumes_ok s'"
proof -
  have "resumed (ls_callers s') tid \<le> resumed (ls_callers s) tid" for tid
    using count_update [OF assms(2), of "\<lambda>c. ca_tid c = tid \<and> ca_outcome c = Resumed" c] assms(4,5,7)
    by (auto simp: resumed_def split: if_splits)
  then have "\<forall>tid. resumed (ls_callers s') tid \<le> 1" using assms(1) by (meson le_trans resumes_ok_def)
  moreover have "\<forall>d \<in> set (ls_callers s'). caller_ok (ls_threads s') d"
    using assms(1,3,4,6) set_update_subset_insert [of "ls_callers s" i c] by (auto simp: resumes_ok_def)
  ultimately show ?thesis by (simp add: resumes_ok_def)
qed

lemma progress_le: "progress n \<le> 2"
  by (cases n) auto

lemma caller_ok_frame:
  assumes "caller_ok ths c" "tid = ca_tid c \<Longrightarrow> progress (th_next th) = 2 \<and> (\<forall>ds. ca_phase c \<noteq> Passed ds)"
  shows "caller_ok (ths(tid \<mapsto> th)) c"
  using assms by (auto simp: caller_ok_def)

lemma caller_ok_outside:
  assumes "caller_ok ths c" "ths tid = None \<or> (\<exists>old. ths tid = Some old \<and> th_next old \<noteq> Approval \<and>
      progress (th_next old) \<le> progress (th_next th))"
  shows "caller_ok (ths(tid \<mapsto> th)) c"
  using assms progress_le [of "th_next th"] by (auto simp: caller_ok_def)

lemma resumes_ok_run:
  assumes ok: "resumes_ok s" "lock_ok s" and i: "i < length (ls_callers s)" "ca_phase (ls_callers s ! i) = Passed ds"
    and th: "progress (th_next th) = 2"
  shows "resumes_ok (run_ok i th s)"
proof -
  let ?cs = "ls_callers s" and ?c = "(ls_callers s ! i)\<lparr>ca_phase := Leaving, ca_outcome := Resumed\<rparr>"
  let ?t = "ca_tid (ls_callers s ! i)"
  let ?ths = "(ls_threads s)(?t \<mapsto> th)"
  have cok: "caller_ok (ls_threads s) d" if "d \<in> set ?cs" for d using ok(1) that by (simp add: resumes_ok_def)
  have t: "ca_tid ?c = ?t" by (simp add: ca_tid_def)
  obtain old where old: "ls_threads s ?t = Some old" "th_next old = Approval"
    using cok [OF nth_mem [OF i(1)]] i(2) by (auto simp: caller_ok_def)
  then have none: "ca_outcome d \<noteq> Resumed" if "d \<in> set ?cs" "ca_tid d = ?t" for d
    using cok [OF that(1)] that(2) by (auto simp: caller_ok_def)
  have z: "resumed ?cs ?t = 0" using none by (auto simp: resumed_def filter_empty_conv)
  have r: "resumed (?cs[i := ?c]) tid \<le> 1" for tid
    using count_update [OF i(1), of "\<lambda>c. ca_tid c = tid \<and> ca_outcome c = Resumed" ?c] ok(1) z t
      none [OF nth_mem [OF i(1)]]
    by (auto simp: resumes_ok_def resumed_def split: if_splits)
  have "caller_ok ?ths (?cs[i := ?c] ! j)" if j: "j < length ?cs" for j
  proof (cases "j = i")
    case True
    then show ?thesis using i th t by (simp add: caller_ok_def)
  next
    case False
    have "\<forall>ds. ca_phase (?cs ! j) \<noteq> Passed ds" if "ca_tid (?cs ! j) = ?t"
      using holder_unique [OF ok(2) j _ i(1)] i(2) False that by (auto simp: holds_def)
    then show ?thesis using False cok [OF nth_mem [OF j]] th by (auto intro: caller_ok_frame)
  qed
  then have "\<forall>d \<in> set (?cs[i := ?c]). caller_ok ?ths d" by (auto simp: in_set_conv_nth)
  with r show ?thesis using i(1) by (simp add: resumes_ok_def run_ok_def phase_simps)
qed

lemma resumes_ok_step:
  assumes "lstep s s'" "lock_ok s" "resumes_ok s"
  shows "resumes_ok s'"
  using assms(1)
proof (cases rule: lstep.cases)
  case (enter b p)
  then show ?thesis using assms(3)
    by (auto simp: enter_def Let_def resumes_ok_def resumed_def caller_ok_def split: option.splits)
next
  case (acquire i)
  then show ?thesis
    using assms(3)
    by (intro resumes_ok_move [OF assms(3) acquire(2), of s' "(ls_callers s ! i)\<lparr>ca_phase := Checking\<rparr>"])
      (auto simp: acquire_def phase_simps ca_tid_def caller_ok_def resumes_ok_def)
next
  case (check i)
  have c: "caller_ok (ls_threads s) (ls_callers s ! i)" using assms(3) check(2) by (simp add: resumes_ok_def)
  show ?thesis
  proof (cases "gate_check (ls_threads s (ca_tid (ls_callers s ! i))) (ca_principal (ls_callers s ! i)) (ca_request (ls_callers s ! i))")
    case (Inl e)
    then show ?thesis using check c
      by (intro resumes_ok_move [OF assms(3) check(2), of s' "(ls_callers s ! i)\<lparr>ca_phase := Leaving, ca_outcome := Refused e\<rparr>"])
        (auto simp: check_gate_def phase_simps ca_tid_def caller_ok_def)
  next
    case (Inr ds)
    then obtain th where "ls_threads s (ca_tid (ls_callers s ! i)) = Some th" "th_next th = Approval"
      by (auto simp: gate_check_def reply_bind_Inr_iff is_awaiting_approval_def split: option.splits if_splits)
    with Inr show ?thesis using check c
      by (intro resumes_ok_move [OF assms(3) check(2), of s' "(ls_callers s ! i)\<lparr>ca_phase := Passed ds\<rparr>"])
        (auto simp: check_gate_def phase_simps ca_tid_def caller_ok_def)
  qed
next
  case (run_ok i ds th)
  then show ?thesis using resumes_ok_run [OF assms(3,2)] by blast
next
  case (run_raises i ds)
  have c: "caller_ok (ls_threads s) (ls_callers s ! i)" using assms(3) run_raises(2) by (simp add: resumes_ok_def)
  then show ?thesis using run_raises
    by (intro resumes_ok_move [OF assms(3) run_raises(2), of s' "(ls_callers s ! i)\<lparr>ca_phase := Leaving, ca_outcome := Raised\<rparr>"])
      (auto simp: run_raises_def phase_simps ca_tid_def caller_ok_def)
next
  case (mark i)
  have c: "caller_ok (ls_threads s) (ls_callers s ! i)" using assms(3) mark(2) by (simp add: resumes_ok_def)
  show ?thesis
  proof (cases "ca_phase (ls_callers s ! i) = Leaving")
    case True
    with mark c show ?thesis
      by (intro resumes_ok_move [OF assms(3) mark(2), of s' "(ls_callers s ! i)\<lparr>ca_phase := Marked\<rparr>"])
        (auto simp: mark_def phase_simps ca_tid_def caller_ok_def)
  next
    case False
    with mark assms(3) show ?thesis by (auto simp: mark_def)
  qed
next
  case (unlock i)
  have c: "caller_ok (ls_threads s) (ls_callers s ! i)" using assms(3) unlock(2) by (simp add: resumes_ok_def)
  with unlock show ?thesis
    by (intro resumes_ok_move [OF assms(3) unlock(2), of s' "(ls_callers s ! i)\<lparr>ca_phase := Unlocked\<rparr>"])
      (auto simp: unlock_def phase_simps ca_tid_def caller_ok_def)
next
  case (unref i)
  have c: "caller_ok (ls_threads s) (ls_callers s ! i)" using assms(3) unref(2) by (simp add: resumes_ok_def)
  with unref show ?thesis
    by (intro resumes_ok_move [OF assms(3) unref(2), of s' "(ls_callers s ! i)\<lparr>ca_phase := Finished\<rparr>"])
      (auto simp: unref_def Let_def phase_simps ca_tid_def caller_ok_def)
next
  case (create tid th)
  have "caller_ok ((ls_threads s)(tid \<mapsto> th)) c" if "c \<in> set (ls_callers s)" for c
    by (rule caller_ok_outside) (use assms(3) create that in \<open>simp_all add: resumes_ok_def\<close>)
  then show ?thesis using create assms(3) by (simp add: resumes_ok_def)
next
  case (advance tid th th')
  have "caller_ok ((ls_threads s)(tid \<mapsto> th')) c" if "c \<in> set (ls_callers s)" for c
    by (rule caller_ok_outside) (use assms(3) advance that in \<open>simp_all add: resumes_ok_def\<close>)
  then show ?thesis using advance assms(3) by (simp add: resumes_ok_def)
qed

lemma lreach_ok: "lreach s \<Longrightarrow> lock_ok s \<and> resumes_ok s"
proof (induction rule: lreach.induct)
  case init
  show ?case by (simp add: lock_init_def lock_ok_def table_ok_def heap_ok_def dict_ok_def dict_keys_def
      resumes_ok_def resumed_def active_def)
next
  case (step s s')
  then show ?case using lock_ok_step resumes_ok_step by blast
qed

section \<open>No deadlock\<close>

text \<open>\<open>frees i s s'\<close>: a run from \<open>s\<close> in which only caller \<open>i\<close> moves and that ends with its lock released.\<close>

definition frees :: "nat \<Rightarrow> lock_state \<Rightarrow> lock_state \<Rightarrow> bool" where
  "frees i s s' \<longleftrightarrow> lstep\<^sup>*\<^sup>* s s' \<and> length (ls_callers s') = length (ls_callers s) \<and>
     (\<forall>k. k \<noteq> i \<longrightarrow> ls_callers s' ! k = ls_callers s ! k) \<and>
     \<not> le_locked (ls_heap s' ! ca_entry (ls_callers s ! i))"

lemma frees_step:
  assumes "lstep s s1" "length (ls_callers s1) = length (ls_callers s)" "\<forall>k. k \<noteq> i \<longrightarrow> ls_callers s1 ! k = ls_callers s ! k"
    and "ca_entry (ls_callers s1 ! i) = ca_entry (ls_callers s ! i)" "\<exists>s'. frees i s1 s'"
  shows "\<exists>s'. frees i s s'"
  using assms converse_rtranclp_into_rtranclp [of lstep s s1] unfolding frees_def by metis

lemma frees_marked:
  assumes "lock_ok s" "i < length (ls_callers s)" "ca_phase (ls_callers s ! i) = Marked"
  shows "\<exists>s'. frees i s s'"
proof -
  have "ca_entry (ls_callers s ! i) < length (ls_heap s)" using assms(1,2) by (simp add: lock_ok_def heap_ok_def)
  then have "frees i s (unlock i s)"
    using lstep.unlock [OF assms(2,3)] by (auto simp: frees_def unlock_def phase_simps set_locked_def)
  then show ?thesis by blast
qed

lemma frees_leaving:
  assumes "lock_ok s" "i < length (ls_callers s)" "ca_phase (ls_callers s ! i) = Leaving"
  shows "\<exists>s'. frees i s s'"
proof (rule frees_step)
  have st: "lstep s (mark i s)" using lstep.mark assms(2,3) by simp
  show "lstep s (mark i s)" by (rule st)
  show "\<exists>s'. frees i (mark i s) s'"
    by (rule frees_marked [OF lock_ok_step [OF st assms(1)]]) (use assms in \<open>simp_all add: mark_def phase_simps\<close>)
qed (use assms in \<open>simp_all add: mark_def phase_simps\<close>)

lemma frees_passed:
  assumes "lock_ok s" "i < length (ls_callers s)" "ca_phase (ls_callers s ! i) = Passed ds"
  shows "\<exists>s'. frees i s s'"
proof (rule frees_step)
  have st: "lstep s (run_raises i s)" using lstep.run_raises assms(2,3) by simp
  show "lstep s (run_raises i s)" by (rule st)
  show "\<exists>s'. frees i (run_raises i s) s'"
    by (rule frees_leaving [OF lock_ok_step [OF st assms(1)]]) (use assms in \<open>simp_all add: run_raises_def phase_simps\<close>)
qed (use assms in \<open>simp_all add: run_raises_def phase_simps\<close>)

lemma frees_checking:
  assumes "lock_ok s" "i < length (ls_callers s)" "ca_phase (ls_callers s ! i) = Checking"
  shows "\<exists>s'. frees i s s'"
proof (rule frees_step)
  have st: "lstep s (check_gate i s)" using lstep.check assms(2,3) by simp
  show "lstep s (check_gate i s)" by (rule st)
  have "(\<exists>ds. ca_phase (ls_callers (check_gate i s) ! i) = Passed ds) \<or> ca_phase (ls_callers (check_gate i s) ! i) = Leaving"
    using assms(2) by (simp add: check_gate_def Let_def phase_simps split: sum.splits)
  moreover have "i < length (ls_callers (check_gate i s))"
    using assms(2) by (simp add: check_gate_def Let_def phase_simps split: sum.splits)
  ultimately show "\<exists>s'. frees i (check_gate i s) s'"
    using frees_passed frees_leaving lock_ok_step [OF st assms(1)] by blast
qed (use assms in \<open>simp_all add: check_gate_def Let_def phase_simps split: sum.splits\<close>)

lemma holder_can_free:
  assumes "lock_ok s" "i < length (ls_callers s)" "holds (ca_phase (ls_callers s ! i))"
  shows "\<exists>s'. frees i s s'"
  using assms frees_marked frees_leaving frees_passed frees_checking by (auto simp: holds_def)

section \<open>Properties\<close>


definition demo_thread_state :: lock_state where
  "demo_thread_state = lock_init\<lparr>ls_threads := Map.empty(''t'' \<mapsto> demo_paused)\<rparr>"

definition demo_race :: lock_state where
  "demo_race = check_gate 0 (acquire 0 (enter demo_request demo_member (enter demo_request demo_member demo_thread_state)))"

lemma demo_race_reach: "lreach demo_race"
proof -
  let ?s1 = "enter demo_request demo_member demo_thread_state"
  let ?s2 = "enter demo_request demo_member ?s1"
  have s0: "lreach demo_thread_state"
    using lreach.step [OF lreach.init lstep.create [of lock_init "''t''" demo_paused]]
    by (simp add: demo_thread_state_def lock_init_def)
  have s2: "lreach ?s2" using s0 lstep.enter lreach.step by metis
  have e: "length (ls_callers ?s2) = 2 \<and> ca_phase (ls_callers ?s2 ! 0) = Waiting \<and>
      \<not> le_locked (ls_heap ?s2 ! ca_entry (ls_callers ?s2 ! 0))" by code_simp
  have s3: "lreach (acquire 0 ?s2)" by (rule lreach.step [OF s2 lstep.acquire]) (use e in simp_all)
  have "ca_phase (ls_callers (acquire 0 ?s2) ! 0) = Checking" "0 < length (ls_callers (acquire 0 ?s2))"
    using e by (auto simp: acquire_def phase_simps)
  then show ?thesis unfolding demo_race_def using lreach.step [OF s3 lstep.check] by blast
qed


text \<open>C32: the lock neither leaks nor deadlocks. In every reachable state the table has an entry for a
  thread exactly as long as some caller of it is not finished, and from every reachable state a caller
  that waits for the lock can get it: the machine has a run that ends with this caller past the lock.\<close>

theorem waiting_resume_can_proceed:
  assumes "lreach s"
  shows "(\<forall>tid. dict_get (ls_entries s) tid = None \<longleftrightarrow>
       (\<forall>c \<in> set (ls_callers s). ca_tid c = tid \<longrightarrow> ca_phase c = Finished)) \<and>
    (\<forall>i. i < length (ls_callers s) \<and> ca_phase (ls_callers s ! i) = Waiting \<longrightarrow>
       (\<exists>s'. lstep\<^sup>*\<^sup>* s s' \<and> ca_phase (ls_callers s' ! i) = Checking))"
proof (intro conjI allI impI)
  have ok: "lock_ok s" using lreach_ok [OF assms] by auto
  then have tab: "table_ok (ls_entries s) (ls_callers s)" and hp: "heap_ok (ls_heap s) (ls_callers s)"
    by (simp_all add: lock_ok_def)
  {
    fix tid
    show "dict_get (ls_entries s) tid = None \<longleftrightarrow> (\<forall>c \<in> set (ls_callers s). ca_tid c = tid \<longrightarrow> ca_phase c = Finished)"
    proof (cases "dict_get (ls_entries s) tid")
      case None
      then show ?thesis using tab by (auto simp: table_ok_def)
    next
      case (Some e)
      then have "0 < active (ls_callers s) e" using tab unfolding table_ok_def by blast
      then obtain c where c: "c \<in> set (ls_callers s)" "ca_entry c = e" "ca_phase c \<noteq> Finished"
        by (auto simp: active_def filter_empty_conv)
      then have "dict_get (ls_entries s) (ca_tid c) = Some e" using tab by (auto simp: table_ok_def)
      then have "ca_tid c = tid" using tab Some unfolding table_ok_def by blast
      with c Some show ?thesis by auto
    qed
  next
    fix i assume i: "i < length (ls_callers s) \<and> ca_phase (ls_callers s ! i) = Waiting"
    let ?e = "ca_entry (ls_callers s ! i)"
    have e: "?e < length (ls_heap s)" using hp i by (simp add: heap_ok_def)
    have go: "\<exists>s''. lstep\<^sup>*\<^sup>* s s'' \<and> ca_phase (ls_callers s'' ! i) = Checking"
      if r: "lstep\<^sup>*\<^sup>* s s'" "length (ls_callers s') = length (ls_callers s)" "ls_callers s' ! i = ls_callers s ! i"
        "\<not> le_locked (ls_heap s' ! ?e)" for s'
    proof -
      have "lstep s' (acquire i s')" using lstep.acquire i r by simp
      with r(1) have "lstep\<^sup>*\<^sup>* s (acquire i s')" by simp
      moreover have "ca_phase (ls_callers (acquire i s') ! i) = Checking" using i r(2) by (simp add: acquire_def phase_simps)
      ultimately show ?thesis by blast
    qed
    show "\<exists>s'. lstep\<^sup>*\<^sup>* s s' \<and> ca_phase (ls_callers s' ! i) = Checking"
    proof (cases "le_locked (ls_heap s ! ?e)")
      case True
      then have "holders (ls_callers s) ?e = 1" using hp e by (simp add: heap_ok_def)
      then have "filter (\<lambda>c. ca_entry c = ?e \<and> holds (ca_phase c)) (ls_callers s) \<noteq> []" by (auto simp: holders_def)
      then obtain j where j: "j < length (ls_callers s)" "ca_entry (ls_callers s ! j) = ?e" "holds (ca_phase (ls_callers s ! j))"
        by (auto simp: filter_empty_conv in_set_conv_nth)
      obtain s' where f: "frees j s s'" using holder_can_free [OF ok j(1,3)] by blast
      have "i \<noteq> j" using i j(3) by (auto simp: holds_def)
      with f j(2) show ?thesis by (intro go [of s']) (auto simp: frees_def)
    qed (use go [of s] in simp)
  }
qed

theorem waiting_resume_can_proceed_witness:
  "lreach demo_race \<and> (\<exists>s'. lstep\<^sup>*\<^sup>* demo_race s' \<and> ca_phase (ls_callers s' ! 1) = Checking)"
proof -
  have "length (ls_callers demo_race) = 2 \<and> ca_phase (ls_callers demo_race ! 1) = Waiting" by code_simp
  then have "1 < length (ls_callers demo_race) \<and> ca_phase (ls_callers demo_race ! 1) = Waiting" by simp
  then show ?thesis using waiting_resume_can_proceed [OF demo_race_reach] demo_race_reach by blast
qed

end
