(* ===== verification/Egress.thy ===== *)
theory Egress
  imports Integrations "HOL-Library.Word"
begin

text \<open>
  \<^verbatim>\<open>src/src/atlas/tool_egress.py\<close>: the outbound transport of schema-driven tools with its guards
  against server-side request forgery.

  \<^item> \<open>httpx.URL\<close> is the parameter \<open>parse_url\<close>; a parsed URL is a record of the parts the code reads.
  \<^item> Of the standard module \<open>ipaddress\<close> the model has what the code uses: the two text formats and the
    address classes, with IPv4 and IPv6 addresses as 32 and 128 bit words and the networks of the
    IANA special-purpose registries as CPython lists them.
  \<^item> The network is a record of a DNS function and of the function that sends one request. Both read
    the world; only sending changes it.
\<close>

section \<open>IP addresses\<close>

datatype ip = V4 "32 word" | V6 "128 word"

fun dec_val :: "int \<Rightarrow> string \<Rightarrow> int" where
  "dec_val n [] = n"
| "dec_val n (c # s) = dec_val (10 * n + (int (cp c) - 48)) s"

definition parse_octet :: "string \<Rightarrow> int option" where
  "parse_octet s =
     (if s = [] \<or> \<not> list_all is_digit s \<or> 3 < length s \<or> (s \<noteq> ''0'' \<and> hd s = CHR ''0'') then None
      else let v = dec_val 0 s in if 255 < v then None else Some v)"

definition ipv4_int :: "string \<Rightarrow> int option" where
  "ipv4_int s =
     (case map parse_octet (split_on (CHR ''.'') s) of
        [Some a, Some b, Some c, Some d] \<Rightarrow> Some (((a * 256 + b) * 256 + c) * 256 + d)
      | _ \<Rightarrow> None)"

definition hex_digit :: "char \<Rightarrow> int option" where
  "hex_digit c = (let n = int (cp c) in
     if 48 \<le> n \<and> n \<le> 57 then Some (n - 48)
     else if 97 \<le> n \<and> n \<le> 102 then Some (n - 87)
     else if 65 \<le> n \<and> n \<le> 70 then Some (n - 55)
     else None)"

fun hex_value :: "int \<Rightarrow> string \<Rightarrow> int option" where
  "hex_value n [] = Some n"
| "hex_value n (c # s) = (case hex_digit c of None \<Rightarrow> None | Some d \<Rightarrow> hex_value (16 * n + d) s)"

definition parse_hextet :: "string \<Rightarrow> int option" where
  "parse_hextet s = (if s = [] \<or> 4 < length s then None else hex_value 0 s)"

text \<open>The two groups that a dotted suffix stands for are kept as numbers.\<close>

datatype hextet = Text string | Value int

definition hextet_value :: "hextet \<Rightarrow> int option" where
  "hextet_value h = (case h of Text s \<Rightarrow> parse_hextet s | Value v \<Rightarrow> Some v)"

definition ipv6_parts :: "string \<Rightarrow> hextet list option" where
  "ipv6_parts s =
     (let parts = split_on (CHR '':'') s
      in if length parts < 3 then None
         else if CHR ''.'' \<in> set (last parts)
         then (case ipv4_int (last parts) of
                 None \<Rightarrow> None
               | Some v \<Rightarrow> Some (map Text (butlast parts) @ [Value (v div 65536 mod 65536), Value (v mod 65536)]))
         else Some (map Text parts))"

fun join_hextets :: "int \<Rightarrow> hextet list \<Rightarrow> int option" where
  "join_hextets n [] = Some n"
| "join_hextets n (h # hs) = (case hextet_value h of None \<Rightarrow> None | Some v \<Rightarrow> join_hextets (65536 * n + v) hs)"

definition ipv6_int :: "string \<Rightarrow> int option" where
  "ipv6_int s =
     (case ipv6_parts s of
        None \<Rightarrow> None
      | Some parts \<Rightarrow>
          if 9 < length parts then None
          else let n = length parts;
                   lead = (hd parts = Text []);
                   trail = (last parts = Text [])
               in (case filter (\<lambda>i. parts ! i = Text []) [1..<n - 1] of
                     [] \<Rightarrow> if n \<noteq> 8 \<or> lead \<or> trail then None else join_hextets 0 parts
                   | [i] \<Rightarrow>
                       (let hi = (if lead then i - 1 else i);
                            lo = (if trail then n - i - 2 else n - i - 1)
                        in if (lead \<and> hi \<noteq> 0) \<or> (trail \<and> lo \<noteq> 0) \<or> 7 < hi + lo then None
                           else join_hextets 0 (take hi parts @ replicate (8 - (hi + lo)) (Value 0) @ drop (n - lo) parts))
                   | _ \<Rightarrow> None))"

definition ipv6_scoped :: "string \<Rightarrow> int option" where
  "ipv6_scoped s =
     (if CHR ''%'' \<notin> set s then ipv6_int s
      else let scope_id = after_first (CHR ''%'') s
           in if scope_id = [] \<or> CHR ''%'' \<in> set scope_id then None else ipv6_int (before_first (CHR ''%'') s))"

definition ip_address :: "string \<Rightarrow> ip result" where
  "ip_address s =
     (case ipv4_int s of
        Some v \<Rightarrow> Inr (V4 (word_of_int v))
      | None \<Rightarrow>
          (case ipv6_scoped s of
             Some v \<Rightarrow> Inr (V6 (word_of_int v))
           | None \<Rightarrow> Inl (Exn ''ValueError'' (repr_str s @ '' does not appear to be an IPv4 or IPv6 address''))))"

text \<open>Membership of a network given by its first address and its prefix length.\<close>

definition in_net4 :: "32 word \<Rightarrow> 32 word \<times> nat \<Rightarrow> bool" where
  "in_net4 a net = (drop_bit (32 - snd net) a = drop_bit (32 - snd net) (fst net))"

definition in_net6 :: "128 word \<Rightarrow> 128 word \<times> nat \<Rightarrow> bool" where
  "in_net6 a net = (drop_bit (128 - snd net) a = drop_bit (128 - snd net) (fst net))"

definition PRIVATE4 :: "(32 word \<times> nat) list" where
  "PRIVATE4 = [(0x00000000, 8), (0x0A000000, 8), (0x7F000000, 8), (0xA9FE0000, 16), (0xAC100000, 12),
     (0xC0000000, 24), (0xC00000AA, 31), (0xC0000200, 24), (0xC0A80000, 16), (0xC6120000, 15),
     (0xC6336400, 24), (0xCB007100, 24), (0xF0000000, 4), (0xFFFFFFFF, 32)]"

definition PRIVATE4_EXCEPT :: "(32 word \<times> nat) list" where
  "PRIVATE4_EXCEPT = [(0xC0000009, 32), (0xC000000A, 32)]"

definition PRIVATE6 :: "(128 word \<times> nat) list" where
  "PRIVATE6 = [(1, 128), (0, 128), (0xFFFF00000000, 96), (0x0064FF9B000100000000000000000000, 48),
     (0x01000000000000000000000000000000, 64), (0x20010000000000000000000000000000, 23),
     (0x20010DB8000000000000000000000000, 32), (0x20020000000000000000000000000000, 16),
     (0xFC000000000000000000000000000000, 7), (0xFE800000000000000000000000000000, 10)]"

definition PRIVATE6_EXCEPT :: "(128 word \<times> nat) list" where
  "PRIVATE6_EXCEPT = [(0x20010001000000000000000000000001, 128), (0x20010001000000000000000000000002, 128),
     (0x20010003000000000000000000000000, 32), (0x20010004011200000000000000000000, 48),
     (0x20010020000000000000000000000000, 28), (0x20010030000000000000000000000000, 28)]"

definition ipv4_mapped :: "ip \<Rightarrow> 32 word option" where
  "ipv4_mapped i = (case i of
     V4 _ \<Rightarrow> None
   | V6 a \<Rightarrow> if drop_bit 32 a = 0xFFFF then Some (ucast a) else None)"

definition private4 :: "32 word \<Rightarrow> bool" where
  "private4 a = (list_ex (in_net4 a) PRIVATE4 \<and> \<not> list_ex (in_net4 a) PRIVATE4_EXCEPT)"

definition global4 :: "32 word \<Rightarrow> bool" where
  "global4 a = (\<not> in_net4 a (0x64400000, 10) \<and> \<not> private4 a)"

definition is_global :: "ip \<Rightarrow> bool" where
  "is_global i = (case i of
     V4 a \<Rightarrow> global4 a
   | V6 a \<Rightarrow> (case ipv4_mapped i of
         Some b \<Rightarrow> global4 b
       | None \<Rightarrow> \<not> (list_ex (in_net6 a) PRIVATE6 \<and> \<not> list_ex (in_net6 a) PRIVATE6_EXCEPT)))"

definition is_multicast :: "ip \<Rightarrow> bool" where
  "is_multicast i = (case i of V4 a \<Rightarrow> in_net4 a (0xE0000000, 4) | V6 a \<Rightarrow> in_net6 a (0xFF000000000000000000000000000000, 8))"

definition is_unspecified :: "ip \<Rightarrow> bool" where
  "is_unspecified i = (case i of V4 a \<Rightarrow> a = 0 | V6 a \<Rightarrow> a = 0)"

definition is_loopback :: "ip \<Rightarrow> bool" where
  "is_loopback i = (case i of V4 a \<Rightarrow> in_net4 a (0x7F000000, 8) | V6 a \<Rightarrow> a = 1)"

definition is_link_local :: "ip \<Rightarrow> bool" where
  "is_link_local i = (case i of V4 a \<Rightarrow> in_net4 a (0xA9FE0000, 16) | V6 a \<Rightarrow> in_net6 a (0xFE800000000000000000000000000000, 10))"

definition unmap :: "ip \<Rightarrow> ip" where
  "unmap i = (case ipv4_mapped i of Some b \<Rightarrow> V4 b | None \<Rightarrow> i)"

definition ip_is_blocked :: "ip \<Rightarrow> bool" where
  "ip_is_blocked ip0 = (let i = unmap ip0 in \<not> is_global i \<or> is_multicast i \<or> is_unspecified i)"

section \<open>Routes and policies\<close>

record url =
  u_scheme :: string
  u_userinfo :: string
  u_host :: string
  u_port :: "nat option"
  u_path :: string
  u_query :: string

record egress_route =
  er_method :: string
  er_host :: string
  er_port :: nat
  er_path :: string

record egress_policy =
  ep_hosts :: "string list"
  ep_routes :: "egress_route list"

definition not_allowed :: "string \<Rightarrow> exn" where
  "not_allowed msg = Exn ''EgressNotAllowed'' msg"

definition ALLOWED_METHOD :: string where
  "ALLOWED_METHOD = ''POST''"

definition DEFAULT_HTTPS_PORT :: nat where
  "DEFAULT_HTTPS_PORT = 443"

definition port_or_default :: "nat option \<Rightarrow> nat" where
  "port_or_default p = (case p of None \<Rightarrow> DEFAULT_HTTPS_PORT | Some n \<Rightarrow> if n = 0 then DEFAULT_HTTPS_PORT else n)"

definition mk_egress_policy :: "string list \<Rightarrow> egress_route list \<Rightarrow> egress_policy" where
  "mk_egress_policy hosts routes = \<lparr>ep_hosts = map lower hosts, ep_routes = routes\<rparr>"

text \<open>The checks that the policy and the build-time guard share: https, no user information, a host on
  the list.\<close>

definition check_host :: "string list \<Rightarrow> url \<Rightarrow> string result" where
  "check_host hosts u =
     (if u_scheme u \<noteq> ''https''
      then Inl (not_allowed (''scheme not allowed: '' @ repr_str (u_scheme u) @ '' (https required)''))
      else if u_userinfo u \<noteq> [] then Inl (not_allowed ''url must not contain userinfo'')
      else let host = lower (u_host u)
           in if host = [] then Inl (not_allowed ''outbound url has no host'')
              else if host \<notin> set hosts then Inl (not_allowed (''host not on egress allowlist: '' @ host))
              else Inr host)"

definition assert_allowed :: "egress_policy \<Rightarrow> url \<Rightarrow> unit result" where
  "assert_allowed pol u =
     result_bind (check_host (ep_hosts pol) u) (\<lambda>host.
       let port = port_or_default (u_port u);
           route = \<lparr>er_method = ALLOWED_METHOD, er_host = host, er_port = port, er_path = u_path u\<rparr>
       in if route \<notin> set (ep_routes pol)
          then Inl (not_allowed (''route not allowed: '' @ ALLOWED_METHOD @ '' '' @ host @ '':'' @ nat_str port @ u_path u))
          else Inr ())"

definition assert_host_allowed :: "(string \<Rightarrow> url result) \<Rightarrow> string \<Rightarrow> string list \<Rightarrow> unit result" where
  "assert_host_allowed parse_url s allowlist =
     result_bind (parse_url s) (\<lambda>u. result_bind (check_host allowlist u) (\<lambda>_. Inr ()))"

definition prepare_validated :: "(string \<Rightarrow> url result) \<Rightarrow> egress_policy \<Rightarrow> string \<Rightarrow> url result" where
  "prepare_validated parse_url pol s =
     result_bind (parse_url s) (\<lambda>u. result_bind (assert_allowed pol u) (\<lambda>_. Inr u))"

definition assert_proxy_host_not_blocked :: "string \<Rightarrow> unit result" where
  "assert_proxy_host_not_blocked host =
     (case ip_address host of
        Inl _ \<Rightarrow> Inr ()
      | Inr ip0 \<Rightarrow>
          (let i = unmap ip0
           in if is_loopback i \<or> is_link_local i \<or> is_multicast i \<or> is_unspecified i
              then Inl (Exn ''ValueError'' (''ATLAS_ADAPTER_EGRESS_PROXY_URL host '' @ repr_str host
                     @ '' resolves to a blocked address range.''))
              else Inr ()))"

section \<open>Resolution\<close>

fun pick_safe :: "string option \<Rightarrow> string list \<Rightarrow> string option result" where
  "pick_safe safe_ip [] = Inr safe_ip"
| "pick_safe safe_ip (info # infos) =
     (let ip_str = before_first (CHR ''%'') info
      in result_bind (ip_address ip_str) (\<lambda>i.
           if ip_is_blocked i then Inl (not_allowed (''host resolves to a blocked address: '' @ ip_str))
           else pick_safe (case safe_ip of None \<Rightarrow> Some ip_str | Some x \<Rightarrow> Some x) infos))"

definition resolve_safe_ip :: "(string \<Rightarrow> nat \<Rightarrow> string list result) \<Rightarrow> string \<Rightarrow> nat option \<Rightarrow> string result" where
  "resolve_safe_ip getaddrinfo host port =
     (case getaddrinfo host (port_or_default port) of
        Inl e \<Rightarrow> if exc_class e = ''gaierror'' then Inl (not_allowed (''could not resolve host: '' @ host)) else Inl e
      | Inr infos \<Rightarrow>
          if infos = [] then Inl (not_allowed (''no addresses for host: '' @ host))
          else result_bind (pick_safe None infos) (\<lambda>safe_ip.
            case safe_ip of
              None \<Rightarrow> Inl (not_allowed (''no usable address for host: '' @ host))
            | Some s \<Rightarrow> Inr s))"

section \<open>Transports\<close>

record egress_request =
  eq_url :: url
  eq_json :: pyval
  eq_headers :: "string dict"
  eq_sni :: "string option"
  eq_proxy :: "string option"

record 'w network =
  nw_dns :: "'w \<Rightarrow> string \<Rightarrow> nat \<Rightarrow> string list result"
  nw_send :: "egress_request \<Rightarrow> 'w \<Rightarrow> http_response result \<times> 'w"

type_synonym 'w transport = "string \<Rightarrow> pydict \<Rightarrow> string \<Rightarrow> 'w \<Rightarrow> pydict result \<times> 'w"

definition decode_json_response :: "http_response \<Rightarrow> pydict result" where
  "decode_json_response rs =
     (if 300 \<le> rs_status rs \<and> rs_status rs \<le> 399
      then Inl (not_allowed (''redirect not allowed (status '' @ nat_str (rs_status rs) @ '')''))
      else if rs_status rs < 200 \<or> 300 \<le> rs_status rs then Inl (Exn ''HTTPStatusError'' (rs_status_error rs))
      else result_bind (rs_json rs) (\<lambda>v. case v of
          PDict d \<Rightarrow> Inr d
        | _ \<Rightarrow> Inl (Exn ''RuntimeError'' ''provider response was not a JSON object'')))"

definition send_decoded :: "'w network \<Rightarrow> egress_request \<Rightarrow> 'w \<Rightarrow> pydict result \<times> 'w" where
  "send_decoded nw rq w =
     (case nw_send nw rq w of
        (Inl e, w') \<Rightarrow> (Inl e, w')
      | (Inr rs, w') \<Rightarrow> (decode_json_response rs, w'))"

definition prepare_pinned :: "(string \<Rightarrow> url result) \<Rightarrow> egress_policy \<Rightarrow> (string \<Rightarrow> nat \<Rightarrow> string list result)
    \<Rightarrow> string \<Rightarrow> (url \<times> string dict \<times> string) result" where
  "prepare_pinned parse_url pol getaddrinfo s =
     result_bind (prepare_validated parse_url pol s) (\<lambda>parsed.
       result_bind (resolve_safe_ip getaddrinfo (u_host parsed) (u_port parsed)) (\<lambda>i.
         let host_header = (case u_port parsed of None \<Rightarrow> u_host parsed | Some p \<Rightarrow> u_host parsed @ '':'' @ nat_str p)
         in Inr (parsed\<lparr>u_host := i\<rparr>, [(''Host'', host_header)], u_host parsed)))"

definition httpx_post_json :: "(string \<Rightarrow> url result) \<Rightarrow> egress_policy \<Rightarrow> 'w network \<Rightarrow> 'w transport" where
  "httpx_post_json parse_url pol nw s body access_token w =
     (case prepare_pinned parse_url pol (nw_dns nw w) s of
        Inl e \<Rightarrow> (Inl e, w)
      | Inr (pinned, headers, sni) \<Rightarrow>
          send_decoded nw
            \<lparr>eq_url = pinned, eq_json = PDict body,
             eq_headers = dict_set ''Authorization'' (''Bearer '' @ access_token) headers,
             eq_sni = Some sni, eq_proxy = None\<rparr> w)"

definition make_proxy :: "(string \<Rightarrow> url result) \<Rightarrow> string \<Rightarrow> (string \<times> string) option \<Rightarrow> string result" where
  "make_proxy parse_url proxy_url proxy_auth =
     result_bind (parse_url (strip proxy_url)) (\<lambda>parsed.
       if u_scheme parsed \<notin> {''http'', ''https''}
       then Inl (not_allowed (''proxy url scheme not allowed: '' @ repr_str (u_scheme parsed) @ '' (http or https required)''))
       else if u_host parsed = [] then Inl (not_allowed ''proxy url must include a host'')
       else (case assert_proxy_host_not_blocked (u_host parsed) of
               Inl e \<Rightarrow> Inl (not_allowed (exc_msg e))
             | Inr _ \<Rightarrow>
                 if u_userinfo parsed \<noteq> [] then Inl (not_allowed ''proxy url must not contain userinfo'')
                 else if proxy_auth \<noteq> None \<and> u_scheme parsed \<noteq> ''https''
                 then Inl (not_allowed (''proxy auth requires an https:// proxy url ''
                        @ ''(credentials must not be sent over plaintext proxy transport)''))
                 else Inr (strip proxy_url)))"

definition proxy_post_json :: "(string \<Rightarrow> url result) \<Rightarrow> egress_policy \<Rightarrow> string \<Rightarrow> 'w network \<Rightarrow> 'w transport" where
  "proxy_post_json parse_url pol proxy nw s body access_token w =
     (case prepare_validated parse_url pol s of
        Inl e \<Rightarrow> (Inl e, w)
      | Inr u \<Rightarrow>
          send_decoded nw
            \<lparr>eq_url = u, eq_json = PDict body, eq_headers = [(''Authorization'', ''Bearer '' @ access_token)],
             eq_sni = None, eq_proxy = Some proxy\<rparr> w)"

text \<open>\<open>make_adapter_transport\<close>: an empty proxy setting selects the direct transport.\<close>

definition make_adapter_transport :: "(string \<Rightarrow> url result) \<Rightarrow> string \<Rightarrow> (string \<times> string) option \<Rightarrow> egress_policy
    \<Rightarrow> 'w network \<Rightarrow> 'w transport result" where
  "make_adapter_transport parse_url proxy_url proxy_auth pol nw =
     (if strip proxy_url \<noteq> []
      then result_bind (make_proxy parse_url (strip proxy_url) proxy_auth) (\<lambda>proxy.
             Inr (proxy_post_json parse_url pol proxy nw))
      else Inr (httpx_post_json parse_url pol nw))"

record fake_transport =
  ft_calls :: "(string \<times> pydict \<times> string) list"

definition fake_post_json :: "(string \<Rightarrow> url result) \<Rightarrow> string list option \<Rightarrow> pydict option \<Rightarrow> bool
    \<Rightarrow> fake_transport transport" where
  "fake_post_json parse_url allowlist response fail s body access_token w =
     (case (case allowlist of None \<Rightarrow> Inr () | Some hosts \<Rightarrow> assert_host_allowed parse_url s hosts) of
        Inl e \<Rightarrow> (Inl e, w)
      | Inr _ \<Rightarrow>
          if fail then (Inl (Exn ''RuntimeError'' ''simulated egress failure''), w)
          else (Inr (case response of None \<Rightarrow> [(''ok'', PBool True)] | Some d \<Rightarrow> d),
                w\<lparr>ft_calls := ft_calls w @ [(s, body, access_token)]\<rparr>))"

section \<open>Blocked addresses\<close>

lemma blocked_iff:
  "ip_is_blocked i \<longleftrightarrow> \<not> is_global (unmap i) \<or> is_multicast (unmap i) \<or> is_unspecified (unmap i)"
  by (simp add: ip_is_blocked_def Let_def)

lemma unmap_V4 [simp]: "unmap (V4 a) = V4 a"
  by (simp add: unmap_def ipv4_mapped_def)

text \<open>The internal ranges of IPv4, all without exceptions inside them.\<close>

definition INTERNAL4 :: "(32 word \<times> nat) list" where
  "INTERNAL4 = [(0x00000000, 8), (0x0A000000, 8), (0x7F000000, 8), (0xA9FE0000, 16), (0xAC100000, 12),
     (0xC0A80000, 16), (0x64400000, 10), (0xC6120000, 15), (0xE0000000, 4), (0xF0000000, 4)]"

lemma not_except4:
  assumes "list_ex (in_net4 a) INTERNAL4"
  shows "\<not> list_ex (in_net4 a) PRIVATE4_EXCEPT"
proof
  assume "list_ex (in_net4 a) PRIVATE4_EXCEPT"
  then have "a = 0xC0000009 \<or> a = 0xC000000A" by (simp add: PRIVATE4_EXCEPT_def in_net4_def)
  with assms show False by (elim disjE) (simp_all add: INTERNAL4_def in_net4_def)
qed

lemma internal4_blocked: "list_ex (in_net4 a) INTERNAL4 \<Longrightarrow> ip_is_blocked (V4 a)"
  using not_except4 [of a]
  by (auto simp: blocked_iff is_global_def global4_def private4_def PRIVATE4_def is_multicast_def INTERNAL4_def)

lemma mapped_blocked: "list_ex (in_net4 b) INTERNAL4 \<Longrightarrow> ipv4_mapped i = Some b \<Longrightarrow> ip_is_blocked i"
  using internal4_blocked [of b] by (simp add: blocked_iff unmap_def ipv4_mapped_def)

definition INTERNAL6 :: "(128 word \<times> nat) list" where
  "INTERNAL6 = [(0, 128), (1, 128), (0xFC000000000000000000000000000000, 7),
     (0xFE800000000000000000000000000000, 10), (0xFF000000000000000000000000000000, 8)]"

text \<open>The leading seven bits of an address separate the internal ranges from the exceptions and from
  the mapped IPv4 addresses.\<close>

lemma net6_top:
  assumes "in_net6 a n" "7 \<le> snd n" "snd n \<le> 128"
  shows "drop_bit 121 a = drop_bit 121 (fst n)"
proof -
  have "drop_bit (snd n - 7) (drop_bit (128 - snd n) a) = drop_bit (snd n - 7) (drop_bit (128 - snd n) (fst n))"
    using assms(1) by (simp add: in_net6_def)
  then show ?thesis using assms(2,3) by (simp add: drop_bit_drop_bit)
qed

lemma mapped_top: "ipv4_mapped (V6 a) = Some b \<Longrightarrow> drop_bit 121 a = 0"
proof -
  assume "ipv4_mapped (V6 a) = Some b"
  then have "drop_bit 32 a = 0xFFFF" by (simp add: ipv4_mapped_def split: if_splits)
  then have "drop_bit 89 (drop_bit 32 a) = drop_bit 89 (0xFFFF :: 128 word)" by (rule arg_cong)
  then show ?thesis by (simp add: drop_bit_drop_bit)
qed

lemma except6_top: "list_ex (in_net6 a) PRIVATE6_EXCEPT \<Longrightarrow> drop_bit 121 a = 0x10"
  using net6_top [of a] by (auto simp: PRIVATE6_EXCEPT_def)

lemma internal6_blocked:
  assumes "list_ex (in_net6 a) INTERNAL6"
  shows "ip_is_blocked (V6 a)"
proof -
  have top: "drop_bit 121 a \<in> {0, 0x7E, 0x7F}"
    using assms net6_top [of a] by (auto simp: INTERNAL6_def)
  then have ne: "\<not> list_ex (in_net6 a) PRIVATE6_EXCEPT" using except6_top by fastforce
  have none: "ipv4_mapped (V6 a) = None"
  proof (rule ccontr)
    assume "ipv4_mapped (V6 a) \<noteq> None"
    then obtain b where b: "ipv4_mapped (V6 a) = Some b" by blast
    then have "drop_bit 121 a = 0" using mapped_top by blast
    then have "\<not> in_net6 a (0xFC000000000000000000000000000000, 7)"
        "\<not> in_net6 a (0xFE800000000000000000000000000000, 10)" "\<not> in_net6 a (0xFF000000000000000000000000000000, 8)"
      using net6_top [of a "(0xFC000000000000000000000000000000, 7)"]
        net6_top [of a "(0xFE800000000000000000000000000000, 10)"]
        net6_top [of a "(0xFF000000000000000000000000000000, 8)"] by auto
    with assms have "a = 0 \<or> a = 1" by (auto simp: INTERNAL6_def) (simp_all add: in_net6_def)
    with b show False by (auto simp: ipv4_mapped_def)
  qed
  then have "unmap (V6 a) = V6 a" by (simp add: unmap_def)
  with assms ne none show ?thesis
    by (auto simp: blocked_iff is_global_def is_multicast_def INTERNAL6_def PRIVATE6_def)
qed

section \<open>What gets through\<close>

lemma check_host_Inr:
  "check_host hosts u = Inr h \<longleftrightarrow>
   u_scheme u = ''https'' \<and> u_userinfo u = [] \<and> h = lower (u_host u) \<and> h \<noteq> [] \<and> h \<in> set hosts"
  by (auto simp: check_host_def Let_def)

definition route_of :: "url \<Rightarrow> egress_route" where
  "route_of u = \<lparr>er_method = ALLOWED_METHOD, er_host = lower (u_host u), er_port = port_or_default (u_port u), er_path = u_path u\<rparr>"

definition url_allowed :: "egress_policy \<Rightarrow> url \<Rightarrow> bool" where
  "url_allowed pol u \<longleftrightarrow> u_scheme u = ''https'' \<and> u_userinfo u = [] \<and> u_host u \<noteq> [] \<and>
     lower (u_host u) \<in> set (ep_hosts pol) \<and> route_of u \<in> set (ep_routes pol)"

lemma assert_allowed_iff: "assert_allowed pol u = Inr () \<longleftrightarrow> url_allowed pol u"
  by (auto simp: assert_allowed_def url_allowed_def route_of_def result_bind_Inr_iff check_host_Inr Let_def)

lemma prepare_validated_iff:
  "prepare_validated parse_url pol s = Inr u \<longleftrightarrow> parse_url s = Inr u \<and> url_allowed pol u"
  by (auto simp: prepare_validated_def result_bind_Inr_iff assert_allowed_iff [symmetric])

text \<open>Every address of the answer is safe, and the first one is chosen.\<close>

definition safe_text :: "string \<Rightarrow> bool" where
  "safe_text s \<longleftrightarrow> (\<exists>i. ip_address s = Inr i \<and> \<not> ip_is_blocked i)"

lemma pick_safe_Inr:
  "pick_safe safe infos = Inr r \<longleftrightarrow>
   (\<forall>x \<in> set infos. safe_text (before_first (CHR ''%'') x)) \<and>
   r = (case safe of Some x \<Rightarrow> Some x | None \<Rightarrow> if infos = [] then None else Some (before_first (CHR ''%'') (hd infos)))"
proof (induction infos arbitrary: safe)
  case Nil
  then show ?case by (cases safe) auto
next
  case (Cons x infos)
  then show ?case by (cases safe) (auto simp: result_bind_Inr_iff safe_text_def Let_def)
qed

lemma resolve_safe_ip_Inr:
  "resolve_safe_ip dns host port = Inr i \<longleftrightarrow>
   (\<exists>infos. dns host (port_or_default port) = Inr infos \<and> infos \<noteq> [] \<and>
      (\<forall>x \<in> set infos. safe_text (before_first (CHR ''%'') x)) \<and> i = before_first (CHR ''%'') (hd infos))"
  by (auto simp: resolve_safe_ip_def result_bind_Inr_iff pick_safe_Inr split: sum.splits option.splits)

text \<open>Neither the address nor the IPv4 address mapped into it is internal.\<close>

definition public_ip :: "ip \<Rightarrow> bool" where
  "public_ip i \<longleftrightarrow> (case i of
     V4 a \<Rightarrow> \<not> list_ex (in_net4 a) INTERNAL4
   | V6 a \<Rightarrow> \<not> list_ex (in_net6 a) INTERNAL6 \<and>
       (drop_bit 32 a = 0xFFFF \<longrightarrow> \<not> list_ex (in_net4 (ucast a)) INTERNAL4))"

lemma public_ip: "\<not> ip_is_blocked i \<Longrightarrow> public_ip i"
proof (cases i)
  case (V6 a)
  assume "\<not> ip_is_blocked i"
  with V6 internal6_blocked [of a] mapped_blocked [of "ucast a" i] show ?thesis
    by (auto simp: public_ip_def ipv4_mapped_def)
qed (use internal4_blocked in \<open>auto simp: public_ip_def\<close>)

lemma prepare_pinned_Inr:
  assumes "prepare_pinned parse_url pol dns s = Inr (pinned, headers, sni)"
  obtains u i infos a where "parse_url s = Inr u" "url_allowed pol u" "pinned = u\<lparr>u_host := i\<rparr>" "sni = u_host u"
    "dns (u_host u) (port_or_default (u_port u)) = Inr infos" "infos \<noteq> []"
    "\<forall>x \<in> set infos. safe_text (before_first (CHR ''%'') x)" "i = before_first (CHR ''%'') (hd infos)"
    "ip_address i = Inr a" "public_ip a" "dict_get headers ''Authorization'' = None"
proof -
  from assms obtain u i where u: "prepare_validated parse_url pol s = Inr u"
      "resolve_safe_ip dns (u_host u) (u_port u) = Inr i" "pinned = u\<lparr>u_host := i\<rparr>" "sni = u_host u"
      "dict_get headers ''Authorization'' = None"
    by (auto simp: prepare_pinned_def result_bind_Inr_iff Let_def)
  from u(2) obtain infos where infos: "dns (u_host u) (port_or_default (u_port u)) = Inr infos" "infos \<noteq> []"
    "\<forall>x \<in> set infos. safe_text (before_first (CHR ''%'') x)" "i = before_first (CHR ''%'') (hd infos)"
    unfolding resolve_safe_ip_Inr by blast
  then have "safe_text i" by simp
  then obtain a where "ip_address i = Inr a" "public_ip a" using public_ip by (auto simp: safe_text_def)
  with u infos show thesis using that unfolding prepare_validated_iff by blast
qed

section \<open>Properties\<close>

text \<open>C26: direct egress reaches only allowlisted routes on public addresses. A call of the direct
  transport either raises and leaves the world as it was, or sends exactly one request: the URL parsed
  once from the given text, https without user information, its host on the allowlist and its exact
  route declared, connected to an address that the resolver gave for that host and that is public, in
  particular in none of the private, loopback, link-local (cloud metadata), shared, multicast or
  reserved ranges nor a mapped form of one, while TLS verifies the original host name. One internal
  address among the answers is enough for a refusal.\<close>

theorem direct_egress_is_pinned:
  "(\<exists>e. httpx_post_json parse_url pol nw s body tok w = (Inl e, w)) \<or>
   (\<exists>u i a rq. parse_url s = Inr u \<and> u_scheme u = ''https'' \<and> u_userinfo u = [] \<and>
      lower (u_host u) \<in> set (ep_hosts pol) \<and>
      \<lparr>er_method = ''POST'', er_host = lower (u_host u), er_port = port_or_default (u_port u), er_path = u_path u\<rparr>
        \<in> set (ep_routes pol) \<and>
      (\<exists>infos. nw_dns nw w (u_host u) (port_or_default (u_port u)) = Inr infos \<and>
         (\<forall>x \<in> set infos. \<exists>b. ip_address (before_first (CHR ''%'') x) = Inr b \<and> \<not> ip_is_blocked b) \<and>
         i = before_first (CHR ''%'') (hd infos)) \<and>
      ip_address i = Inr a \<and> public_ip a \<and>
      eq_url rq = u\<lparr>u_host := i\<rparr> \<and> eq_json rq = PDict body \<and> eq_sni rq = Some (u_host u) \<and> eq_proxy rq = None \<and>
      dict_get (eq_headers rq) ''Authorization'' = Some (''Bearer '' @ tok) \<and>
      httpx_post_json parse_url pol nw s body tok w = send_decoded nw rq w)"
proof (cases "prepare_pinned parse_url pol (nw_dns nw w) s")
  case (Inl e)
  then show ?thesis by (simp add: httpx_post_json_def)
next
  case (Inr x)
  then obtain pinned headers sni where x: "x = (pinned, headers, sni)" by (cases x)
  let ?rq = "\<lparr>eq_url = pinned, eq_json = PDict body,
      eq_headers = dict_set ''Authorization'' (''Bearer '' @ tok) headers, eq_sni = Some sni, eq_proxy = None\<rparr>"
  obtain u i infos a where u: "parse_url s = Inr u" "url_allowed pol u" "pinned = u\<lparr>u_host := i\<rparr>" "sni = u_host u"
    "nw_dns nw w (u_host u) (port_or_default (u_port u)) = Inr infos" "infos \<noteq> []"
    "\<forall>x \<in> set infos. safe_text (before_first (CHR ''%'') x)" "i = before_first (CHR ''%'') (hd infos)"
    "ip_address i = Inr a" "public_ip a"
    using prepare_pinned_Inr [OF Inr [unfolded x]] by metis
  have r: "httpx_post_json parse_url pol nw s body tok w = send_decoded nw ?rq w"
    using Inr x by (simp add: httpx_post_json_def)
  show ?thesis
    using u r by (intro disjI2 exI [of _ u] exI [of _ i] exI [of _ a] exI [of _ ?rq])
      (simp add: url_allowed_def route_of_def ALLOWED_METHOD_def safe_text_def)
qed

definition demo_parse :: "string \<Rightarrow> url result" where
  "demo_parse s = Inr \<lparr>u_scheme = ''https'', u_userinfo = [], u_host = ''slack.com'', u_port = None,
     u_path = ''/api/chat.delete'', u_query = []\<rparr>"

definition demo_policy :: egress_policy where
  "demo_policy = mk_egress_policy [''Slack.com'']
     [\<lparr>er_method = ''POST'', er_host = ''slack.com'', er_port = 443, er_path = ''/api/chat.delete''\<rparr>]"

definition demo_network :: "string \<Rightarrow> egress_request list network" where
  "demo_network answer = \<lparr>nw_dns = (\<lambda>w host port. Inr [answer]),
     nw_send = (\<lambda>rq w. (Inr \<lparr>rs_status = 200, rs_json = Inr (PDict []), rs_status_error = []\<rparr>, w @ [rq]))\<rparr>"

theorem direct_egress_is_pinned_witness:
  "(\<exists>rq. snd (httpx_post_json demo_parse demo_policy (demo_network ''8.8.8.8'') [] [] ''tok'' []) = [rq] \<and>
      eq_sni rq = Some ''slack.com'') \<and>
   snd (httpx_post_json demo_parse demo_policy (demo_network ''169.254.169.254'') [] [] ''tok'' []) = []"
proof
  have "snd (httpx_post_json demo_parse demo_policy (demo_network ''8.8.8.8'') [] [] ''tok'' []) \<noteq> []"
    by code_simp
  then obtain rq where "eq_sni rq = Some ''slack.com''"
      "httpx_post_json demo_parse demo_policy (demo_network ''8.8.8.8'') [] [] ''tok'' [] = send_decoded (demo_network ''8.8.8.8'') rq []"
    using direct_egress_is_pinned [of demo_parse demo_policy "demo_network ''8.8.8.8''" "[]" "[]" "''tok''" "[]"]
    by (auto simp: demo_parse_def)
  then show "\<exists>rq. snd (httpx_post_json demo_parse demo_policy (demo_network ''8.8.8.8'') [] [] ''tok'' []) = [rq] \<and>
      eq_sni rq = Some ''slack.com''" by (simp add: send_decoded_def demo_network_def)
  show "snd (httpx_post_json demo_parse demo_policy (demo_network ''169.254.169.254'') [] [] ''tok'' []) = []"
    by code_simp
qed

end
