(* ===== verification/Config.thy ===== *)
theory Config
  imports Egress
begin

text \<open>
  \<^verbatim>\<open>src/src/atlas/config.py\<close>: the settings, their validators and the derived switches.

  A secret is the text it wraps, \<open>None\<close> when it is not set. How the environment is parsed into typed
  fields (pydantic-settings) is not part of the model: a value of the record is a set of parsed
  fields, and \<open>validate_settings\<close> runs the model validators on it in their order of declaration.
  \<open>httpx.URL\<close> is the parameter \<open>parse_url\<close>; what \<open>urllib.parse.urlparse\<close> computes of a URL here (the
  scheme and the host name) is defined.
\<close>

section \<open>The fields\<close>

definition DEFAULT_MODEL :: string where
  "DEFAULT_MODEL = ''claude-opus-4-8''"

record settings =
  anthropic_api_key :: "string option"
  model :: string
  langsmith_tracing :: bool
  langsmith_project :: string
  sqlite_path :: "string option"
  database_url :: "string option"
  voyage_api_key :: "string option"
  embedding_model :: string
  embedding_dim :: int
  openrouter_api_key :: "string option"
  kg_extraction_enabled :: bool
  extraction_model :: string
  extraction_fallback_models :: string
  extraction_max_entities :: int
  extraction_max_relations :: int
  responder_llm_enabled :: bool
  responder_model :: string
  responder_fallback_models :: string
  adapter_engine_enabled :: bool
  adapter_egress_allowlist :: string
  adapter_schema_dir :: string
  adapter_egress_proxy_url :: string
  adapter_egress_proxy_username :: string
  adapter_egress_proxy_password :: "string option"
  api_host :: string
  api_port :: int
  api_user_header :: string
  api_roles_header :: string
  api_org_header :: string
  api_email_header :: string
  oidc_issuer :: "string option"
  oidc_audience :: "string option"
  oidc_jwks_uri :: "string option"
  oidc_user_claim :: string
  oidc_roles_claim :: string
  oidc_org_claim :: string
  oidc_email_claim :: string
  oidc_leeway :: int
  oidc_allow_insecure_http :: bool
  rate_limit_enabled :: bool
  rate_limit_requests :: int
  rate_limit_window_seconds :: int
  upstash_redis_rest_url :: "string option"
  upstash_redis_rest_token :: "string option"
  resend_api_key :: "string option"
  email_from :: "string option"
  slack_bot_token :: "string option"
  vault_addr :: "string option"
  vault_token :: "string option"
  vault_mount :: string
  vault_namespace :: "string option"
  vault_role_id :: "string option"
  vault_secret_id :: "string option"
  google_oauth_client_id :: "string option"
  google_oauth_client_secret :: "string option"
  google_oauth_redirect_uri :: "string option"
  slack_oauth_client_id :: "string option"
  slack_oauth_client_secret :: "string option"
  slack_oauth_redirect_uri :: "string option"
  oauth_success_url :: "string option"
  oauth_state_secret :: "string option"
  oauth_allow_insecure_state :: bool

definition default_settings :: settings where
  "default_settings = \<lparr>
     anthropic_api_key = None,
     model = DEFAULT_MODEL,
     langsmith_tracing = False,
     langsmith_project = ''atlas'',
     sqlite_path = None,
     database_url = None,
     voyage_api_key = None,
     embedding_model = ''voyage-3'',
     embedding_dim = 1024,
     openrouter_api_key = None,
     kg_extraction_enabled = False,
     extraction_model = ''openai/gpt-4o-mini'',
     extraction_fallback_models = [],
     extraction_max_entities = 64,
     extraction_max_relations = 128,
     responder_llm_enabled = False,
     responder_model = ''anthropic/claude-opus-4.8'',
     responder_fallback_models = [],
     adapter_engine_enabled = False,
     adapter_egress_allowlist = ''slack.com'',
     adapter_schema_dir = [],
     adapter_egress_proxy_url = [],
     adapter_egress_proxy_username = [],
     adapter_egress_proxy_password = None,
     api_host = ''127.0.0.1'',
     api_port = 8000,
     api_user_header = ''X-Atlas-User-Id'',
     api_roles_header = ''X-Atlas-Roles'',
     api_org_header = ''X-Atlas-Org'',
     api_email_header = ''X-Atlas-Email'',
     oidc_issuer = None,
     oidc_audience = None,
     oidc_jwks_uri = None,
     oidc_user_claim = ''sub'',
     oidc_roles_claim = ''roles'',
     oidc_org_claim = ''org_id'',
     oidc_email_claim = ''email'',
     oidc_leeway = 60,
     oidc_allow_insecure_http = False,
     rate_limit_enabled = True,
     rate_limit_requests = 60,
     rate_limit_window_seconds = 60,
     upstash_redis_rest_url = None,
     upstash_redis_rest_token = None,
     resend_api_key = None,
     email_from = None,
     slack_bot_token = None,
     vault_addr = None,
     vault_token = None,
     vault_mount = ''secret'',
     vault_namespace = None,
     vault_role_id = None,
     vault_secret_id = None,
     google_oauth_client_id = None,
     google_oauth_client_secret = None,
     google_oauth_redirect_uri = None,
     slack_oauth_client_id = None,
     slack_oauth_client_secret = None,
     slack_oauth_redirect_uri = None,
     oauth_success_url = None,
     oauth_state_secret = None,
     oauth_allow_insecure_state = False\<rparr>"

section \<open>URLs\<close>

text \<open>\<open>urlsplit\<close>: leading control characters and spaces and all tabs and newlines are dropped, the scheme
  is recognised, and the network location ends at the first of \<^verbatim>\<open>/?#\<close>.\<close>

definition scheme_char :: "char \<Rightarrow> bool" where
  "scheme_char c = (is_digit c \<or> (65 \<le> cp c \<and> cp c \<le> 90) \<or> (97 \<le> cp c \<and> cp c \<le> 122) \<or> c \<in> set ''+-.'')"

definition ascii_alpha :: "char \<Rightarrow> bool" where
  "ascii_alpha c = ((65 \<le> cp c \<and> cp c \<le> 90) \<or> (97 \<le> cp c \<and> cp c \<le> 122))"

definition split_scheme :: "string \<Rightarrow> string \<times> string" where
  "split_scheme u =
     (if CHR '':'' \<in> set u \<and> before_first (CHR '':'') u \<noteq> [] \<and> ascii_alpha (hd u)
         \<and> list_all scheme_char (before_first (CHR '':'') u)
      then (lower (before_first (CHR '':'') u), after_first (CHR '':'') u)
      else ([], u))"

definition check_bracketed_host :: "string \<Rightarrow> unit result" where
  "check_bracketed_host host =
     (if startswith host ''v''
      then (let ver = takeWhile (\<lambda>c. hex_digit c \<noteq> None) (drop 1 host);
                rest = drop (Suc (length ver)) host
            in if ver \<noteq> [] \<and> startswith rest ''.'' \<and> 2 \<le> length rest then Inr ()
               else Inl (Exn ''ValueError'' ''IPvFuture address is invalid''))
      else (case ip_address host of
              Inl e \<Rightarrow> Inl e
            | Inr (V4 _) \<Rightarrow> Inl (Exn ''ValueError'' ''An IPv4 address cannot be in brackets'')
            | Inr (V6 _) \<Rightarrow> Inr ()))"

definition check_bracketed_netloc :: "string \<Rightarrow> unit result" where
  "check_bracketed_netloc netloc =
     (let hp = after_last (CHR ''@'') netloc
      in if CHR ''['' \<in> set hp
         then (let bracketed = after_first (CHR ''['') hp; port = after_first (CHR '']'') bracketed
               in if before_first (CHR ''['') hp \<noteq> [] \<or> (port \<noteq> [] \<and> \<not> startswith port '':'')
                  then Inl (Exn ''ValueError'' ''Invalid IPv6 URL'')
                  else check_bracketed_host (before_first (CHR '']'') bracketed))
         else check_bracketed_host (before_first (CHR '':'') hp))"

definition urlsplit_netloc :: "string \<Rightarrow> (string \<times> string) result" where
  "urlsplit_netloc url =
     (let u = filter (\<lambda>c. cp c \<notin> {9, 10, 13}) (dropWhile (\<lambda>c. cp c \<le> 32) url);
          (scheme, rest) = split_scheme u
      in if startswith rest ''//''
         then (let netloc = takeWhile (\<lambda>c. c \<notin> set ''/?#'') (drop 2 rest);
                   opens = CHR ''['' \<in> set netloc; closes = CHR '']'' \<in> set netloc
               in if opens \<noteq> closes then Inl (Exn ''ValueError'' ''Invalid IPv6 URL'')
                  else if opens then result_bind (check_bracketed_netloc netloc) (\<lambda>_. Inr (scheme, netloc))
                  else Inr (scheme, netloc))
         else Inr (scheme, []))"

definition hostname_of :: "string \<Rightarrow> string option" where
  "hostname_of netloc =
     (let hostinfo = after_last (CHR ''@'') netloc;
          host = (if CHR ''['' \<in> set hostinfo then before_first (CHR '']'') (after_first (CHR ''['') hostinfo)
                  else before_first (CHR '':'') hostinfo)
      in if host = [] then None
         else Some (lower (takeWhile (\<lambda>c. c \<noteq> CHR ''%'') host) @ dropWhile (\<lambda>c. c \<noteq> CHR ''%'') host))"

definition LOCAL_HTTP_HOSTS :: "string list" where
  "LOCAL_HTTP_HOSTS = [''127.0.0.1'', ''localhost'']"

definition is_secure_oidc_url :: "string \<Rightarrow> bool result" where
  "is_secure_oidc_url url =
     result_bind (urlsplit_netloc (strip url)) (\<lambda>(scheme, netloc).
       Inr (scheme = ''https'' \<or>
            (scheme = ''http'' \<and> (case hostname_of netloc of None \<Rightarrow> False | Some h \<Rightarrow> h \<in> set LOCAL_HTTP_HOSTS))))"

section \<open>Derived switches\<close>

text \<open>\<open>_nonempty_str\<close> and \<open>_nonempty_secret\<close>.\<close>

definition nonempty_str :: "string option \<Rightarrow> bool" where
  "nonempty_str v = (case v of None \<Rightarrow> False | Some s \<Rightarrow> s \<noteq> [] \<and> strip s \<noteq> [])"

definition nonempty_secret :: "string option \<Rightarrow> bool" where
  "nonempty_secret v = (case v of None \<Rightarrow> False | Some s \<Rightarrow> strip s \<noteq> [])"

definition str_set :: "string option \<Rightarrow> bool" where
  "str_set v = (case v of None \<Rightarrow> False | Some s \<Rightarrow> s \<noteq> [])"

definition oidc_enabled :: "settings \<Rightarrow> bool" where
  "oidc_enabled s = (str_set (oidc_issuer s) \<and> str_set (oidc_audience s) \<and> str_set (oidc_jwks_uri s))"

definition rate_limit_configured :: "settings \<Rightarrow> bool" where
  "rate_limit_configured s = (rate_limit_enabled s \<and> nonempty_str (upstash_redis_rest_url s)
     \<and> nonempty_secret (upstash_redis_rest_token s))"

definition email_configured :: "settings \<Rightarrow> bool" where
  "email_configured s = (nonempty_secret (resend_api_key s) \<and> nonempty_str (email_from s))"

definition slack_configured :: "settings \<Rightarrow> bool" where
  "slack_configured s = nonempty_secret (slack_bot_token s)"

definition embeddings_configured :: "settings \<Rightarrow> bool" where
  "embeddings_configured s = nonempty_secret (voyage_api_key s)"

definition openrouter_configured :: "settings \<Rightarrow> bool" where
  "openrouter_configured s = nonempty_secret (openrouter_api_key s)"

definition extraction_enabled :: "settings \<Rightarrow> bool" where
  "extraction_enabled s = (kg_extraction_enabled s \<and> openrouter_configured s)"

text \<open>A comma separated list, stripped, blanks dropped.\<close>

definition csv :: "string \<Rightarrow> string list" where
  "csv s = map strip (filter (\<lambda>m. strip m \<noteq> []) (split_on (CHR '','') s))"

definition extraction_fallback_model_list :: "settings \<Rightarrow> string list" where
  "extraction_fallback_model_list s = csv (extraction_fallback_models s)"

definition responder_llm_active :: "settings \<Rightarrow> bool" where
  "responder_llm_active s = (responder_llm_enabled s \<and> openrouter_configured s)"

definition responder_fallback_model_list :: "settings \<Rightarrow> string list" where
  "responder_fallback_model_list s = csv (responder_fallback_models s)"

definition adapter_egress_allowlist_hosts :: "settings \<Rightarrow> string set" where
  "adapter_egress_allowlist_hosts s = set (map lower (csv (adapter_egress_allowlist s)))"

definition adapter_egress_proxy_enabled :: "settings \<Rightarrow> bool" where
  "adapter_egress_proxy_enabled s = (strip (adapter_egress_proxy_url s) \<noteq> [])"

definition adapter_egress_proxy_auth :: "settings \<Rightarrow> (string \<times> string) option" where
  "adapter_egress_proxy_auth s =
     (let user = strip (adapter_egress_proxy_username s)
      in case adapter_egress_proxy_password s of
           None \<Rightarrow> None
         | Some secret \<Rightarrow> if strip secret = [] then None else Some (user, secret))"

definition vault_has_role :: "settings \<Rightarrow> bool" where
  "vault_has_role s = (nonempty_str (vault_role_id s) \<and> nonempty_secret (vault_secret_id s))"

definition vault_configured :: "settings \<Rightarrow> bool" where
  "vault_configured s = (nonempty_str (vault_addr s) \<and> (nonempty_secret (vault_token s) \<or> vault_has_role s))"

definition oauth_google_configured :: "settings \<Rightarrow> bool" where
  "oauth_google_configured s = (nonempty_str (google_oauth_client_id s)
     \<and> nonempty_secret (google_oauth_client_secret s) \<and> nonempty_str (google_oauth_redirect_uri s))"

definition oauth_slack_configured :: "settings \<Rightarrow> bool" where
  "oauth_slack_configured s = (nonempty_str (slack_oauth_client_id s)
     \<and> nonempty_secret (slack_oauth_client_secret s) \<and> nonempty_str (slack_oauth_redirect_uri s))"

definition credential_vault_enabled :: "settings \<Rightarrow> bool" where
  "credential_vault_enabled s = vault_configured s"

definition oauth_routes_enabled :: "settings \<Rightarrow> bool" where
  "oauth_routes_enabled s = (oauth_google_configured s \<or> oauth_slack_configured s)"

definition has_anthropic_key :: "settings \<Rightarrow> bool" where
  "has_anthropic_key s = str_set (anthropic_api_key s)"

section \<open>Validators\<close>

abbreviation value_error :: "string \<Rightarrow> 'a result" where
  "value_error msg \<equiv> Inl (Exn ''ValueError'' msg)"

definition validate_vault_config :: "settings \<Rightarrow> settings result" where
  "validate_vault_config s =
     (let has_token = nonempty_secret (vault_token s);
          has_role = vault_has_role s;
          partial_role = ((nonempty_str (vault_role_id s) \<or> nonempty_secret (vault_secret_id s)) \<and> \<not> has_role)
      in if partial_role
         then value_error (''Partial Vault AppRole configuration: set both VAULT_ROLE_ID and ''
                @ ''VAULT_SECRET_ID or leave both blank.'')
         else if nonempty_str (vault_addr s) \<and> \<not> has_token \<and> \<not> has_role
         then value_error ''VAULT_ADDR is set but neither VAULT_TOKEN nor AppRole credentials are configured.''
         else Inr s)"

definition validate_adapter_egress_proxy :: "(string \<Rightarrow> url result) \<Rightarrow> settings \<Rightarrow> settings result" where
  "validate_adapter_egress_proxy parse_url s =
     (let has_user = nonempty_str (Some (adapter_egress_proxy_username s));
          has_pass = nonempty_secret (adapter_egress_proxy_password s);
          proxy_url = strip (adapter_egress_proxy_url s)
      in if has_user \<noteq> has_pass
         then value_error (''Partial proxy auth: set ATLAS_ADAPTER_EGRESS_PROXY_URL, ''
                @ ''ATLAS_ADAPTER_EGRESS_PROXY_USERNAME, and ATLAS_ADAPTER_EGRESS_PROXY_PASSWORD ''
                @ ''together or leave all blank.'')
         else if (has_user \<or> has_pass) \<and> proxy_url = []
         then value_error (''Proxy egress credentials require ATLAS_ADAPTER_EGRESS_PROXY_URL; set URL, ''
                @ ''username, and password together or leave all blank.'')
         else if proxy_url = [] then Inr s
         else result_bind (parse_url proxy_url) (\<lambda>parsed.
           if u_scheme parsed \<noteq> ''http'' \<and> u_scheme parsed \<noteq> ''https''
           then value_error (''ATLAS_ADAPTER_EGRESS_PROXY_URL must use http or https scheme, got ''
                  @ repr_str (u_scheme parsed) @ ''.'')
           else if u_host parsed = [] then value_error ''ATLAS_ADAPTER_EGRESS_PROXY_URL must include a host.''
           else if u_userinfo parsed \<noteq> []
           then value_error (''ATLAS_ADAPTER_EGRESS_PROXY_URL must not contain userinfo; use ''
                  @ ''ATLAS_ADAPTER_EGRESS_PROXY_USERNAME and ATLAS_ADAPTER_EGRESS_PROXY_PASSWORD.'')
           else if has_user \<and> has_pass \<and> u_scheme parsed \<noteq> ''https''
           then value_error (''Authenticated proxy egress requires ATLAS_ADAPTER_EGRESS_PROXY_URL with ''
                  @ ''https:// scheme (credentials must not be sent over plaintext proxy transport).'')
           else result_bind (assert_proxy_host_not_blocked (u_host parsed)) (\<lambda>_. Inr s)))"

text \<open>The validators of all-or-nothing groups list the set and the missing names in their message.\<close>

definition set_names :: "(string \<times> bool) list \<Rightarrow> string list" where
  "set_names fs = map fst (filter snd fs)"

definition unset_names :: "(string \<times> bool) list \<Rightarrow> string list" where
  "unset_names fs = map fst (filter (\<lambda>f. \<not> snd f) fs)"

definition partial_error :: "string \<Rightarrow> string \<Rightarrow> (string \<times> bool) list \<Rightarrow> 'a \<Rightarrow> 'a result" where
  "partial_error what advice fs s =
     (if set_names fs \<noteq> [] \<and> unset_names fs \<noteq> []
      then value_error (''Partial '' @ what @ '' configuration: '' @ join '', '' (set_names fs) @ '' set but ''
             @ join '', '' (unset_names fs) @ '' missing. '' @ advice)
      else Inr s)"

definition google_fields :: "settings \<Rightarrow> (string \<times> bool) list" where
  "google_fields s =
     [(''GOOGLE_OAUTH_CLIENT_ID'', nonempty_str (google_oauth_client_id s)),
      (''GOOGLE_OAUTH_CLIENT_SECRET'', nonempty_secret (google_oauth_client_secret s)),
      (''GOOGLE_OAUTH_REDIRECT_URI'', nonempty_str (google_oauth_redirect_uri s))]"

definition validate_google_oauth_config :: "settings \<Rightarrow> settings result" where
  "validate_google_oauth_config s =
     partial_error ''Google OAuth'' ''Set all three or leave all blank.'' (google_fields s) s"

definition slack_fields :: "settings \<Rightarrow> (string \<times> bool) list" where
  "slack_fields s =
     [(''SLACK_OAUTH_CLIENT_ID'', nonempty_str (slack_oauth_client_id s)),
      (''SLACK_OAUTH_CLIENT_SECRET'', nonempty_secret (slack_oauth_client_secret s)),
      (''SLACK_OAUTH_REDIRECT_URI'', nonempty_str (slack_oauth_redirect_uri s))]"

definition validate_slack_oauth_config :: "settings \<Rightarrow> settings result" where
  "validate_slack_oauth_config s =
     partial_error ''Slack OAuth'' ''Set all three or leave all blank.'' (slack_fields s) s"

definition oidc_fields :: "settings \<Rightarrow> (string \<times> bool) list" where
  "oidc_fields s =
     [(''ATLAS_OIDC_ISSUER'', nonempty_str (oidc_issuer s)),
      (''ATLAS_OIDC_AUDIENCE'', nonempty_str (oidc_audience s)),
      (''ATLAS_OIDC_JWKS_URI'', nonempty_str (oidc_jwks_uri s))]"

fun check_oidc_urls :: "(string \<times> string option) list \<Rightarrow> 'a \<Rightarrow> 'a result" where
  "check_oidc_urls [] s = Inr s"
| "check_oidc_urls ((env_name, url) # urls) s =
     (case url of
        None \<Rightarrow> check_oidc_urls urls s
      | Some u \<Rightarrow>
          result_bind (is_secure_oidc_url u) (\<lambda>secure.
            if \<not> secure
            then value_error (env_name @ '' must use https:// (or http://127.0.0.1 / http://localhost). ''
                   @ ''Set ATLAS_OIDC_ALLOW_INSECURE_HTTP=true only for dev/integration.'')
            else check_oidc_urls urls s))"

definition validate_oidc_config :: "settings \<Rightarrow> settings result" where
  "validate_oidc_config s =
     result_bind (partial_error ''OIDC'' ''Set all three or leave all blank.'' (oidc_fields s) s) (\<lambda>s.
       if oidc_enabled s \<and> \<not> oidc_allow_insecure_http s
       then check_oidc_urls [(''ATLAS_OIDC_ISSUER'', oidc_issuer s), (''ATLAS_OIDC_JWKS_URI'', oidc_jwks_uri s)] s
       else Inr s)"

definition upstash_fields :: "settings \<Rightarrow> (string \<times> bool) list" where
  "upstash_fields s =
     [(''UPSTASH_REDIS_REST_URL'', nonempty_str (upstash_redis_rest_url s)),
      (''UPSTASH_REDIS_REST_TOKEN'', nonempty_secret (upstash_redis_rest_token s))]"

definition validate_rate_limit_config :: "settings \<Rightarrow> settings result" where
  "validate_rate_limit_config s =
     (if rate_limit_requests s \<le> 0 then value_error ''ATLAS_RATE_LIMIT_REQUESTS must be a positive integer.''
      else if rate_limit_window_seconds s \<le> 0
      then value_error ''ATLAS_RATE_LIMIT_WINDOW_SECONDS must be a positive integer.''
      else if \<not> rate_limit_enabled s then Inr s
      else partial_error ''Upstash rate-limit'' ''Set both or leave both blank.'' (upstash_fields s) s)"

definition EMBEDDING_MODEL_DIMS :: "int dict" where
  "EMBEDDING_MODEL_DIMS = [(''voyage-3'', 1024)]"

definition SUPPORTED_EMBEDDING_MODELS :: "string list" where
  "SUPPORTED_EMBEDDING_MODELS = [''voyage-3'']"

definition validate_embedding_config :: "settings \<Rightarrow> settings result" where
  "validate_embedding_config s =
     (let m = strip (embedding_model s)
      in if embedding_dim s \<le> 0 then value_error ''ATLAS_EMBEDDING_DIM must be a positive integer.''
         else if m = [] then value_error ''ATLAS_EMBEDDING_MODEL must not be blank.''
         else if (case dict_get EMBEDDING_MODEL_DIMS m of None \<Rightarrow> False | Some d \<Rightarrow> embedding_dim s \<noteq> d)
         then value_error (''ATLAS_EMBEDDING_MODEL '' @ repr_str m @ '' requires ATLAS_EMBEDDING_DIM=''
                @ int_str (the (dict_get EMBEDDING_MODEL_DIMS m)) @ ''.'')
         else if embeddings_configured s \<and> m \<notin> set SUPPORTED_EMBEDDING_MODELS
         then value_error (''Unsupported ATLAS_EMBEDDING_MODEL '' @ repr_str m
                @ ''; supported when VOYAGE_API_KEY is set: '' @ join '', '' SUPPORTED_EMBEDDING_MODELS @ ''.'')
         else Inr s)"

definition validate_extraction_config :: "settings \<Rightarrow> settings result" where
  "validate_extraction_config s =
     (if extraction_max_entities s \<le> 0
      then value_error ''ATLAS_EXTRACTION_MAX_ENTITIES must be a positive integer.''
      else if extraction_max_relations s \<le> 0
      then value_error ''ATLAS_EXTRACTION_MAX_RELATIONS must be a positive integer.''
      else if kg_extraction_enabled s \<and> \<not> nonempty_secret (openrouter_api_key s)
      then value_error (''ATLAS_KG_EXTRACTION_ENABLED is true but OPENROUTER_API_KEY is not set. ''
             @ ''Provide a key or leave extraction disabled (the deterministic default).'')
      else if kg_extraction_enabled s \<and> strip (extraction_model s) = []
      then value_error ''ATLAS_EXTRACTION_MODEL must not be blank when extraction is enabled.''
      else Inr s)"

definition validate_responder_llm_config :: "settings \<Rightarrow> settings result" where
  "validate_responder_llm_config s =
     (if responder_llm_enabled s \<and> \<not> nonempty_secret (openrouter_api_key s)
      then value_error (''ATLAS_RESPONDER_LLM_ENABLED is true but OPENROUTER_API_KEY is not set. ''
             @ ''Provide a key or leave the responder LLM disabled (the deterministic default).'')
      else if responder_llm_enabled s \<and> strip (responder_model s) = []
      then value_error ''ATLAS_RESPONDER_MODEL must not be blank when the responder LLM is enabled.''
      else Inr s)"

definition email_fields :: "settings \<Rightarrow> (string \<times> bool) list" where
  "email_fields s =
     [(''RESEND_API_KEY'', nonempty_secret (resend_api_key s)), (''ATLAS_EMAIL_FROM'', nonempty_str (email_from s))]"

definition validate_email_config :: "settings \<Rightarrow> settings result" where
  "validate_email_config s = partial_error ''email'' ''Set both or leave both blank.'' (email_fields s) s"

definition validate_oauth_state_secret :: "settings \<Rightarrow> settings result" where
  "validate_oauth_state_secret s =
     (if oauth_routes_enabled s \<and> \<not> nonempty_secret (oauth_state_secret s) \<and> \<not> oauth_allow_insecure_state s
      then value_error (''OAuth is enabled but ATLAS_OAUTH_STATE_SECRET is not set. ''
             @ ''Set a strong secret (openssl rand -base64 32) or ''
             @ ''ATLAS_OAUTH_ALLOW_INSECURE_STATE=true for dev/test only.'')
      else Inr s)"

definition validate_oauth_vault_config :: "settings \<Rightarrow> settings result" where
  "validate_oauth_vault_config s =
     (if oauth_routes_enabled s \<and> nonempty_secret (database_url s) \<and> \<not> credential_vault_enabled s
      then value_error (''OAuth is enabled with DATABASE_URL but Vault is not configured. ''
             @ ''Set VAULT_ADDR + VAULT_TOKEN (or AppRole) - in-memory vault is not allowed ''
             @ ''with durable persistence.'')
      else Inr s)"

text \<open>Construction: pydantic runs the validators in the order of the class; the first one that raises ends it.\<close>

definition validate_settings :: "(string \<Rightarrow> url result) \<Rightarrow> settings \<Rightarrow> settings result" where
  "validate_settings parse_url s =
     foldl result_bind (Inr s)
       [validate_vault_config, validate_adapter_egress_proxy parse_url, validate_google_oauth_config,
        validate_slack_oauth_config, validate_oidc_config, validate_rate_limit_config,
        validate_embedding_config, validate_extraction_config, validate_responder_llm_config,
        validate_email_config, validate_oauth_state_secret, validate_oauth_vault_config]"

section \<open>What each validator accepts\<close>


lemma partial_error_ok: "partial_error what advice fs s = Inr t \<longleftrightarrow>
    t = s \<and> ((\<forall>f \<in> set fs. snd f) \<or> (\<forall>f \<in> set fs. \<not> snd f))"
  by (auto simp: partial_error_def set_names_def unset_names_def filter_empty_conv)

lemma check_oidc_urls_ok: "check_oidc_urls urls s = Inr t \<longleftrightarrow>
    t = s \<and> (\<forall>(name, url) \<in> set urls. \<forall>u. url = Some u \<longrightarrow> is_secure_oidc_url u = Inr True)"
  by (induction urls s rule: check_oidc_urls.induct) (auto simp: result_bind_Inr_iff split: option.splits)

lemma str_set_nonempty: "nonempty_str v \<Longrightarrow> str_set v"
  by (auto simp: nonempty_str_def str_set_def split: option.splits)

definition vault_ok :: "settings \<Rightarrow> bool" where
  "vault_ok s \<longleftrightarrow> (nonempty_str (vault_role_id s) \<longleftrightarrow> nonempty_secret (vault_secret_id s)) \<and>
     (nonempty_str (vault_addr s) \<longrightarrow> vault_configured s)"

lemma validate_vault_config_ok: "validate_vault_config s = Inr t \<longleftrightarrow> t = s \<and> vault_ok s"
  by (auto simp: validate_vault_config_def vault_ok_def vault_has_role_def vault_configured_def Let_def)

definition proxy_ok :: "(string \<Rightarrow> url result) \<Rightarrow> settings \<Rightarrow> bool" where
  "proxy_ok parse_url s \<longleftrightarrow>
     (strip (adapter_egress_proxy_username s) \<noteq> [] \<longleftrightarrow> adapter_egress_proxy_auth s \<noteq> None) \<and>
     (adapter_egress_proxy_auth s \<noteq> None \<longrightarrow> adapter_egress_proxy_enabled s) \<and>
     (adapter_egress_proxy_enabled s \<longrightarrow>
        (\<exists>u. parse_url (strip (adapter_egress_proxy_url s)) = Inr u \<and> u_scheme u \<in> {''http'', ''https''} \<and>
           u_host u \<noteq> [] \<and> u_userinfo u = [] \<and> assert_proxy_host_not_blocked (u_host u) = Inr () \<and>
           (adapter_egress_proxy_auth s \<noteq> None \<longrightarrow> u_scheme u = ''https'')))"

lemma proxy_auth_iff: "adapter_egress_proxy_auth s \<noteq> None \<longleftrightarrow> nonempty_secret (adapter_egress_proxy_password s)"
  by (auto simp: adapter_egress_proxy_auth_def nonempty_secret_def Let_def split: option.splits)

lemma nonempty_Some: "nonempty_str (Some x) \<longleftrightarrow> strip x \<noteq> []"
  by (auto simp: nonempty_str_def strip_def lstrip_def rstrip_def)

lemma validate_proxy_ok: "validate_adapter_egress_proxy parse_url s = Inr t \<longleftrightarrow> t = s \<and> proxy_ok parse_url s"
  unfolding proxy_ok_def proxy_auth_iff validate_adapter_egress_proxy_def Let_def nonempty_Some
    adapter_egress_proxy_enabled_def
  by (cases "parse_url (strip (adapter_egress_proxy_url s))") (auto simp: result_bind_Inr_iff)


lemma group_simps:
  "(\<forall>f \<in> set (google_fields s). snd f) \<longleftrightarrow> oauth_google_configured s"
  "(\<forall>f \<in> set (slack_fields s). snd f) \<longleftrightarrow> oauth_slack_configured s"
  "(\<forall>f \<in> set (email_fields s). snd f) \<longleftrightarrow> email_configured s"
  "(\<forall>f \<in> set (upstash_fields s). snd f) \<longleftrightarrow> nonempty_str (upstash_redis_rest_url s)
      \<and> nonempty_secret (upstash_redis_rest_token s)"
  by (auto simp: google_fields_def slack_fields_def email_fields_def upstash_fields_def
      oauth_google_configured_def oauth_slack_configured_def email_configured_def)

text \<open>A group is complete when one of its variables is set only if all are.\<close>

definition complete :: "(string \<times> bool) list \<Rightarrow> bool" where
  "complete fs \<longleftrightarrow> (\<forall>f \<in> set fs. snd f) \<or> (\<forall>f \<in> set fs. \<not> snd f)"

definition oidc_ok :: "settings \<Rightarrow> bool" where
  "oidc_ok s \<longleftrightarrow> complete (oidc_fields s) \<and>
     (oidc_enabled s \<and> \<not> oidc_allow_insecure_http s \<longrightarrow>
        (\<forall>u. oidc_issuer s = Some u \<or> oidc_jwks_uri s = Some u \<longrightarrow> is_secure_oidc_url u = Inr True))"

definition limits_ok :: "settings \<Rightarrow> bool" where
  "limits_ok s \<longleftrightarrow> 0 < rate_limit_requests s \<and> 0 < rate_limit_window_seconds s \<and>
     (rate_limit_enabled s \<longrightarrow> complete (upstash_fields s)) \<and>
     0 < extraction_max_entities s \<and> 0 < extraction_max_relations s"

definition models_ok :: "settings \<Rightarrow> bool" where
  "models_ok s \<longleftrightarrow> 0 < embedding_dim s \<and> strip (embedding_model s) \<noteq> [] \<and>
     (strip (embedding_model s) = ''voyage-3'' \<longrightarrow> embedding_dim s = 1024) \<and>
     (embeddings_configured s \<longrightarrow> strip (embedding_model s) = ''voyage-3'') \<and>
     (kg_extraction_enabled s \<longrightarrow> extraction_enabled s \<and> strip (extraction_model s) \<noteq> []) \<and>
     (responder_llm_enabled s \<longrightarrow> responder_llm_active s \<and> strip (responder_model s) \<noteq> [])"

definition oauth_ok :: "settings \<Rightarrow> bool" where
  "oauth_ok s \<longleftrightarrow> complete (google_fields s) \<and> complete (slack_fields s) \<and>
     (oauth_routes_enabled s \<longrightarrow>
        (nonempty_secret (oauth_state_secret s) \<or> oauth_allow_insecure_state s) \<and>
        (nonempty_secret (database_url s) \<longrightarrow> vault_configured s))"

definition settings_ok :: "(string \<Rightarrow> url result) \<Rightarrow> settings \<Rightarrow> bool" where
  "settings_ok parse_url s \<longleftrightarrow> vault_ok s \<and> proxy_ok parse_url s \<and> oidc_ok s \<and> limits_ok s \<and> models_ok s \<and>
     oauth_ok s \<and> complete (email_fields s)"

lemma validate_oidc_config_ok: "validate_oidc_config s = Inr t \<longleftrightarrow> t = s \<and> oidc_ok s"
  by (auto simp: validate_oidc_config_def oidc_ok_def complete_def result_bind_Inr_iff partial_error_ok
      check_oidc_urls_ok simp del: check_oidc_urls.simps)

lemma validate_embedding_config_ok:
  "validate_embedding_config s = Inr t \<longleftrightarrow> t = s \<and> 0 < embedding_dim s \<and> strip (embedding_model s) \<noteq> [] \<and>
     (strip (embedding_model s) = ''voyage-3'' \<longrightarrow> embedding_dim s = 1024) \<and>
     (embeddings_configured s \<longrightarrow> strip (embedding_model s) = ''voyage-3'')"
  by (auto simp: validate_embedding_config_def Let_def EMBEDDING_MODEL_DIMS_def SUPPORTED_EMBEDDING_MODELS_def
      split: if_splits)

lemma validate_rest_ok:
  "validate_google_oauth_config s = Inr t \<longleftrightarrow> t = s \<and> complete (google_fields s)"
  "validate_slack_oauth_config s = Inr t \<longleftrightarrow> t = s \<and> complete (slack_fields s)"
  "validate_email_config s = Inr t \<longleftrightarrow> t = s \<and> complete (email_fields s)"
  "validate_rate_limit_config s = Inr t \<longleftrightarrow> t = s \<and> 0 < rate_limit_requests s \<and> 0 < rate_limit_window_seconds s \<and>
     (rate_limit_enabled s \<longrightarrow> complete (upstash_fields s))"
  "validate_extraction_config s = Inr t \<longleftrightarrow> t = s \<and> 0 < extraction_max_entities s \<and> 0 < extraction_max_relations s \<and>
     (kg_extraction_enabled s \<longrightarrow> extraction_enabled s \<and> strip (extraction_model s) \<noteq> [])"
  "validate_responder_llm_config s = Inr t \<longleftrightarrow> t = s \<and>
     (responder_llm_enabled s \<longrightarrow> responder_llm_active s \<and> strip (responder_model s) \<noteq> [])"
  "validate_oauth_state_secret s = Inr t \<longleftrightarrow> t = s \<and>
     (oauth_routes_enabled s \<longrightarrow> nonempty_secret (oauth_state_secret s) \<or> oauth_allow_insecure_state s)"
  "validate_oauth_vault_config s = Inr t \<longleftrightarrow> t = s \<and>
     (oauth_routes_enabled s \<and> nonempty_secret (database_url s) \<longrightarrow> vault_configured s)"
  by (auto simp: validate_google_oauth_config_def validate_slack_oauth_config_def validate_email_config_def
      validate_rate_limit_config_def validate_extraction_config_def validate_responder_llm_config_def
      validate_oauth_state_secret_def validate_oauth_vault_config_def partial_error_ok complete_def
      extraction_enabled_def responder_llm_active_def openrouter_configured_def credential_vault_enabled_def)

lemmas validators_ok = validate_vault_config_ok validate_proxy_ok validate_oidc_config_ok
  validate_embedding_config_ok validate_rest_ok

lemma validate_settings_ok: "validate_settings parse_url s = Inr t \<longleftrightarrow> t = s \<and> settings_ok parse_url s"
  unfolding validate_settings_def settings_ok_def limits_ok_def models_ok_def oauth_ok_def
  by (simp add: result_bind_Inr_iff validators_ok) blast

lemma accepted_proxy:
  assumes "proxy_ok parse_url s" "adapter_egress_proxy_enabled s"
  shows "make_proxy parse_url (strip (adapter_egress_proxy_url s)) (adapter_egress_proxy_auth s)
    = Inr (strip (adapter_egress_proxy_url s))"
proof -
  obtain u where "parse_url (strip (adapter_egress_proxy_url s)) = Inr u" "u_scheme u \<in> {''http'', ''https''}"
    "u_host u \<noteq> []" "u_userinfo u = []" "assert_proxy_host_not_blocked (u_host u) = Inr ()"
    "adapter_egress_proxy_auth s \<noteq> None \<longrightarrow> u_scheme u = ''https''"
    using assms unfolding proxy_ok_def by blast
  then show ?thesis by (simp add: make_proxy_def) blast
qed

lemma complete_iff: "complete fs \<longleftrightarrow> ((\<exists>f \<in> set fs. snd f) \<longrightarrow> (\<forall>f \<in> set fs. snd f))"
  by (auto simp: complete_def)

section \<open>Properties\<close>

text \<open>C37: accepted settings are never half configured. Construction succeeds exactly on the settings that
  meet \<open>settings_ok\<close>, unchanged. For these: one OIDC variable that is not blank turns bearer tokens on (the
  header shim is off), with https or loopback URLs unless insecure http was asked for; one non-blank
  variable of the Google, Slack, email or (when limiting is on) Upstash group turns the whole
  feature on; OAuth routes have a state secret unless the insecure flag is set, and a Vault when there is a
  database; the LLM flags mean what they say; Voyage embeddings have the width 1024; and a configured
  proxy gives a transport, with credentials over https only.\<close>

theorem accepted_settings:
  "(validate_settings parse_url s = Inr t \<longleftrightarrow> t = s \<and> settings_ok parse_url s) \<and>
   (settings_ok parse_url s \<longrightarrow>
      (nonempty_str (oidc_issuer s) \<or> nonempty_str (oidc_audience s) \<or> nonempty_str (oidc_jwks_uri s) \<longrightarrow> oidc_enabled s) \<and>
      (oidc_enabled s \<and> \<not> oidc_allow_insecure_http s \<longrightarrow>
         is_secure_oidc_url (the (oidc_issuer s)) = Inr True \<and> is_secure_oidc_url (the (oidc_jwks_uri s)) = Inr True) \<and>
      ((\<exists>f \<in> set (google_fields s). snd f) \<longrightarrow> oauth_google_configured s) \<and>
      ((\<exists>f \<in> set (slack_fields s). snd f) \<longrightarrow> oauth_slack_configured s) \<and>
      ((\<exists>f \<in> set (email_fields s). snd f) \<longrightarrow> email_configured s) \<and>
      (rate_limit_enabled s \<and> (\<exists>f \<in> set (upstash_fields s). snd f) \<longrightarrow> rate_limit_configured s) \<and>
      (oauth_routes_enabled s \<and> \<not> oauth_allow_insecure_state s \<longrightarrow> nonempty_secret (oauth_state_secret s)) \<and>
      (oauth_routes_enabled s \<and> nonempty_secret (database_url s) \<longrightarrow> credential_vault_enabled s) \<and>
      extraction_enabled s = kg_extraction_enabled s \<and> responder_llm_active s = responder_llm_enabled s \<and>
      (embeddings_configured s \<longrightarrow> embedding_dim s = 1024) \<and>
      (adapter_egress_proxy_enabled s \<longrightarrow>
         make_proxy parse_url (strip (adapter_egress_proxy_url s)) (adapter_egress_proxy_auth s)
           = Inr (strip (adapter_egress_proxy_url s))) \<and>
      (adapter_egress_proxy_auth s \<noteq> None \<longrightarrow>
         (\<exists>u. parse_url (strip (adapter_egress_proxy_url s)) = Inr u \<and> u_scheme u = ''https'')))"
proof -
  have "(nonempty_str (oidc_issuer s) \<or> nonempty_str (oidc_audience s) \<or> nonempty_str (oidc_jwks_uri s) \<longrightarrow> oidc_enabled s) \<and>
      (oidc_enabled s \<and> \<not> oidc_allow_insecure_http s \<longrightarrow>
         is_secure_oidc_url (the (oidc_issuer s)) = Inr True \<and> is_secure_oidc_url (the (oidc_jwks_uri s)) = Inr True)"
    if "oidc_ok s"
    using that
    by (auto simp: oidc_ok_def complete_def oidc_fields_def oidc_enabled_def str_set_nonempty)
      (auto simp: str_set_def nonempty_str_def split: option.splits)
  moreover have "adapter_egress_proxy_auth s \<noteq> None \<longrightarrow>
      (\<exists>u. parse_url (strip (adapter_egress_proxy_url s)) = Inr u \<and> u_scheme u = ''https'')" if "proxy_ok parse_url s"
    using that unfolding proxy_ok_def by blast
  ultimately show ?thesis
    using accepted_proxy [of parse_url s]
    by (intro conjI validate_settings_ok impI)
      (simp_all add: settings_ok_def oauth_ok_def models_ok_def limits_ok_def complete_iff group_simps
        rate_limit_configured_def extraction_enabled_def responder_llm_active_def credential_vault_enabled_def,
       blast+)
qed

theorem accepted_settings_witness:
  "settings_ok demo_parse default_settings \<and> validate_settings demo_parse default_settings = Inr default_settings \<and>
   \<not> extraction_enabled default_settings \<and>
   \<not> settings_ok demo_parse (default_settings\<lparr>oidc_issuer := Some ''https://idp''\<rparr>)"
proof -
  have v: "validate_settings demo_parse default_settings = Inr default_settings" by code_simp
  have "settings_ok demo_parse default_settings" using v accepted_settings [of demo_parse default_settings default_settings] by simp
  moreover have "\<not> extraction_enabled default_settings" by code_simp
  moreover have "\<not> is_ok (validate_settings demo_parse (default_settings\<lparr>oidc_issuer := Some ''https://idp''\<rparr>))" by code_simp
  ultimately show ?thesis using v accepted_settings [of demo_parse "default_settings\<lparr>oidc_issuer := Some ''https://idp''\<rparr>"]
    by (metis is_ok_simps(1))
qed

end
