(* ===== verification/Embeddings.thy ===== *)
theory Embeddings
  imports Config
begin

text \<open>
  \<^verbatim>\<open>src/src/atlas/knowledge/embeddings.py\<close>: the embedding providers.

  A Python float is a real number, and every arithmetic operation rounds: \<open>fl_rnd\<close> is the rounding of
  binary64, \<open>fl_sum\<close> the builtin \<open>sum\<close> over floats and \<open>fl_repr\<close> is \<open>repr\<close> (not-a-number and the
  infinities do not occur in the modelled code). A provider is a record of its width and its \<open>embed\<close>, which
  threads the outside world \<open>'w\<close> because the production provider calls a remote service. The service
  (\<open>voyageai.Client.embed\<close>) and SHA-256 are parameters.

  The locale \<open>embedding_provider\<close> is the contract of the abstract class: every vector has the declared width.
  It is interpreted on both providers.
\<close>

record float_env =
  fl_rnd :: "real \<Rightarrow> real"
  fl_sum :: "real list \<Rightarrow> real"
  fl_repr :: "real \<Rightarrow> string"

type_synonym vec = "real list"

datatype input_type = DOCUMENT | QUERY

record 'w embedder =
  em_dim :: int
  em_embed :: "'w \<Rightarrow> string list \<Rightarrow> input_type \<Rightarrow> vec list result \<times> 'w"

text \<open>\<open>EmbeddingProvider.embed_one\<close>: the first vector of a batch of one.\<close>

definition embed_one :: "'w embedder \<Rightarrow> 'w \<Rightarrow> string \<Rightarrow> input_type \<Rightarrow> vec result \<times> 'w" where
  "embed_one em w txt ty =
     (case em_embed em w [txt] ty of
        (Inl e, w') \<Rightarrow> (Inl e, w')
      | (Inr [], w') \<Rightarrow> (Inl (Exn ''IndexError'' ''list index out of range''), w')
      | (Inr (v # _), w') \<Rightarrow> (Inr v, w'))"

section \<open>The deterministic provider\<close>

definition BYTE_MIDPOINT :: real where
  "BYTE_MIDPOINT = 1275 / 10"

definition byte_value :: "float_env \<Rightarrow> nat \<Rightarrow> real" where
  "byte_value fl b = fl_rnd fl (fl_rnd fl (real b / BYTE_MIDPOINT) - 1)"

text \<open>The \<open>for\<close> loop over one digest: append until the width is reached.\<close>

fun append_bytes :: "float_env \<Rightarrow> int \<Rightarrow> nat list \<Rightarrow> real list \<Rightarrow> real list" where
  "append_bytes fl width [] vals = vals"
| "append_bytes fl width (b # bs) vals =
     (let vals' = vals @ [byte_value fl b]
      in if int (length vals') \<ge> width then vals' else append_bytes fl width bs vals')"

text \<open>\<open>hashlib.sha256(...).digest()\<close> has 32 bytes; \<open>sha256 s i\<close> is byte \<open>i\<close> of the digest of \<open>s\<close>.\<close>

type_synonym sha = "string \<Rightarrow> nat \<Rightarrow> nat"

definition digest_bytes :: "sha \<Rightarrow> string \<Rightarrow> nat list" where
  "digest_bytes sha256 s = map (sha256 s) [0..<32]"

lemma append_bytes_length:
  "int (length vals) < width \<Longrightarrow>
   length (append_bytes fl width bs vals) = min (nat width) (length vals + length bs)"
proof (induction bs arbitrary: vals)
  case (Cons b bs)
  then show ?case by (cases "int (length vals) + 1 < width") (auto simp: Let_def)
qed auto

text \<open>The \<open>while\<close> loop: every digest brings the list closer to the width.\<close>

function expand :: "float_env \<Rightarrow> sha \<Rightarrow> int \<Rightarrow> string \<Rightarrow> nat \<Rightarrow> real list \<Rightarrow> real list" where
  "expand fl sha256 width txt counter vals =
     (if int (length vals) < width
      then expand fl sha256 width txt (Suc counter)
             (append_bytes fl width (digest_bytes sha256 (nat_str counter @ '':'' @ txt)) vals)
      else vals)"
  by pat_completeness auto
termination
  by (relation "measure (\<lambda>(fl, sha256, width, txt, counter, vals). nat width - length vals)")
    (auto simp: append_bytes_length digest_bytes_def)

declare expand.simps [simp del]

definition normalise :: "float_env \<Rightarrow> real list \<Rightarrow> vec" where
  "normalise fl vals =
     (let norm = fl_rnd fl (sqrt (fl_sum fl (map (\<lambda>v. fl_rnd fl (v * v)) vals)))
      in if norm = 0 then vals else map (\<lambda>v. fl_rnd fl (v / norm)) vals)"

definition det_vector :: "float_env \<Rightarrow> sha \<Rightarrow> int \<Rightarrow> string \<Rightarrow> vec" where
  "det_vector fl sha256 width txt = normalise fl (expand fl sha256 width txt 0 [])"

definition det_embed :: "float_env \<Rightarrow> sha \<Rightarrow> int \<Rightarrow> 'w \<Rightarrow> string list \<Rightarrow> input_type \<Rightarrow> vec list result \<times> 'w" where
  "det_embed fl sha256 width w texts ty = (Inr (map (det_vector fl sha256 width) texts), w)"

definition deterministic_embedder :: "float_env \<Rightarrow> sha \<Rightarrow> int \<Rightarrow> 'w embedder result" where
  "deterministic_embedder fl sha256 width =
     (if width \<le> 0 then Inl (Exn ''ValueError'' ''embedding dim must be a positive integer'')
      else Inr \<lparr>em_dim = width, em_embed = det_embed fl sha256 width\<rparr>)"

section \<open>The production provider\<close>

text \<open>\<open>voyageai.Client(api_key).embed(texts, mdl, input_type).embeddings\<close>.\<close>

type_synonym 'w voyage_api = "string \<Rightarrow> string \<Rightarrow> 'w \<Rightarrow> string list \<Rightarrow> input_type \<Rightarrow> vec list result \<times> 'w"

definition wrong_dim :: "string \<Rightarrow> nat \<Rightarrow> int \<Rightarrow> exn" where
  "wrong_dim mdl got expected =
     Exn ''ValueError'' (''Voyage model '' @ repr_str mdl @ '' returned dim '' @ nat_str got @ '', expected '' @
       int_str expected @ ''. Set ATLAS_EMBEDDING_DIM to match the model.'')"

fun check_dims :: "string \<Rightarrow> int \<Rightarrow> vec list \<Rightarrow> unit result" where
  "check_dims mdl width [] = Inr ()"
| "check_dims mdl width (v # vs) =
     (if int (length v) \<noteq> width then Inl (wrong_dim mdl (length v) width) else check_dims mdl width vs)"

definition voyage_embed ::
  "'w voyage_api \<Rightarrow> string \<Rightarrow> string \<Rightarrow> int \<Rightarrow> 'w \<Rightarrow> string list \<Rightarrow> input_type \<Rightarrow> vec list result \<times> 'w" where
  "voyage_embed api api_key mdl width w texts ty =
     (if texts = [] then (Inr [], w)
      else case api api_key mdl w texts ty of
             (Inl e, w') \<Rightarrow> (Inl e, w')
           | (Inr vectors, w') \<Rightarrow> (result_bind (check_dims mdl width vectors) (\<lambda>_. Inr vectors), w'))"

definition voyage_embedder :: "'w voyage_api \<Rightarrow> string \<Rightarrow> string \<Rightarrow> int \<Rightarrow> 'w embedder result" where
  "voyage_embedder api api_key mdl width =
     (if strip api_key = [] then Inl (Exn ''ValueError'' ''VoyageEmbedder requires a non-empty API key'')
      else if width \<le> 0 then Inl (Exn ''ValueError'' ''embedding dim must be a positive integer'')
      else Inr \<lparr>em_dim = width, em_embed = voyage_embed api api_key mdl width\<rparr>)"

definition make_embedder ::
  "float_env \<Rightarrow> sha \<Rightarrow> 'w voyage_api \<Rightarrow> settings \<Rightarrow> 'w embedder result" where
  "make_embedder fl sha256 api s =
     (if embeddings_configured s
      then voyage_embedder api (the (voyage_api_key s)) (embedding_model s) (embedding_dim s)
      else deterministic_embedder fl sha256 (embedding_dim s))"

section \<open>The contract of a provider\<close>

lemma expand_length: "int (length vals) \<le> width \<Longrightarrow> int (length (expand fl sha256 width t counter vals)) = width"
proof (induction fl sha256 width t counter vals rule: expand.induct)
  case (1 fl sha256 width t counter vals)
  show ?case
  proof (cases "int (length vals) < width")
    case True
    have "int (length (append_bytes fl width (digest_bytes sha256 (nat_str counter @ '':'' @ t)) vals)) \<le> width"
      unfolding append_bytes_length [OF True] using True by linarith
    from 1(1) [OF True this] True show ?thesis by (subst expand.simps) simp
  next
    case False
    with 1(2) show ?thesis by (subst expand.simps) simp
  qed
qed

lemma det_vector_length: "0 \<le> width \<Longrightarrow> int (length (det_vector fl sha256 width txt)) = width"
  by (simp add: det_vector_def normalise_def Let_def expand_length)

lemma check_dims_ok: "check_dims mdl width vs = Inr u \<longleftrightarrow> (\<forall>v \<in> set vs. int (length v) = width)"
  by (induction vs) auto

lemma voyage_embed_width:
  "voyage_embed api key mdl width w texts ty = (Inr vs, w') \<Longrightarrow> v \<in> set vs \<Longrightarrow> int (length v) = width"
  by (auto simp: voyage_embed_def result_bind_Inr_iff check_dims_ok split: if_splits prod.splits sum.splits)

locale embedding_provider =
  fixes width :: int and embed :: "'w \<Rightarrow> string list \<Rightarrow> input_type \<Rightarrow> vec list result \<times> 'w"
  assumes embed_width: "0 < width \<Longrightarrow> embed w texts ty = (Inr vs, w') \<Longrightarrow> v \<in> set vs \<Longrightarrow> int (length v) = width"
begin

lemma embed_one_width:
  "0 < width \<Longrightarrow> embed_one \<lparr>em_dim = width, em_embed = embed\<rparr> w txt ty = (Inr v, w') \<Longrightarrow> int (length v) = width"
  unfolding embed_one_def by (auto split: prod.splits sum.splits list.splits intro: embed_width)

end

interpretation det: embedding_provider width "det_embed fl sha256 width" for fl sha256 width
  by unfold_locales (auto simp: det_embed_def det_vector_length)

interpretation voyage: embedding_provider width "voyage_embed api key mdl width" for api key mdl width
  by unfold_locales (rule voyage_embed_width)

lemma make_embedder_cases:
  assumes "make_embedder fl sha256 api s = Inr em"
  obtains (voyage) "embeddings_configured s" "0 < embedding_dim s" "em = \<lparr>em_dim = embedding_dim s,
      em_embed = voyage_embed api (the (voyage_api_key s)) (embedding_model s) (embedding_dim s)\<rparr>"
  | (det) "\<not> embeddings_configured s" "0 < embedding_dim s"
      "em = \<lparr>em_dim = embedding_dim s, em_embed = det_embed fl sha256 (embedding_dim s)\<rparr>"
  using assms by (auto simp: make_embedder_def voyage_embedder_def deterministic_embedder_def split: if_splits)

lemma made_embedder_width:
  assumes "make_embedder fl sha256 api s = Inr em"
  shows "em_dim em = embedding_dim s \<and> 0 < em_dim em \<and>
    (\<forall>w texts ty vs w' v. em_embed em w texts ty = (Inr vs, w') \<longrightarrow> v \<in> set vs \<longrightarrow> int (length v) = em_dim em) \<and>
    (\<forall>w txt ty v w'. embed_one em w txt ty = (Inr v, w') \<longrightarrow> int (length v) = em_dim em)"
  using assms
proof (cases rule: make_embedder_cases)
  case voyage
  show ?thesis using voyage(2)
    by (auto simp: voyage(3) dest: voyage.embed_width [OF voyage(2)] voyage.embed_one_width [OF voyage(2)])
next
  case det
  show ?thesis using det(2) by (auto simp: det(3) dest: det.embed_width [OF det(2)] det.embed_one_width [OF det(2)])
qed

section \<open>Property\<close>

text \<open>C23: the embedding width. Whenever \<open>make_embedder\<close> builds a provider from the settings, its width is the
  configured \<open>embedding_dim\<close>, which is positive, and every vector it returns, alone or in a batch, has exactly
  that many components: the column and the vectors always agree. The deterministic provider always answers,
  one vector per text.\<close>

theorem embedding_width:
  assumes "make_embedder fl sha256 api s = Inr em"
  shows "em_dim em = embedding_dim s \<and> 0 < em_dim em \<and>
    (\<forall>w texts ty vs w' v. em_embed em w texts ty = (Inr vs, w') \<longrightarrow> v \<in> set vs \<longrightarrow> int (length v) = em_dim em) \<and>
    (\<forall>w txt ty v w'. embed_one em w txt ty = (Inr v, w') \<longrightarrow> int (length v) = em_dim em) \<and>
    (\<not> embeddings_configured s \<longrightarrow>
      (\<forall>w texts ty. \<exists>vs. em_embed em w texts ty = (Inr vs, w) \<and> length vs = length texts))"
proof -
  have "\<exists>vs. em_embed em w texts ty = (Inr vs, w) \<and> length vs = length texts" if "\<not> embeddings_configured s" for w texts ty
    using assms by (cases rule: make_embedder_cases) (use that in \<open>simp_all add: det_embed_def\<close>)
  with made_embedder_width [OF assms] show ?thesis by simp
qed

theorem embedding_width_witness:
  "\<exists>em. make_embedder \<lparr>fl_rnd = (\<lambda>x. x), fl_sum = sum_list, fl_repr = (\<lambda>_. [])\<rparr> (\<lambda>_ _. 7)
      (\<lambda>_ _ w _ _. (Inr [], w)) default_settings = Inr em \<and> em_dim em = 1024 \<and>
    (\<exists>v. embed_one em () ''hi'' QUERY = (Inr v, ()) \<and> int (length v) = 1024)"
proof -
  have s: "\<not> embeddings_configured default_settings" "embedding_dim default_settings = 1024"
    by (simp_all add: default_settings_def embeddings_configured_def nonempty_secret_def)
  let ?fl = "\<lparr>fl_rnd = (\<lambda>x. x), fl_sum = sum_list, fl_repr = (\<lambda>_. [])\<rparr>"
  let ?em = "\<lparr>em_dim = 1024, em_embed = det_embed ?fl (\<lambda>_ _. 7) 1024\<rparr> :: unit embedder"
  have m: "make_embedder ?fl (\<lambda>_ _. 7) (\<lambda>_ _ w _ _. (Inr [], w)) default_settings = Inr ?em"
    by (simp add: make_embedder_def deterministic_embedder_def s)
  have "embed_one ?em () ''hi'' QUERY = (Inr (det_vector ?fl (\<lambda>_ _. 7) 1024 ''hi''), ())"
    by (simp add: embed_one_def det_embed_def)
  with m embedding_width [OF m] show ?thesis by (metis embedder.select_convs(1))
qed

end
