(* ===== verification/Knowledge_Store.thy ===== *)
theory Knowledge_Store
  imports Knowledge Embeddings
begin

text \<open>
  \<^verbatim>\<open>src/src/atlas/persistence/knowledge_store.py\<close>: the knowledge graph in Postgres, with full-text and vector
  retrieval.

  The database is a record: the rows of \<open>atlas_kg_entities\<close> and of \<open>atlas_kg_relations\<close> in heap order, whether
  the unique index on relations exists, and the width of the \<open>embedding\<close> column (\<open>None\<close> while there is none). A
  table that does not exist yet is an empty one. Every \<open>pool.connection()\<close> block is a transaction: it commits
  at its end and a failed statement leaves the database as it was. What the SQL text asks of Postgres is
  written out (\<open>LIKE\<close> with its escape character, the array tests of the access predicate, \<open>ORDER BY\<close>, \<open>LIMIT\<close>,
  \<open>OFFSET\<close>, \<open>ON CONFLICT\<close>); what depends on the server is in \<open>pg_kg_env\<close>: the collation, the full-text match, the
  case folding of \<open>ILIKE\<close>, the cast of a text literal to a vector, the nearest-neighbour scan (an HNSW index is
  approximate) and the DDL of the vector extension. Statements of other sessions between two statements of one
  operation are not modelled.
\<close>

section \<open>LIKE\<close>

text \<open>The matcher of \<open>s LIKE p\<close>: \<open>%\<close> any text, \<open>_\<close> any character, a backslash quotes the next one. (A pattern that
  ends in a lone backslash is an error in Postgres; no pattern built below does.)\<close>

function like :: "string \<Rightarrow> string \<Rightarrow> bool" where
  "like [] s = (s = [])"
| "like (c # p) s =
     (if c = CHR ''%'' then like p s \<or> (case s of [] \<Rightarrow> False | _ # t \<Rightarrow> like (c # p) t)
      else if c = CHR ''_'' then (case s of [] \<Rightarrow> False | _ # t \<Rightarrow> like p t)
      else if c = CHR 0x5C then
        (case p of [] \<Rightarrow> False | d # p' \<Rightarrow> (case s of [] \<Rightarrow> False | x # t \<Rightarrow> x = d \<and> like p' t))
      else (case s of [] \<Rightarrow> False | x # t \<Rightarrow> x = c \<and> like p t))"
  by pat_completeness auto
termination
  by (relation "measure (\<lambda>(p, s). length p + length s)") auto

declare like.simps(2) [simp del]

definition replace_char :: "char \<Rightarrow> string \<Rightarrow> string \<Rightarrow> string" where
  "replace_char c r s = concat (map (\<lambda>x. if x = c then r else [x]) s)"

definition like_escape :: "string \<Rightarrow> string" where
  "like_escape term =
     replace_char (CHR ''_'') [CHR 0x5C, CHR ''_'']
       (replace_char (CHR ''%'') [CHR 0x5C, CHR ''%'']
         (replace_char (CHR 0x5C) [CHR 0x5C, CHR 0x5C] term))"

section \<open>The database\<close>

record 'v krow =
  kr_id :: string
  kr_type :: string
  kr_name :: string
  kr_content :: string
  kr_acl :: "string list option"
  kr_scope :: scope
  kr_embedding :: "'v option"

record 'v kgdb =
  db_rows :: "'v krow list"
  db_relations :: "relation list"
  db_uniq :: bool
  db_dim :: "int option"

record 'v pg_kg_env =
  pe_float :: float_env
  pe_collate :: "string \<Rightarrow> string"
  pe_fts :: "string \<Rightarrow> string \<Rightarrow> bool"
  pe_fold :: "string \<Rightarrow> string"
  pe_cast :: "string \<Rightarrow> 'v result"
  pe_width :: "'v \<Rightarrow> int"
  pe_nearest :: "'v \<Rightarrow> 'v krow list \<Rightarrow> 'v krow list result"
  pe_vector_ddl :: "int \<Rightarrow> unit result"

definition row_to_entity :: "'v krow \<Rightarrow> entity" where
  "row_to_entity r =
     \<lparr>en_id = kr_id r, en_type = kr_type r, en_name = kr_name r, en_content = kr_content r,
      en_acl = (case kr_acl r of None \<Rightarrow> [] | Some acl \<Rightarrow> acl), en_scope = kr_scope r\<rparr>"

definition vector_literal :: "float_env \<Rightarrow> vec \<Rightarrow> string" where
  "vector_literal fl v = ''['' @ join '','' (map (fl_repr fl) v) @ '']''"

definition embedding_text :: "entity \<Rightarrow> string" where
  "embedding_text e = en_name e @ [CHR 0x0A] @ en_content e"

definition data_exception :: "string \<Rightarrow> exn" where
  "data_exception msg = Exn ''DataException'' msg"

definition undefined_column :: exn where
  "undefined_column = Exn ''UndefinedColumn'' ''column embedding does not exist''"

text \<open>\<open>%s::vector\<close> stored in a column \<open>vector(n)\<close>: the literal is parsed and its width checked. A column that
  was declared without a width (type modifier \<open>-1\<close>) takes every vector.\<close>

definition column_value :: "'v pg_kg_env \<Rightarrow> 'v kgdb \<Rightarrow> string \<Rightarrow> 'v result" where
  "column_value pe db lit =
     (case db_dim db of
        None \<Rightarrow> Inl undefined_column
      | Some d \<Rightarrow> result_bind (pe_cast pe lit) (\<lambda>v.
          if d < 0 \<or> pe_width pe v = d then Inr v else Inl (data_exception ''expected a different number of dimensions'')))"

section \<open>Writes\<close>

text \<open>\<open>_UPSERT_ENTITY\<close> and \<open>_UPSERT_ENTITY_VEC\<close>: an existing row keeps its embedding unless a new one is given.\<close>

definition new_row :: "entity \<Rightarrow> 'v option \<Rightarrow> 'v krow" where
  "new_row e emb = \<lparr>kr_id = en_id e, kr_type = en_type e, kr_name = en_name e, kr_content = en_content e,
     kr_acl = Some (en_acl e), kr_scope = en_scope e, kr_embedding = emb\<rparr>"

fun upsert_row :: "entity \<Rightarrow> 'v option \<Rightarrow> 'v krow list \<Rightarrow> 'v krow list" where
  "upsert_row e emb [] = [new_row e emb]"
| "upsert_row e emb (r # rs) =
     (if kr_id r = en_id e
      then new_row e (case emb of None \<Rightarrow> kr_embedding r | Some v \<Rightarrow> Some v) # rs
      else r # upsert_row e emb rs)"

definition exec_upsert :: "'v pg_kg_env \<Rightarrow> entity \<Rightarrow> vec option \<Rightarrow> 'v kgdb \<Rightarrow> 'v kgdb result" where
  "exec_upsert pe e vector db =
     (case vector of
        None \<Rightarrow> Inr (db\<lparr>db_rows := upsert_row e None (db_rows db)\<rparr>)
      | Some v \<Rightarrow> result_bind (column_value pe db (vector_literal (pe_float pe) v)) (\<lambda>x.
          Inr (db\<lparr>db_rows := upsert_row e (Some x) (db_rows db)\<rparr>)))"

definition exec_insert_relation :: "relation \<Rightarrow> 'v kgdb \<Rightarrow> 'v kgdb result" where
  "exec_insert_relation r db =
     (if \<not> db_uniq db
      then Inl (Exn ''InvalidColumnReference'' ''there is no unique constraint matching the ON CONFLICT specification'')
      else if list_ex (\<lambda>r'. (rel_src r', rel_dst r', rel_type r') = (rel_src r, rel_dst r, rel_type r)) (db_relations db)
      then Inr db
      else Inr (db\<lparr>db_relations := db_relations db @ [r]\<rparr>))"

text \<open>\<open>try: vector = self._embedder.embed_one(...) except Exception: vector = None\<close>.\<close>

definition try_embed :: "'w embedder option \<Rightarrow> 'w \<Rightarrow> entity \<Rightarrow> vec option \<times> 'w" where
  "try_embed emb w e =
     (case emb of
        None \<Rightarrow> (None, w)
      | Some em \<Rightarrow> (case embed_one em w (embedding_text e) DOCUMENT of
            (Inl _, w') \<Rightarrow> (None, w')
          | (Inr v, w') \<Rightarrow> (Some v, w')))"

text \<open>A transaction: the new database, or the old one with the error.\<close>

definition commit :: "'v kgdb \<Rightarrow> 'v kgdb result \<Rightarrow> unit result \<times> 'v kgdb" where
  "commit db r = (case r of Inl e \<Rightarrow> (Inl e, db) | Inr db' \<Rightarrow> (Inr (), db'))"

definition pg_upsert_entity ::
  "'v pg_kg_env \<Rightarrow> 'w embedder option \<Rightarrow> entity \<Rightarrow> 'v kgdb \<times> 'w \<Rightarrow> unit result \<times> 'v kgdb \<times> 'w" where
  "pg_upsert_entity pe emb e = (\<lambda>(db, w).
     let (vector, w') = try_embed emb w e;
         (res, db') = commit db (exec_upsert pe e vector db)
     in (res, db', w'))"

definition pg_add_relation :: "relation \<Rightarrow> 'v kgdb \<Rightarrow> unit result \<times> 'v kgdb" where
  "pg_add_relation r db = commit db (exec_insert_relation r db)"

fun embed_all :: "'w embedder option \<Rightarrow> 'w \<Rightarrow> entity list \<Rightarrow> (entity \<times> vec option) list \<times> 'w" where
  "embed_all emb w [] = ([], w)"
| "embed_all emb w (e # es) =
     (let (vector, w') = try_embed emb w e; (evs, w'') = embed_all emb w' es in ((e, vector) # evs, w''))"

fun exec_upserts :: "'v pg_kg_env \<Rightarrow> (entity \<times> vec option) list \<Rightarrow> 'v kgdb \<Rightarrow> 'v kgdb result" where
  "exec_upserts pe [] db = Inr db"
| "exec_upserts pe ((e, vector) # evs) db = result_bind (exec_upsert pe e vector db) (exec_upserts pe evs)"

fun exec_insert_relations :: "relation list \<Rightarrow> 'v kgdb \<Rightarrow> 'v kgdb result" where
  "exec_insert_relations [] db = Inr db"
| "exec_insert_relations (r # rs) db = result_bind (exec_insert_relation r db) (exec_insert_relations rs)"

text \<open>\<open>_DELETE_RELATIONS_BY_ENTITY_PREFIX\<close> and \<open>_DELETE_ENTITIES_BY_PREFIX\<close>.\<close>

definition delete_by_pattern :: "string \<Rightarrow> 'v kgdb \<Rightarrow> 'v kgdb" where
  "delete_by_pattern pat db =
     db\<lparr>db_relations := filter (\<lambda>r. \<not> (like pat (rel_src r) \<or> like pat (rel_dst r))) (db_relations db),
        db_rows := filter (\<lambda>r. \<not> like pat (kr_id r)) (db_rows db)\<rparr>"

definition pg_persist_extraction ::
  "'v pg_kg_env \<Rightarrow> 'w embedder option \<Rightarrow> string \<Rightarrow> string \<Rightarrow> entity list \<Rightarrow> relation list \<Rightarrow> 'v kgdb \<times> 'w
     \<Rightarrow> unit result \<times> 'v kgdb \<times> 'w" where
  "pg_persist_extraction pe emb owner_segment source_id es rels = (\<lambda>(db, w).
     let like_pattern = like_escape (extraction_entity_prefix owner_segment source_id) @ ''%'';
         (entity_vectors, w') = embed_all emb w es;
         (res, db') = commit db
           (result_bind (exec_upserts pe entity_vectors (delete_by_pattern like_pattern db))
             (exec_insert_relations rels))
     in (res, db', w'))"

definition pg_relations :: "'v pg_kg_env \<Rightarrow> 'v kgdb \<Rightarrow> relation list" where
  "pg_relations pe db =
     sort_key (\<lambda>r. pe_collate pe (rel_src r)) (sort_key (\<lambda>r. pe_collate pe (rel_dst r)) (db_relations db))"

section \<open>Setup and backfill\<close>

text \<open>\<open>_DEDUPE_RELATIONS\<close>: a row goes when an equal one comes later in the heap.\<close>

fun dedupe_relations :: "relation list \<Rightarrow> relation list" where
  "dedupe_relations [] = []"
| "dedupe_relations (a # rs) =
     (if list_ex (\<lambda>b. rel_src a = rel_src b \<and> rel_dst a = rel_dst b \<and> rel_type a = rel_type b) rs
      then dedupe_relations rs else a # dedupe_relations rs)"

definition reset_column :: "int \<Rightarrow> 'v kgdb \<Rightarrow> 'v kgdb" where
  "reset_column width db =
     db\<lparr>db_dim := Some width, db_rows := map (\<lambda>r. r\<lparr>kr_embedding := None\<rparr>) (db_rows db)\<rparr>"

definition embedding_column_dim :: "'v kgdb \<Rightarrow> int option" where
  "embedding_column_dim db = (case db_dim db of None \<Rightarrow> None | Some d \<Rightarrow> if d < 0 then None else Some d)"

definition setup_schema :: "'v pg_kg_env \<Rightarrow> int option \<Rightarrow> 'v kgdb \<Rightarrow> 'v kgdb result" where
  "setup_schema pe width db =
     (let db1 = db\<lparr>db_relations := dedupe_relations (db_relations db), db_uniq := True\<rparr>
      in case width of
           None \<Rightarrow> Inr db1
         | Some d \<Rightarrow> result_bind (pe_vector_ddl pe d) (\<lambda>_.
             let db2 = (if db_dim db1 = None then reset_column d db1 else db1);
                 existing = embedding_column_dim db2
             in Inr (if existing \<noteq> None \<and> existing \<noteq> Some d then reset_column d db2 else db2)))"

definition null_rows :: "'v kgdb \<Rightarrow> 'v krow list" where
  "null_rows db = filter (\<lambda>r. kr_embedding r = None) (db_rows db)"

definition BACKFILL_BATCH :: nat where
  "BACKFILL_BATCH = 50"

definition set_embedding :: "string \<Rightarrow> 'v \<Rightarrow> 'v kgdb \<Rightarrow> 'v kgdb" where
  "set_embedding i v db =
     db\<lparr>db_rows := map (\<lambda>r. if kr_id r = i then r\<lparr>kr_embedding := Some v\<rparr> else r) (db_rows db)\<rparr>"

text \<open>The update loop over \<open>zip(rows, vectors, strict=True)\<close>.\<close>

fun update_vectors :: "'v pg_kg_env \<Rightarrow> 'v krow list \<Rightarrow> vec list \<Rightarrow> 'v kgdb \<Rightarrow> 'v kgdb result" where
  "update_vectors pe [] [] db = Inr db"
| "update_vectors pe (r # rs) (v # vs) db =
     result_bind (column_value pe db (vector_literal (pe_float pe) v)) (\<lambda>x.
       update_vectors pe rs vs (set_embedding (kr_id r) x db))"
| "update_vectors pe (r # rs) [] db = Inl (Exn ''ValueError'' ''zip() argument 2 is shorter than argument 1'')"
| "update_vectors pe [] (v # vs) db = Inl (Exn ''ValueError'' ''zip() argument 2 is longer than argument 1'')"

lemma null_rows_set_embedding:
  "null_rows (set_embedding i v db) = filter (\<lambda>r. kr_id r \<noteq> i) (null_rows db)"
proof -
  have "filter (\<lambda>r. kr_embedding r = None) (map (\<lambda>r. if kr_id r = i then r\<lparr>kr_embedding := Some v\<rparr> else r) rs) =
      filter (\<lambda>r. kr_id r \<noteq> i) (filter (\<lambda>r. kr_embedding r = None) rs)" for rs
    by (induction rs) auto
  then show ?thesis by (simp add: null_rows_def set_embedding_def)
qed

lemma update_vectors_null_rows:
  "update_vectors pe rs vs db = Inr db' \<Longrightarrow>
   null_rows db' = filter (\<lambda>r. kr_id r \<notin> kr_id ` set rs) (null_rows db)"
  by (induction pe rs vs db rule: update_vectors.induct)
    (auto simp: result_bind_Inr_iff null_rows_set_embedding intro!: filter_cong)

lemma backfill_progress:
  assumes "take BACKFILL_BATCH (null_rows db) \<noteq> []"
    and "update_vectors pe (take BACKFILL_BATCH (null_rows db)) vs db = Inr db'"
  shows "length (null_rows db') < length (null_rows db)"
proof -
  have "\<exists>r. r \<in> set (take BACKFILL_BATCH (null_rows db))" using assms(1) by (meson hd_in_set)
  then obtain r where r: "r \<in> set (take BACKFILL_BATCH (null_rows db))" ..
  then have "r \<in> set (null_rows db)" by (rule in_set_takeD)
  then have "length (filter (\<lambda>r. kr_id r \<notin> kr_id ` set (take BACKFILL_BATCH (null_rows db))) (null_rows db))
      < length (null_rows db)"
    by (rule length_filter_less) (use r in blast)
  then show ?thesis unfolding update_vectors_null_rows [OF assms(2)] .
qed

function backfill :: "'v pg_kg_env \<Rightarrow> 'w embedder \<Rightarrow> 'v kgdb \<Rightarrow> 'w \<Rightarrow> unit result \<times> 'v kgdb \<times> 'w" where
  "backfill pe em db w =
     (let rows = take BACKFILL_BATCH (null_rows db)
      in if rows = [] then (Inr (), db, w)
         else case em_embed em w (map (\<lambda>r. kr_name r @ [CHR 0x0A] @ kr_content r) rows) DOCUMENT of
                (Inl e, w') \<Rightarrow> (Inl e, db, w')
              | (Inr vectors, w') \<Rightarrow>
                  (case update_vectors pe rows vectors db of
                     Inl e \<Rightarrow> (Inl e, db, w')
                   | Inr db' \<Rightarrow> backfill pe em db' w'))"
  by pat_completeness auto
termination
  by (relation "measure (\<lambda>(pe, em, db, w). length (null_rows db))") (auto intro: backfill_progress)

declare backfill.simps [simp del]

definition pg_setup ::
  "'v pg_kg_env \<Rightarrow> 'w embedder option \<Rightarrow> 'v kgdb \<times> 'w \<Rightarrow> unit result \<times> 'v kgdb \<times> 'w" where
  "pg_setup pe emb = (\<lambda>(db, w).
     case commit db (setup_schema pe (map_option em_dim emb) db) of
       (Inl e, db') \<Rightarrow> (Inl e, db', w)
     | (Inr _, db') \<Rightarrow> (case emb of None \<Rightarrow> (Inr (), db', w) | Some em \<Rightarrow> backfill pe em db' w))"

section \<open>Queries\<close>

record query_params =
  qp_is_admin :: bool
  qp_exact :: "string set"
  qp_wildcard_like :: "string set"
  qp_identity_prefix :: string
  qp_match_all :: bool
  qp_text :: string
  qp_patterns :: "string list"

text \<open>\<open>_RBAC_PREDICATE\<close>, as the two queries inline it.\<close>

definition rbac_predicate :: "query_params \<Rightarrow> 'v krow \<Rightarrow> bool" where
  "rbac_predicate q r =
     (case kr_acl r of
        None \<Rightarrow> True
      | Some acl \<Rightarrow>
          length acl = 0 \<or>
          list_ex (\<lambda>a. a \<in> qp_exact q) acl \<or>
          list_ex (\<lambda>a. \<not> like (qp_identity_prefix q) a \<and> (\<exists>pat \<in> qp_wildcard_like q. like pat a)) acl \<or>
          (qp_is_admin q \<and>
            (list_ex (\<lambda>a. \<not> like (qp_identity_prefix q) a) acl \<or> list_ex (\<lambda>a. a \<in> qp_exact q) acl)))"

text \<open>The relevance condition of \<open>_QUERY\<close>; \<open>ILIKE\<close> folds the case of both sides.\<close>

definition relevant :: "'v pg_kg_env \<Rightarrow> query_params \<Rightarrow> 'v krow \<Rightarrow> bool" where
  "relevant pe q r =
     (qp_match_all q \<or>
      pe_fts pe (kr_name r @ '' '' @ kr_content r) (qp_text q) \<or>
      list_ex (\<lambda>pat. like (pe_fold pe pat) (pe_fold pe (kr_name r))) (qp_patterns q) \<or>
      list_ex (\<lambda>pat. like (pe_fold pe pat) (pe_fold pe (kr_content r))) (qp_patterns q))"

text \<open>The rows of \<open>_QUERY\<close> without \<open>LIMIT\<close> and \<open>OFFSET\<close>, one page of them, and the rows of \<open>_VECTOR_QUERY\<close>.\<close>

definition fts_rows :: "'v pg_kg_env \<Rightarrow> query_params \<Rightarrow> 'v kgdb \<Rightarrow> 'v krow list" where
  "fts_rows pe q db =
     sort_key (\<lambda>r. pe_collate pe (kr_id r)) (filter (\<lambda>r. rbac_predicate q r \<and> relevant pe q r) (db_rows db))"

definition page :: "nat \<Rightarrow> nat \<Rightarrow> 'a list \<Rightarrow> 'a list" where
  "page batch offset xs = take batch (drop offset xs)"

definition vector_rows :: "'v pg_kg_env \<Rightarrow> query_params \<Rightarrow> string \<Rightarrow> int \<Rightarrow> 'v kgdb \<Rightarrow> 'v krow list result" where
  "vector_rows pe q qvec pool db =
     (if db_dim db = None then Inl undefined_column
      else if pool < 0 then Inl (data_exception ''LIMIT must not be negative'')
      else result_bind (pe_cast pe qvec) (\<lambda>v.
        result_bind (pe_nearest pe v (filter (\<lambda>r. rbac_predicate q r \<and> kr_embedding r \<noteq> None) (db_rows db)))
          (\<lambda>rows. Inr (take (nat pool) rows))))"

text \<open>The scan of one page: the results so far and whether the limit was reached.\<close>

fun scan_page :: "(entity \<Rightarrow> bool) \<Rightarrow> nat \<Rightarrow> 'v krow list \<Rightarrow> entity list \<Rightarrow> entity list \<times> bool" where
  "scan_page readable limit [] results = (results, False)"
| "scan_page readable limit (row # rows) results =
     (let e = row_to_entity row
      in if readable e
         then (let results' = results @ [e]
               in if length results' \<ge> limit then (results', True) else scan_page readable limit rows results')
         else scan_page readable limit rows results)"

text \<open>The loop of \<open>_fts_query\<close> over the pages; the batch is the limit.\<close>

function fts_loop :: "(entity \<Rightarrow> bool) \<Rightarrow> nat \<Rightarrow> 'v krow list \<Rightarrow> nat \<Rightarrow> entity list \<Rightarrow> entity list" where
  "fts_loop readable limit hits offset results =
     (if length results < limit
      then (let rows = page limit offset hits
            in if rows = [] then results
               else case scan_page readable limit rows results of
                      (results', True) \<Rightarrow> results'
                    | (results', False) \<Rightarrow>
                        if length rows < limit then results'
                        else fts_loop readable limit hits (offset + length rows) results')
      else results)"
  by pat_completeness auto
termination
  by (relation "measure (\<lambda>(readable, limit, hits, offset, results). length hits - offset)")
    (auto simp: page_def)

declare fts_loop.simps [simp del]

definition fts_query :: "'v pg_kg_env \<Rightarrow> policy \<Rightarrow> principal option \<Rightarrow> query_params \<Rightarrow> int \<Rightarrow> 'v kgdb \<Rightarrow> entity list" where
  "fts_query pe pol p q limit db =
     (if 0 < limit then fts_loop (can_read (Some pol) p) (nat limit) (fts_rows pe q db) 0 [] else [])"

section \<open>Hybrid retrieval\<close>

definition RRF_K :: nat where
  "RRF_K = 60"

definition CANDIDATE_MULTIPLIER :: int where
  "CANDIDATE_MULTIPLIER = 4"

text \<open>\<open>scores[id] = scores.get(id, 0.0) + 1.0 / (k + rank + 1)\<close>, over one ranking.\<close>

fun rrf_scores :: "float_env \<Rightarrow> nat \<Rightarrow> nat \<Rightarrow> string list \<Rightarrow> real dict \<Rightarrow> real dict" where
  "rrf_scores fl k rank [] scores = scores"
| "rrf_scores fl k rank (i # is) scores =
     rrf_scores fl k (Suc rank) is
       (dict_set i (fl_rnd fl ((case dict_get scores i of None \<Rightarrow> 0 | Some s \<Rightarrow> s) + fl_rnd fl (1 / real (k + rank + 1)))) scores)"

definition rrf_table :: "float_env \<Rightarrow> string list list \<Rightarrow> nat \<Rightarrow> real dict" where
  "rrf_table fl rankings k = foldl (\<lambda>scores ranking. rrf_scores fl k 0 ranking scores) [] rankings"

text \<open>\<open>sorted(..., reverse=True)\<close> keeps the order of equal keys.\<close>

definition rrf_fuse :: "float_env \<Rightarrow> string list list \<Rightarrow> nat \<Rightarrow> string list" where
  "rrf_fuse fl rankings k =
     (let scores = rrf_table fl rankings k in sort_key (\<lambda>i. - the (dict_get scores i)) (dict_keys scores))"

text \<open>Collecting rows: \<open>entities_by_id[entity.id] = entity\<close>, and the ids not yet in the ranking.\<close>

definition collect_rows :: "'v krow list \<Rightarrow> entity dict \<Rightarrow> entity dict" where
  "collect_rows rows by_id = foldl (\<lambda>d r. dict_set (kr_id r) (row_to_entity r) d) by_id rows"

definition collect_ids :: "'v krow list \<Rightarrow> string list \<Rightarrow> string list" where
  "collect_ids rows ids = foldl (\<lambda>is r. if kr_id r \<in> set is then is else is @ [kr_id r]) ids rows"

text \<open>The inner loop over the fused ranking.\<close>

fun scan_fused ::
  "(entity \<Rightarrow> bool) \<Rightarrow> nat \<Rightarrow> entity dict \<Rightarrow> string list \<Rightarrow> string set \<Rightarrow> entity list \<Rightarrow> entity list \<times> string set \<times> bool" where
  "scan_fused readable limit by_id [] considered results = (results, considered, False)"
| "scan_fused readable limit by_id (i # is) considered results =
     (if i \<in> considered then scan_fused readable limit by_id is considered results
      else let considered' = insert i considered; e = the (dict_get by_id i)
           in if readable e
              then (let results' = results @ [e]
                    in if length results' \<ge> limit then (results', considered', True)
                       else scan_fused readable limit by_id is considered' results')
              else scan_fused readable limit by_id is considered' results)"

function hybrid_loop ::
  "float_env \<Rightarrow> (entity \<Rightarrow> bool) \<Rightarrow> nat \<Rightarrow> 'v krow list \<Rightarrow> string list \<Rightarrow> nat \<Rightarrow> entity dict \<Rightarrow> string list
     \<Rightarrow> string set \<Rightarrow> entity list \<Rightarrow> entity list" where
  "hybrid_loop fl readable limit hits vec_ids offset by_id fts_ids considered results =
     (if length results < limit
      then (let rows = page limit offset hits
            in if rows = [] then results
               else let by_id' = collect_rows rows by_id; fts_ids' = collect_ids rows fts_ids
                    in case scan_fused readable limit by_id' (rrf_fuse fl [fts_ids', vec_ids] RRF_K) considered results of
                         (results', considered', True) \<Rightarrow> results'
                       | (results', considered', False) \<Rightarrow>
                           if length rows < limit then results'
                           else hybrid_loop fl readable limit hits vec_ids (offset + length rows) by_id' fts_ids'
                                  considered' results')
      else results)"
  by pat_completeness auto
termination
  by (relation "measure (\<lambda>(fl, readable, limit, hits, vec_ids, offset, _). length hits - offset)")
    (auto simp: page_def)

declare hybrid_loop.simps [simp del]

definition hybrid_query ::
  "'v pg_kg_env \<Rightarrow> 'w embedder \<Rightarrow> policy \<Rightarrow> principal option \<Rightarrow> string \<Rightarrow> query_params \<Rightarrow> int \<Rightarrow> 'v kgdb \<Rightarrow> 'w
     \<Rightarrow> entity list result \<times> 'w" where
  "hybrid_query pe em pol p txt q limit db w =
     (case embed_one em w txt QUERY of
        (Inl _, w') \<Rightarrow> (Inr (fts_query pe pol p q limit db), w')
      | (Inr v, w') \<Rightarrow>
          (let pool = max (limit * CANDIDATE_MULTIPLIER) limit
           in case vector_rows pe q (vector_literal (pe_float pe) v) pool db of
                Inl e \<Rightarrow> (if exc_class e = ''DataException'' then Inr (fts_query pe pol p q limit db) else Inl e, w')
              | Inr rows \<Rightarrow>
                  (Inr (if 0 < limit
                        then hybrid_loop (pe_float pe) (can_read (Some pol) p) (nat limit) (fts_rows pe q db)
                               (map kr_id rows) 0 (collect_rows rows []) [] {} []
                        else []), w')))"

definition query_terms :: "string \<Rightarrow> string list" where
  "query_terms txt = filter (\<lambda>t. t \<noteq> []) (split_ws (lower txt))"

definition mk_query_params :: "policy \<Rightarrow> principal option \<Rightarrow> string \<Rightarrow> query_params" where
  "mk_query_params pol p txt =
     (let permissions = pol p
      in \<lparr>qp_is_admin = WILDCARD \<in> permissions,
          qp_exact = Set.filter (\<lambda>g. g \<noteq> WILDCARD \<and> \<not> endswith g '':*'') permissions \<union>
            (case p of None \<Rightarrow> {} | Some u \<Rightarrow> {identity_acl (user_id u)}),
          qp_wildcard_like = (\<lambda>g. like_escape (butlast g) @ ''%'') ` Set.filter (\<lambda>g. endswith g '':*'') permissions,
          qp_identity_prefix = IDENTITY_ACL_PREFIX @ ''%'',
          qp_match_all = (query_terms txt = []),
          qp_text = txt,
          qp_patterns = map (\<lambda>t. ''%'' @ like_escape t @ ''%'') (query_terms txt)\<rparr>)"

definition pg_query ::
  "'v pg_kg_env \<Rightarrow> 'w embedder option \<Rightarrow> policy \<Rightarrow> principal option \<Rightarrow> string \<Rightarrow> int \<Rightarrow> 'v kgdb \<Rightarrow> 'w
     \<Rightarrow> entity list result \<times> 'w" where
  "pg_query pe emb pol p txt limit db w =
     (let q = mk_query_params pol p txt
      in case emb of
           None \<Rightarrow> (Inr (fts_query pe pol p q limit db), w)
         | Some em \<Rightarrow>
             if query_terms txt = [] then (Inr (fts_query pe pol p q limit db), w)
             else hybrid_query pe em pol p txt q limit db w)"

text \<open>The object: the bound policy (the built-in one by default) and the embedder. \<open>__init__\<close> runs the setup.\<close>

record 'w pg_graph =
  pk_policy :: policy
  pk_embedder :: "'w embedder option"

definition pg_graph_init ::
  "'v pg_kg_env \<Rightarrow> policy option \<Rightarrow> 'w embedder option \<Rightarrow> bool \<Rightarrow> 'v kgdb \<times> 'w \<Rightarrow> 'w pg_graph result \<times> 'v kgdb \<times> 'w" where
  "pg_graph_init pe pol emb run_setup = (\<lambda>(db, w).
     let g = \<lparr>pk_policy = (case pol of None \<Rightarrow> mem_effective_permissions ROLE_PERMISSIONS | Some s \<Rightarrow> s), pk_embedder = emb\<rparr>
     in if run_setup
        then (case pg_setup pe emb (db, w) of
                (Inl e, db', w') \<Rightarrow> (Inl e, db', w')
              | (Inr _, db', w') \<Rightarrow> (Inr g, db', w'))
        else (Inr g, db, w))"

definition pg_bind_policy :: "policy \<Rightarrow> 'w pg_graph \<Rightarrow> 'w pg_graph" where
  "pg_bind_policy pol g = g\<lparr>pk_policy := pol\<rparr>"

section \<open>Patterns\<close>

lemma like_percent: "like (CHR ''%'' # p) s \<longleftrightarrow> (\<exists>a b. s = a @ b \<and> like p b)"
proof (induction s)
  case (Cons x s)
  have "like (CHR ''%'' # p) (x # s) \<longleftrightarrow> like p (x # s) \<or> (\<exists>a b. s = a @ b \<and> like p b)"
    using Cons by (subst like.simps) simp
  also have "\<dots> \<longleftrightarrow> (\<exists>a b. x # s = a @ b \<and> like p b)" by (auto simp: Cons_eq_append_conv)
  finally show ?case .
qed (subst like.simps, simp)

lemma like_any [simp]: "like ''%'' s"
  by (simp add: like_percent)

definition special :: "char \<Rightarrow> bool" where
  "special c \<longleftrightarrow> c = CHR ''%'' \<or> c = CHR ''_'' \<or> c = CHR 0x5C"

lemma like_escape_Cons:
  "like_escape (c # s) = (if special c then [CHR 0x5C, c] else [c]) @ like_escape s"
  by (auto simp: like_escape_def replace_char_def special_def)

lemma like_escape_Nil [simp]: "like_escape [] = []"
  by (simp add: like_escape_def replace_char_def)

lemma like_escaped: "like (like_escape t @ p) s \<longleftrightarrow> (\<exists>r. s = t @ r \<and> like p r)"
proof (induction t arbitrary: s)
  case (Cons c t)
  have "like (like_escape (c # t) @ p) s \<longleftrightarrow> (\<exists>s'. s = c # s' \<and> like (like_escape t @ p) s')"
    by (cases s) (auto simp: like_escape_Cons special_def like.simps(2))
  with Cons show ?case by auto
qed simp

lemma like_prefix: "like (like_escape t @ ''%'') s \<longleftrightarrow> startswith s t"
  by (auto simp: like_escaped prefix_def)

lemma like_substring: "like (''%'' @ like_escape t @ ''%'') s \<longleftrightarrow> str_in t s"
  by (auto simp: like_percent like_escaped str_in_iff sublist_def)

lemma identity_unescaped: "like_escape IDENTITY_ACL_PREFIX = IDENTITY_ACL_PREFIX"
  by (simp add: IDENTITY_ACL_PREFIX_def like_escape_Cons special_def)

lemma like_identity: "like (IDENTITY_ACL_PREFIX @ ''%'') a \<longleftrightarrow> startswith a IDENTITY_ACL_PREFIX"
  using like_prefix [of IDENTITY_ACL_PREFIX a] by (simp add: identity_unescaped)

section \<open>The access predicate in SQL\<close>

lemma prefix_butlast_self: "prefix (butlast xs) xs"
  by (cases xs rule: rev_cases) simp_all

lemma hierarchical_like:
  "(\<exists>pat \<in> qp_wildcard_like (mk_query_params pol p q). like pat a) \<longleftrightarrow>
   (\<exists>g \<in> pol p. endswith g '':*'' \<and> startswith a (butlast g))"
  by (auto simp: mk_query_params_def Let_def like_prefix)

text \<open>The predicate hides no row that the caller may read.\<close>

lemma rbac_predicate_complete:
  assumes "can_read (Some pol) p (row_to_entity r)"
  shows "rbac_predicate (mk_query_params pol p q) r"
proof (cases "kr_acl r")
  case (Some acl)
  let ?q = "mk_query_params pol p q"
  have "acl = [] \<or> (\<exists>a \<in> set acl. (\<exists>u. p = Some u \<and> a = identity_acl (user_id u)) \<or>
      (\<not> startswith a IDENTITY_ACL_PREFIX \<and> permission_satisfied (pol p) a))"
    using assms by (simp add: can_read_iff row_to_entity_def Some store_of_def policy_can_def)
  moreover have "rbac_predicate ?q r" if "a \<in> set acl" "p = Some u" "a = identity_acl (user_id u)" for a u
    using that by (auto simp: rbac_predicate_def Some list_ex_iff mk_query_params_def Let_def)
  moreover have "rbac_predicate ?q r"
    if a: "a \<in> set acl" "\<not> startswith a IDENTITY_ACL_PREFIX" "permission_satisfied (pol p) a" for a
  proof -
    have i: "\<not> like (qp_identity_prefix ?q) a" using a(2) by (simp add: mk_query_params_def Let_def like_identity)
    have "WILDCARD \<in> pol p \<or> a \<in> qp_exact ?q \<or> (\<exists>g \<in> pol p. endswith g '':*'' \<and> startswith a (butlast g))"
      using a(3) prefix_butlast_self [of a]
      by (auto simp: permission_satisfied_def mk_query_params_def Let_def split: if_splits)
    moreover have "WILDCARD \<in> pol p \<Longrightarrow> qp_is_admin ?q" by (simp add: mk_query_params_def Let_def)
    ultimately show ?thesis
      unfolding rbac_predicate_def Some option.case hierarchical_like list_ex_iff using a(1) i by blast
  qed
  ultimately show ?thesis by (auto simp: rbac_predicate_def Some)
qed (simp add: rbac_predicate_def)

text \<open>It shows no identity-only row to anybody but the owner, unless a role names that identity entry.\<close>

lemma rbac_predicate_sound:
  assumes "rbac_predicate (mk_query_params pol p q) r"
    and "\<forall>g \<in> pol p. \<not> startswith g IDENTITY_ACL_PREFIX"
  shows "can_read (Some pol) p (row_to_entity r)"
proof (cases "kr_acl r")
  case (Some acl)
  let ?q = "mk_query_params pol p q"
  let ?ok = "\<lambda>a. (\<exists>u. p = Some u \<and> a = identity_acl (user_id u)) \<or>
      (\<not> startswith a IDENTITY_ACL_PREFIX \<and> permission_satisfied (pol p) a)"
  have ex: "?ok a" if "a \<in> qp_exact ?q" for a
    using that assms(2) by (auto simp: mk_query_params_def Let_def permission_satisfied_def split: option.splits)
  have adm: "?ok a" if "qp_is_admin ?q" "\<not> like (qp_identity_prefix ?q) a" for a
    using that by (simp add: mk_query_params_def Let_def like_identity permission_satisfied_def)
  have wild: "?ok a" if "\<not> like (qp_identity_prefix ?q) a" "\<exists>pat \<in> qp_wildcard_like ?q. like pat a" for a
    using that unfolding hierarchical_like
    by (simp add: mk_query_params_def Let_def like_identity permission_satisfied_def)
  have "acl = [] \<or> (\<exists>a \<in> set acl. a \<in> qp_exact ?q \<or>
      (\<not> like (qp_identity_prefix ?q) a \<and> (\<exists>pat \<in> qp_wildcard_like ?q. like pat a)) \<or>
      (qp_is_admin ?q \<and> \<not> like (qp_identity_prefix ?q) a))"
    using assms(1) unfolding rbac_predicate_def Some option.case list_ex_iff length_0_conv by blast
  then have "acl = [] \<or> (\<exists>a \<in> set acl. ?ok a)" using ex adm wild by meson
  then show ?thesis by (simp add: can_read_iff row_to_entity_def Some store_of_def policy_can_def)
qed (simp add: row_to_entity_def can_read_def)

section \<open>Pagination\<close>

lemma scan_page_eq:
  "length results < limit \<Longrightarrow>
   scan_page readable limit rows results =
     (let all = results @ filter readable (map row_to_entity rows) in (take limit all, limit \<le> length all))"
proof (induction rows arbitrary: results)
  case (Cons row rows)
  show ?case
  proof (cases "readable (row_to_entity row) \<and> limit \<le> Suc (length results)")
    case True
    with Cons.prems have "Suc (length results) = limit" by simp
    with True show ?thesis by (auto simp: Let_def)
  next
    case False
    have "Suc (length results) < limit \<Longrightarrow> limit - length results = Suc (limit - Suc (length results))" by simp
    with False show ?thesis using Cons by (auto simp: Let_def not_le)
  qed
qed (simp add: Let_def)

lemma page_split: "drop offset xs = page batch offset xs @ drop (offset + length (page batch offset xs)) xs"
proof -
  have "ys = take batch ys @ drop (length (take batch ys)) ys" for ys :: "'a list"
    by (cases "batch \<le> length ys") simp_all
  from this [of "drop offset xs"] show ?thesis by (simp add: page_def add.commute)
qed

text \<open>The paged scan is the filter of all hits, cut at the limit.\<close>

lemma fts_loop_eq:
  "length results \<le> limit \<Longrightarrow>
   fts_loop readable limit hits offset results =
     take limit (results @ filter readable (map row_to_entity (drop offset hits)))"
proof (induction readable limit hits offset results rule: fts_loop.induct)
  case (1 readable limit hits offset results)
  let ?rows = "page limit offset hits"
  let ?rest = "drop (offset + length ?rows) hits"
  let ?all = "results @ filter readable (map row_to_entity ?rows)"
  have split: "drop offset hits = ?rows @ ?rest" by (rule page_split)
  show ?case
  proof (cases "length results < limit \<and> ?rows \<noteq> []")
    case False
    with 1(2) have "length results = limit \<or> drop offset hits = []" by (auto simp: page_def)
    with 1(2) False show ?thesis by (subst fts_loop.simps) (auto simp: Let_def)
  next
    case True
    have sp: "scan_page readable limit ?rows results = (take limit ?all, limit \<le> length ?all)"
      using True by (simp add: scan_page_eq Let_def)
    show ?thesis
    proof (cases "limit \<le> length ?all")
      case full: True
      with True sp show ?thesis by (subst fts_loop.simps) (simp add: Let_def split)
    next
      case more: False
      show ?thesis
      proof (cases "length ?rows < limit")
        case True
        then have "?rest = []" by (auto simp: page_def)
        with more \<open>length results < limit \<and> ?rows \<noteq> []\<close> sp True show ?thesis
          by (subst fts_loop.simps) (simp add: Let_def split)
      next
        case False
        have "fts_loop readable limit hits (offset + length ?rows) ?all =
            take limit (?all @ filter readable (map row_to_entity ?rest))"
          using 1(1) [OF _ refl _ _ refl] True more False sp by simp
        with True more False sp show ?thesis by (subst fts_loop.simps) (simp add: Let_def split)
      qed
    qed
  qed
qed

section \<open>Relevance\<close>

lemma lower_escape: "lower (like_escape t) = like_escape (lower t)"
proof (induction t)
  case (Cons c t)
  have sp: "special (lower_char c) = special c"
  proof (cases "is_upper_cp (cp c)")
    case True
    then have "cp c + 32 < 256" and "cp c + 32 \<noteq> 37 \<and> cp c + 32 \<noteq> 95 \<and> cp c + 32 \<noteq> 92"
      and "cp c \<noteq> 37 \<and> cp c \<noteq> 95 \<and> cp c \<noteq> 92" by (auto simp: is_upper_cp_def)
    then have "cp (lower_char c) \<noteq> 37 \<and> cp (lower_char c) \<noteq> 95 \<and> cp (lower_char c) \<noteq> 92"
      by (simp add: lower_char_def True)
    with \<open>cp c \<noteq> 37 \<and> cp c \<noteq> 95 \<and> cp c \<noteq> 92\<close> show ?thesis by (auto simp: special_def)
  qed (simp add: lower_char_def)
  have "lower_char (CHR 0x5C) = CHR 0x5C" by (simp add: lower_char_def is_upper_cp_def)
  with Cons sp show ?case by (simp add: like_escape_Cons)
qed simp

lemma lower_pattern: "lower (''%'' @ like_escape t @ ''%'') = ''%'' @ like_escape (lower t) @ ''%''"
  by (simp add: lower_escape) (simp add: lower_char_def is_upper_cp_def)

lemma set_split_ws: "w \<in> set (split_ws s) \<Longrightarrow> set w \<subseteq> set s"
  by (induction s rule: split_ws.induct) (auto split: if_splits dest: set_takeWhileD set_dropWhileD)

lemma query_term:
  assumes "t \<in> set (query_terms txt)"
  shows "lower t = t" "CHR 0x0A \<notin> set t"
proof -
  have t: "t \<in> set (split_ws (lower txt))" using assms by (simp add: query_terms_def)
  have "lower_char c = c" if "c \<in> set t" for c using set_split_ws [OF t] that by (auto simp: lower_def)
  then show "lower t = t" by (simp add: lower_def map_idI)
  show "CHR 0x0A \<notin> set t" using split_ws_no_space [OF t, of "CHR 0x0A"] by (auto simp: is_space_def)
qed

lemma sublist_line: "c \<notin> set t \<Longrightarrow> sublist t (a @ c # b) \<longleftrightarrow> sublist t a \<or> sublist t b"
  by (auto simp: sublist_append sublist_Cons_right prefix_Cons suffix_imp_sublist)

lemma relevant_iff:
  assumes "pe_fold pe = lower"
  shows "relevant pe (mk_query_params pol p txt) r \<longleftrightarrow>
    matches_terms (query_terms txt) (row_to_entity r) \<or> pe_fts pe (kr_name r @ '' '' @ kr_content r) txt"
proof -
  have nl: "lower_char (CHR 0x0A) = CHR 0x0A" by (simp add: lower_char_def is_upper_cp_def)
  have one: "like (lower (''%'' @ like_escape t @ ''%'')) (lower (kr_name r)) \<or>
      like (lower (''%'' @ like_escape t @ ''%'')) (lower (kr_content r)) \<longleftrightarrow>
      str_in t (lower (kr_name r @ [CHR 0x0A] @ kr_content r))" if "t \<in> set (query_terms txt)" for t
    unfolding lower_pattern like_substring query_term(1) [OF that] str_in_iff
    using sublist_line [OF query_term(2) [OF that]] by (simp add: nl)
  have "list_ex (\<lambda>pat. like (lower pat) (lower (kr_name r))) (qp_patterns (mk_query_params pol p txt)) \<or>
      list_ex (\<lambda>pat. like (lower pat) (lower (kr_content r))) (qp_patterns (mk_query_params pol p txt)) \<longleftrightarrow>
      list_ex (\<lambda>t. str_in t (lower (kr_name r @ [CHR 0x0A] @ kr_content r))) (query_terms txt)"
    using one by (simp add: mk_query_params_def Let_def list_ex_iff) blast
  then show ?thesis
    unfolding relevant_def matches_terms_def assms by (auto simp: mk_query_params_def Let_def row_to_entity_def)
qed

definition sorted_rows :: "'v pg_kg_env \<Rightarrow> 'v kgdb \<Rightarrow> 'v krow list" where
  "sorted_rows pe db = sort_key (\<lambda>r. pe_collate pe (kr_id r)) (db_rows db)"

definition keyword_match :: "'v pg_kg_env \<Rightarrow> string \<Rightarrow> entity \<Rightarrow> bool" where
  "keyword_match pe txt e \<longleftrightarrow> matches_terms (query_terms txt) e \<or> pe_fts pe (en_name e @ '' '' @ en_content e) txt"

lemma fts_rows_readable:
  assumes "pe_fold pe = lower"
  shows "filter (can_read (Some pol) p) (map row_to_entity (fts_rows pe (mk_query_params pol p txt) db)) =
    filter (\<lambda>e. can_read (Some pol) p e \<and> keyword_match pe txt e) (map row_to_entity (sorted_rows pe db))"
proof -
  have "rbac_predicate (mk_query_params pol p txt) r \<and> relevant pe (mk_query_params pol p txt) r \<and>
      can_read (Some pol) p (row_to_entity r) \<longleftrightarrow>
      can_read (Some pol) p (row_to_entity r) \<and> keyword_match pe txt (row_to_entity r)" for r :: "'a krow"
    using rbac_predicate_complete [of pol p r "txt"] relevant_iff [OF assms, of pol p "txt" r]
    by (auto simp: keyword_match_def row_to_entity_def)
  then show ?thesis
    by (simp add: fts_rows_def sorted_rows_def filter_map comp_def conj_ac flip: filter_sort)
qed

lemma fts_query_eq:
  assumes "pe_fold pe = lower"
  shows "fts_query pe pol p (mk_query_params pol p txt) limit db =
    take (nat limit) (filter (\<lambda>e. can_read (Some pol) p e \<and> keyword_match pe txt e) (map row_to_entity (sorted_rows pe db)))"
  using fts_rows_readable [OF assms, of pol p "txt" db]
  by (simp add: fts_query_def fts_loop_eq)

section \<open>Fusion\<close>

lemma dom_rrf_scores: "set (dict_keys (rrf_scores fl k rank is scores)) = set (dict_keys scores) \<union> set is"
  by (induction fl k rank "is" scores rule: rrf_scores.induct) (auto simp: dict_keys_def dom_update)

lemma rrf_scores_ok: "dict_ok scores \<Longrightarrow> dict_ok (rrf_scores fl k rank is scores)"
  by (induction fl k rank "is" scores rule: rrf_scores.induct) auto

lemma rrf_fuse_perm:
  "distinct (rrf_fuse fl rankings k)" "set (rrf_fuse fl rankings k) = (\<Union>ranking \<in> set rankings. set ranking)"
proof -
  have "dict_ok scores \<Longrightarrow> dict_ok (foldl (\<lambda>scores ranking. rrf_scores fl k 0 ranking scores) scores rankings) \<and>
      set (dict_keys (foldl (\<lambda>scores ranking. rrf_scores fl k 0 ranking scores) scores rankings)) =
      set (dict_keys scores) \<union> (\<Union>ranking \<in> set rankings. set ranking)" for scores
    by (induction rankings arbitrary: scores) (auto simp: dom_rrf_scores rrf_scores_ok)
  from this [of "[]"] show "distinct (rrf_fuse fl rankings k)"
    and "set (rrf_fuse fl rankings k) = (\<Union>ranking \<in> set rankings. set ranking)"
    by (simp_all add: rrf_fuse_def rrf_table_def Let_def dict_ok_def dict_keys_def)
qed

text \<open>The ids shown so far: the readable ones among those considered, each once.\<close>

definition shown :: "(string \<Rightarrow> entity) \<Rightarrow> (entity \<Rightarrow> bool) \<Rightarrow> string set \<Rightarrow> entity list \<Rightarrow> bool" where
  "shown ent readable considered results \<longleftrightarrow>
     (\<exists>ids. results = map ent ids \<and> distinct ids \<and> set ids = {i \<in> considered. readable (ent i)})"

lemma shown_insert:
  assumes "shown ent readable considered results" "i \<notin> considered"
  shows "readable (ent i) \<Longrightarrow> shown ent readable (insert i considered) (results @ [ent i])"
    and "\<not> readable (ent i) \<Longrightarrow> shown ent readable (insert i considered) results"
proof -
  obtain ids where ids: "results = map ent ids" "distinct ids" "set ids = {i \<in> considered. readable (ent i)}"
    using assms(1) by (auto simp: shown_def)
  show "shown ent readable (insert i considered) (results @ [ent i])" if "readable (ent i)"
    unfolding shown_def by (rule exI [of _ "ids @ [i]"]) (use ids assms(2) that in auto)
  show "shown ent readable (insert i considered) results" if "\<not> readable (ent i)"
    unfolding shown_def by (rule exI [of _ ids]) (use ids assms(2) that in auto)
qed

lemma scan_fused_shown:
  assumes "scan_fused readable limit by_id is considered results = (results', considered', stop)"
    and "\<forall>i \<in> set is. dict_get by_id i = Some (ent i)"
    and "shown ent readable considered results" "length results < limit"
  shows "shown ent readable considered' results' \<and> considered \<subseteq> considered' \<and>
    considered' \<subseteq> considered \<union> set is \<and> length results' \<le> limit \<and>
    (if stop then length results' = limit else considered' = considered \<union> set is \<and> length results' < limit)"
  using assms
proof (induction "is" arbitrary: considered results)
  case (Cons i js)
  show ?case
  proof (cases "i \<in> considered")
    case True
    with Cons.IH [of considered results] Cons.prems show ?thesis by auto
  next
    case new: False
    have e: "the (dict_get by_id i) = ent i" using Cons.prems(2) by simp
    note s = shown_insert [OF Cons.prems(3) new]
    show ?thesis
    proof (cases "readable (ent i)")
      case True
      show ?thesis
      proof (cases "limit \<le> Suc (length results)")
        case full: True
        with Cons.prems(1) new e True have "results' = results @ [ent i]" "considered' = insert i considered" "stop"
          by (auto simp: Let_def)
        with s(1) [OF True] full Cons.prems(4) show ?thesis by auto
      next
        case False
        with Cons.prems(1) new e True
        have "scan_fused readable limit by_id js (insert i considered) (results @ [ent i]) = (results', considered', stop)"
          by (auto simp: Let_def)
        from Cons.IH [OF this _ s(1) [OF True]] Cons.prems(2) False show ?thesis by (auto split: if_splits)
      qed
    next
      case False
      with Cons.prems(1) new e
      have "scan_fused readable limit by_id js (insert i considered) results = (results', considered', stop)"
        by (auto simp: Let_def)
      from Cons.IH [OF this _ s(2) [OF False]] Cons.prems(2,4) show ?thesis by (auto split: if_splits)
    qed
  qed
qed simp

lemma collect_rows_get:
  "\<forall>r \<in> set rows. row_to_entity r = ent (kr_id r) \<Longrightarrow>
   dict_get (collect_rows rows by_id) i = (if i \<in> kr_id ` set rows then Some (ent i) else dict_get by_id i)"
proof (induction rows arbitrary: by_id)
  case (Cons r rows)
  have "collect_rows (r # rows) by_id = collect_rows rows (dict_set (kr_id r) (row_to_entity r) by_id)"
    by (simp add: collect_rows_def)
  with Cons show ?case by simp
qed (simp add: collect_rows_def)

lemma set_collect_ids: "set (collect_ids rows ids) = set ids \<union> kr_id ` set rows"
proof (induction rows arbitrary: ids)
  case (Cons r rows)
  have "collect_ids (r # rows) ids = collect_ids rows (if kr_id r \<in> set ids then ids else ids @ [kr_id r])"
    by (simp add: collect_ids_def)
  with Cons show ?case by auto
qed (simp add: collect_ids_def)

definition scanned :: "'v krow list \<Rightarrow> string list \<Rightarrow> string set" where
  "scanned hits vec_ids = (if hits = [] then {} else kr_id ` set hits \<union> set vec_ids)"

lemma hybrid_loop_shown:
  assumes "\<forall>r \<in> set hits. row_to_entity r = ent (kr_id r)"
    and "\<forall>i \<in> set vec_ids \<union> set fts_ids. dict_get by_id i = Some (ent i)" "set fts_ids \<subseteq> considered"
    and "shown ent readable considered results" "length results \<le> limit"
  shows "\<exists>cons. shown ent readable cons (hybrid_loop fl readable limit hits vec_ids offset by_id fts_ids considered results) \<and>
    cons \<subseteq> considered \<union> scanned (drop offset hits) vec_ids \<and>
    length (hybrid_loop fl readable limit hits vec_ids offset by_id fts_ids considered results) \<le> limit \<and>
    (length (hybrid_loop fl readable limit hits vec_ids offset by_id fts_ids considered results) < limit \<longrightarrow>
      considered \<union> scanned (drop offset hits) vec_ids \<subseteq> cons)"
  using assms
proof (induction fl readable limit hits vec_ids offset by_id fts_ids considered results rule: hybrid_loop.induct)
  case (1 fl readable limit hits vec_ids offset by_id fts_ids considered results)
  let ?rows = "page limit offset hits"
  let ?rest = "drop (offset + length ?rows) hits"
  let ?by = "collect_rows ?rows by_id"
  let ?fts = "collect_ids ?rows fts_ids"
  let ?fused = "rrf_fuse fl [?fts, vec_ids] RRF_K"
  have split: "drop offset hits = ?rows @ ?rest" by (rule page_split)
  show ?case
  proof (cases "length results < limit \<and> ?rows \<noteq> []")
    case False
    with "1.prems"(5) have "length results = limit \<or> drop offset hits = []" by (auto simp: page_def)
    with "1.prems"(4,5) False show ?thesis
      by (subst (1 2 3) hybrid_loop.simps) (auto simp: Let_def scanned_def intro!: exI [of _ considered])
  next
    case True
    have sub: "set ?rows \<subseteq> set hits" using split by (metis Un_upper1 order_trans set_append set_drop_subset)
    have rows: "\<forall>r \<in> set ?rows. row_to_entity r = ent (kr_id r)" using "1.prems"(1) sub by blast
    have by_ok: "\<forall>i \<in> set vec_ids \<union> set ?fts. dict_get ?by i = Some (ent i)"
      using "1.prems"(2) by (auto simp: collect_rows_get [OF rows] set_collect_ids)
    have fused: "set ?fused = set ?fts \<union> set vec_ids" by (simp add: rrf_fuse_perm)
    obtain res' cons' stop where sf: "scan_fused readable limit ?by ?fused considered results = (res', cons', stop)"
      by (cases "scan_fused readable limit ?by ?fused considered results")
    have A: "shown ent readable cons' res' \<and> considered \<subseteq> cons' \<and> cons' \<subseteq> considered \<union> set ?fused \<and> length res' \<le> limit \<and>
        (if stop then length res' = limit else cons' = considered \<union> set ?fused \<and> length res' < limit)"
      by (rule scan_fused_shown [OF sf]) (use by_ok fused True "1.prems"(4) in auto)
    have seen: "considered \<union> set ?fused = considered \<union> scanned ?rows vec_ids"
      using True "1.prems"(3) by (auto simp: fused set_collect_ids scanned_def)
    have whole: "scanned (drop offset hits) vec_ids = scanned ?rows vec_ids \<union> scanned ?rest vec_ids"
      using True by (subst split) (auto simp: scanned_def)
    show ?thesis
    proof (cases "stop \<or> length ?rows < limit")
      case stops: True
      have eq: "hybrid_loop fl readable limit hits vec_ids offset by_id fts_ids considered results = res'"
        using True stops sf by (subst hybrid_loop.simps) (auto simp: Let_def split: bool.splits)
      have "\<not> stop \<Longrightarrow> ?rest = []" using stops by (auto simp: page_def)
      with A seen show ?thesis unfolding eq whole
        by (intro exI [of _ cons']) (auto simp: scanned_def split: if_splits)
    next
      case more: False
      have eq: "hybrid_loop fl readable limit hits vec_ids offset by_id fts_ids considered results =
          hybrid_loop fl readable limit hits vec_ids (offset + length ?rows) ?by ?fts cons' res'"
        using True more sf by (subst hybrid_loop.simps) (auto simp: Let_def)
      have c: "cons' = considered \<union> set ?fused" using A more by simp
      let ?out = "hybrid_loop fl readable limit hits vec_ids (offset + length ?rows) ?by ?fts cons' res'"
      have "\<exists>cons. shown ent readable cons ?out \<and> cons \<subseteq> cons' \<union> scanned ?rest vec_ids \<and> length ?out \<le> limit \<and>
          (length ?out < limit \<longrightarrow> cons' \<union> scanned ?rest vec_ids \<subseteq> cons)"
        by (rule "1.IH" [OF _ refl _ refl refl sf [symmetric] refl _ _ "1.prems"(1) by_ok])
          (use True more A fused c in auto)
      then show ?thesis unfolding eq whole c seen by (simp add: Un_assoc)
    qed
  qed
qed

section \<open>The whole query\<close>

definition db_ok :: "'v kgdb \<Rightarrow> bool" where
  "db_ok db \<longleftrightarrow> distinct (map kr_id (db_rows db))"

text \<open>The nearest-neighbour scan may skip rows, but returns rows that it was given.\<close>

definition nearest_law :: "'v pg_kg_env \<Rightarrow> bool" where
  "nearest_law pe \<longleftrightarrow> (\<forall>v rows out. pe_nearest pe v rows = Inr out \<longrightarrow> set out \<subseteq> set rows)"

definition entity_of :: "'v kgdb \<Rightarrow> string \<Rightarrow> entity" where
  "entity_of db i = row_to_entity (the (map_of (map (\<lambda>r. (kr_id r, r)) (db_rows db)) i))"

lemma entity_of_row: "db_ok db \<Longrightarrow> r \<in> set (db_rows db) \<Longrightarrow> row_to_entity r = entity_of db (kr_id r)"
  by (simp add: entity_of_def db_ok_def map_of_eq_Some_iff [THEN iffD2] comp_def image_iff)

lemma set_fts_rows: "set (fts_rows pe q db) = {r \<in> set (db_rows db). rbac_predicate q r \<and> relevant pe q r}"
  by (auto simp: fts_rows_def)

lemma vector_rows_sub:
  assumes "nearest_law pe" "vector_rows pe q qvec pool db = Inr rows" "r \<in> set rows"
  shows "r \<in> set (db_rows db) \<and> rbac_predicate q r \<and> kr_embedding r \<noteq> None"
proof -
  obtain v out where n: "pe_nearest pe v (filter (\<lambda>r. rbac_predicate q r \<and> kr_embedding r \<noteq> None) (db_rows db)) = Inr out"
    and "rows = take (nat pool) out"
    using assms(2) by (auto simp: vector_rows_def result_bind_Inr_iff split: if_splits)
  with assms(3) have "r \<in> set out" by (blast dest: in_set_takeD)
  moreover have "set out \<subseteq> set (filter (\<lambda>r. rbac_predicate q r \<and> kr_embedding r \<noteq> None) (db_rows db))"
    using assms(1) n unfolding nearest_law_def by blast
  ultimately show ?thesis by auto
qed

text \<open>The entities that the two branches retrieve; the vector branch counts only beside a keyword hit.\<close>

definition retrieved :: "'v krow list \<Rightarrow> 'v krow list \<Rightarrow> entity set" where
  "retrieved hits vecs = (if hits = [] then {} else row_to_entity ` (set hits \<union> set vecs))"

lemma hybrid_loop_exact:
  assumes "db_ok db" "set hits \<subseteq> set (db_rows db)" "set vecs \<subseteq> set (db_rows db)"
  shows "let out = hybrid_loop fl readable limit hits (map kr_id vecs) 0 (collect_rows vecs []) [] {} [] in
    distinct (map en_id out) \<and> length out \<le> limit \<and> set out \<subseteq> {e \<in> retrieved hits vecs. readable e} \<and>
    (length out < limit \<longrightarrow> set out = {e \<in> retrieved hits vecs. readable e})"
proof -
  let ?ent = "entity_of db"
  let ?out = "hybrid_loop fl readable limit hits (map kr_id vecs) 0 (collect_rows vecs []) [] {} []"
  have hits: "\<forall>r \<in> set hits. row_to_entity r = ?ent (kr_id r)" and vecs: "\<forall>r \<in> set vecs. row_to_entity r = ?ent (kr_id r)"
    using assms entity_of_row by blast+
  have "\<exists>cons. shown ?ent readable cons ?out \<and> cons \<subseteq> {} \<union> scanned (drop 0 hits) (map kr_id vecs) \<and> length ?out \<le> limit \<and>
      (length ?out < limit \<longrightarrow> {} \<union> scanned (drop 0 hits) (map kr_id vecs) \<subseteq> cons)"
    by (rule hybrid_loop_shown [OF hits]) (auto simp: collect_rows_get [OF vecs] shown_def)
  then obtain cons ids where out: "?out = map ?ent ids" and ids: "distinct ids" "set ids = {i \<in> cons. readable (?ent i)}"
    and sub: "cons \<subseteq> scanned hits (map kr_id vecs)" and len: "length ?out \<le> limit"
    and full: "length ?out < limit \<longrightarrow> scanned hits (map kr_id vecs) \<subseteq> cons" by (auto simp: shown_def)
  have img: "?ent ` scanned hits (map kr_id vecs) = retrieved hits vecs"
  proof -
    have "?ent ` kr_id ` A = row_to_entity ` A" if "\<forall>r \<in> A. row_to_entity r = ?ent (kr_id r)" for A :: "'a krow set"
      using that by (auto simp: image_image intro: image_cong)
    with hits vecs show ?thesis by (simp add: scanned_def retrieved_def image_Un)
  qed
  have en: "en_id (?ent i) = i" if "i \<in> scanned hits (map kr_id vecs)" for i
  proof -
    obtain r where "r \<in> set hits \<union> set vecs" "i = kr_id r" using \<open>i \<in> _\<close> by (auto simp: scanned_def split: if_splits)
    with hits vecs have "?ent i = row_to_entity r" by auto
    with \<open>i = kr_id r\<close> show ?thesis by (simp add: row_to_entity_def)
  qed
  have "map en_id ?out = ids" unfolding out using ids(2) sub en by (auto simp: comp_def intro!: map_idI)
  moreover have "set ?out = {e \<in> ?ent ` cons. readable e}" unfolding out set_map ids(2) by auto
  ultimately show ?thesis unfolding Let_def using ids(1) len sub full img by auto
qed

lemma hybrid_query_cases:
  assumes "nearest_law pe" "db_ok db" "hybrid_query pe em pol p txt (mk_query_params pol p txt) limit db w = (Inr out, w')"
  obtains (fts) "out = fts_query pe pol p (mk_query_params pol p txt) limit db"
  | (fused) vecs where "set vecs \<subseteq> set (db_rows db)"
      "distinct (map en_id out)" "length out \<le> nat limit"
      "set out \<subseteq> {e \<in> retrieved (fts_rows pe (mk_query_params pol p txt) db) vecs. can_read (Some pol) p e}"
      "int (length out) < limit \<Longrightarrow> set out = {e \<in> retrieved (fts_rows pe (mk_query_params pol p txt) db) vecs. can_read (Some pol) p e}"
proof -
  let ?q = "mk_query_params pol p txt"
  obtain r w1 where e: "embed_one em w txt QUERY = (r, w1)" by (cases "embed_one em w txt QUERY")
  show thesis
  proof (cases r)
    case (Inl x)
    with e assms(3) fts show ?thesis by (simp add: hybrid_query_def)
  next
    case (Inr v)
    let ?pool = "max (limit * CANDIDATE_MULTIPLIER) limit"
    show ?thesis
    proof (cases "vector_rows pe ?q (vector_literal (pe_float pe) v) ?pool db")
      case (Inl x)
      with Inr e assms(3) fts show ?thesis by (auto simp: hybrid_query_def Let_def split: if_splits)
    next
      case rows: (Inr vecs)
      have out: "out = (if 0 < limit
          then hybrid_loop (pe_float pe) (can_read (Some pol) p) (nat limit) (fts_rows pe ?q db) (map kr_id vecs) 0
            (collect_rows vecs []) [] {} [] else [])"
        using Inr e rows assms(3) by (simp add: hybrid_query_def Let_def)
      have v: "set vecs \<subseteq> set (db_rows db)" using vector_rows_sub [OF assms(1) rows] by blast
      have h: "set (fts_rows pe ?q db) \<subseteq> set (db_rows db)" by (auto simp: set_fts_rows)
      show ?thesis
        by (rule fused [OF v])
          (use hybrid_loop_exact [OF assms(2) h v, of "pe_float pe" "can_read (Some pol) p" "nat limit"]
            in \<open>auto simp: out Let_def split: if_splits\<close>)
    qed
  qed
qed

section \<open>Writes refine the in-memory graph\<close>

text \<open>The abstraction: the rows as a dictionary from ids to entities, in heap order.\<close>

definition kg_of :: "policy option \<Rightarrow> 'v kgdb \<Rightarrow> kg" where
  "kg_of pol db = \<lparr>kg_entities = map (\<lambda>r. (kr_id r, row_to_entity r)) (db_rows db),
     kg_relations = db_relations db, kg_policy = pol\<rparr>"

lemma new_row_simps [simp]:
  "kr_id (new_row e emb) = en_id e" "row_to_entity (new_row e emb) = e" "kr_embedding (new_row e emb) = emb"
  by (simp_all add: new_row_def row_to_entity_def)

lemma upsert_row_abs:
  "map (\<lambda>r. (kr_id r, row_to_entity r)) (upsert_row e emb rs) =
   dict_set (en_id e) e (map (\<lambda>r. (kr_id r, row_to_entity r)) rs)"
  by (induction rs) auto

lemma map_kr_id_upsert: "map kr_id (upsert_row e emb rs) =
    (if en_id e \<in> kr_id ` set rs then map kr_id rs else map kr_id rs @ [en_id e])"
  by (induction rs) auto

lemma exec_upsert_abs:
  assumes "exec_upsert pe e vector db = Inr db'"
  shows "kg_of pol db' = upsert_entity e (kg_of pol db) \<and> (db_ok db \<longrightarrow> db_ok db') \<and> db_uniq db' = db_uniq db \<and> db_dim db' = db_dim db"
  using assms by (auto simp: exec_upsert_def result_bind_Inr_iff kg_of_def upsert_entity_def upsert_row_abs db_ok_def
      map_kr_id_upsert split: option.splits)

lemma exec_insert_relation_abs:
  assumes "exec_insert_relation r db = Inr db'"
  shows "kg_of pol db' = add_relation r (kg_of pol db) \<and> (db_ok db \<longrightarrow> db_ok db') \<and> db_uniq db' = db_uniq db \<and> db_dim db' = db_dim db"
  using assms by (auto simp: exec_insert_relation_def kg_of_def add_relation_def db_ok_def split: if_splits)

lemma exec_upserts_abs:
  "exec_upserts pe evs db = Inr db' \<Longrightarrow>
   kg_of pol db' = foldl (\<lambda>k e. upsert_entity e k) (kg_of pol db) (map fst evs) \<and> (db_ok db \<longrightarrow> db_ok db') \<and>
   db_uniq db' = db_uniq db \<and> db_dim db' = db_dim db"
proof (induction pe evs db rule: exec_upserts.induct)
  case (2 pe e vector evs db)
  then obtain db1 where "exec_upsert pe e vector db = Inr db1" "exec_upserts pe evs db1 = Inr db'"
    by (auto simp: result_bind_Inr_iff)
  with 2(1) [of db1] exec_upsert_abs [of pe e vector db db1 pol] show ?case by simp
qed simp

lemma exec_insert_relations_abs:
  "exec_insert_relations rels db = Inr db' \<Longrightarrow>
   kg_of pol db' = foldl (\<lambda>k r. add_relation r k) (kg_of pol db) rels \<and> (db_ok db \<longrightarrow> db_ok db') \<and>
   db_uniq db' = db_uniq db \<and> db_dim db' = db_dim db"
proof (induction rels db rule: exec_insert_relations.induct)
  case (2 r rs db)
  then obtain db1 where "exec_insert_relation r db = Inr db1" "exec_insert_relations rs db1 = Inr db'"
    by (auto simp: result_bind_Inr_iff)
  with 2(1) [of db1] exec_insert_relation_abs [of r db db1 pol] show ?case by simp
qed simp

lemma map_fst_embed_all: "map fst (fst (embed_all emb w es)) = es"
proof (induction es arbitrary: w)
  case (Cons e es)
  obtain v w1 where "try_embed emb w e = (v, w1)" by (cases "try_embed emb w e")
  moreover obtain evs w2 where "embed_all emb w1 es = (evs, w2)" by (cases "embed_all emb w1 es")
  ultimately show ?case using Cons.IH [of w1] by simp
qed simp

lemma delete_by_prefix_abs:
  "kg_of pol (delete_by_pattern (like_escape pre @ ''%'') db) =
   (kg_of pol db)\<lparr>kg_entities := filter (\<lambda>(i, e). \<not> startswith i pre) (kg_entities (kg_of pol db)),
      kg_relations := filter (\<lambda>r. \<not> startswith (rel_src r) pre \<and> \<not> startswith (rel_dst r) pre) (kg_relations (kg_of pol db))\<rparr>"
  by (simp add: kg_of_def delete_by_pattern_def like_prefix filter_map comp_def)

lemma pg_upsert_entity_abs:
  assumes "pg_upsert_entity pe emb e (db, w) = (Inr u, db', w')"
  shows "kg_of pol db' = upsert_entity e (kg_of pol db) \<and> (db_ok db \<longrightarrow> db_ok db')"
proof -
  obtain vector w1 where t: "try_embed emb w e = (vector, w1)" by (cases "try_embed emb w e")
  with assms have "exec_upsert pe e vector db = Inr db'"
    by (auto simp: pg_upsert_entity_def commit_def Let_def split: sum.splits)
  from exec_upsert_abs [OF this] show ?thesis by simp
qed

lemma pg_persist_extraction_abs:
  assumes "pg_persist_extraction pe emb seg src es rels (db, w) = (Inr u, db', w')"
  shows "kg_of pol db' = persist_extraction seg src es rels (kg_of pol db) \<and> (db_ok db \<longrightarrow> db_ok db')"
proof -
  let ?pre = "extraction_entity_prefix seg src"
  let ?db0 = "delete_by_pattern (like_escape ?pre @ ''%'') db"
  obtain evs w1 where t: "embed_all emb w es = (evs, w1)" by (cases "embed_all emb w es")
  obtain db1 where u: "exec_upserts pe evs ?db0 = Inr db1" "exec_insert_relations rels db1 = Inr db'"
    using assms t by (auto simp: pg_persist_extraction_def commit_def Let_def result_bind_Inr_iff split: sum.splits)
  have es: "map fst evs = es" using map_fst_embed_all [of emb w es] t by simp
  have "db_ok db \<Longrightarrow> db_ok ?db0" by (simp add: db_ok_def delete_by_pattern_def distinct_map_filter)
  with exec_upserts_abs [OF u(1), of pol] exec_insert_relations_abs [OF u(2), of pol] show ?thesis
    unfolding persist_extraction_def Let_def es delete_by_prefix_abs by simp
qed

section \<open>Setup and backfill\<close>

lemma dedupe_relations_eq: "dedupe_relations rs = remdups rs"
proof (induction rs)
  case (Cons a rs)
  have "list_ex (\<lambda>b. rel_src a = rel_src b \<and> rel_dst a = rel_dst b \<and> rel_type a = rel_type b) rs \<longleftrightarrow> a \<in> set rs"
    by (auto simp: list_ex_iff) (metis relation.equality old.unit.exhaust)
  with Cons show ?case by simp
qed simp

lemma map_set_embedding:
  assumes "\<And>r v. f (r\<lparr>kr_embedding := v\<rparr>) = f r"
  shows "map f (db_rows (set_embedding i v db)) = map f (db_rows db)"
  using assms by (simp add: set_embedding_def comp_def)

lemma row_to_entity_embedding [simp]: "row_to_entity (r\<lparr>kr_embedding := v\<rparr>) = row_to_entity r"
  by (simp add: row_to_entity_def)

lemma update_vectors_abs:
  "update_vectors pe rs vs db = Inr db' \<Longrightarrow>
   kg_of pol db' = kg_of pol db \<and> (db_ok db \<longrightarrow> db_ok db') \<and> db_dim db' = db_dim db \<and> db_uniq db' = db_uniq db"
proof (induction pe rs vs db rule: update_vectors.induct)
  case (2 pe r rs v vs db)
  then obtain x where u: "update_vectors pe rs vs (set_embedding (kr_id r) x db) = Inr db'"
    and c: "column_value pe db (vector_literal (pe_float pe) v) = Inr x"
    by (auto simp: result_bind_Inr_iff)
  have "kg_of pol (set_embedding (kr_id r) x db) = kg_of pol db"
    unfolding kg_of_def by (subst map_set_embedding) (simp_all add: set_embedding_def)
  moreover have "db_ok (set_embedding (kr_id r) x db) = db_ok db"
    unfolding db_ok_def by (subst map_set_embedding) simp_all
  ultimately show ?case using 2(1) [OF u] by (simp add: set_embedding_def)
qed simp_all

text \<open>A provider that answers every batch with one storable vector per text.\<close>

definition storable :: "'v pg_kg_env \<Rightarrow> 'v kgdb \<Rightarrow> vec \<Rightarrow> bool" where
  "storable pe db v \<longleftrightarrow> is_ok (column_value pe db (vector_literal (pe_float pe) v))"

definition serves :: "'v pg_kg_env \<Rightarrow> 'w embedder \<Rightarrow> 'v kgdb \<Rightarrow> bool" where
  "serves pe em db \<longleftrightarrow> (\<forall>w texts. \<exists>vs w'. em_embed em w texts DOCUMENT = (Inr vs, w') \<and> length vs = length texts \<and>
     (\<forall>v \<in> set vs. storable pe db v))"

lemma column_value_cong: "db_dim db = db_dim db' \<Longrightarrow> column_value pe db lit = column_value pe db' lit"
  by (simp add: column_value_def)

lemma storable_cong: "db_dim db = db_dim db' \<Longrightarrow> storable pe db v = storable pe db' v"
  unfolding storable_def using column_value_cong by metis

lemma serves_cong: "db_dim db = db_dim db' \<Longrightarrow> serves pe em db = serves pe em db'"
  unfolding serves_def using storable_cong by metis

lemma update_vectors_returns:
  "length rs = length vs \<Longrightarrow> \<forall>v \<in> set vs. storable pe db v \<Longrightarrow> is_ok (update_vectors pe rs vs db)"
proof (induction pe rs vs db rule: update_vectors.induct)
  case (2 pe r rs v vs db)
  then obtain x where c: "column_value pe db (vector_literal (pe_float pe) v) = Inr x"
    by (auto simp: storable_def is_ok_def split: sum.splits)
  have "storable pe (set_embedding (kr_id r) x db) u = storable pe db u" for u
    by (rule storable_cong) (simp add: set_embedding_def)
  with 2 c show ?case by simp
qed simp_all

lemma backfill_spec:
  "backfill pe em db w = (res, db', w') \<Longrightarrow>
   kg_of pol db' = kg_of pol db \<and> (db_ok db \<longrightarrow> db_ok db') \<and> db_dim db' = db_dim db \<and> db_uniq db' = db_uniq db \<and>
   (res = Inr () \<longrightarrow> null_rows db' = []) \<and> (serves pe em db \<longrightarrow> res = Inr ())"
proof (induction pe em db w rule: backfill.induct)
  case (1 pe em db w)
  let ?rows = "take BACKFILL_BATCH (null_rows db)"
  let ?texts = "map (\<lambda>r. kr_name r @ [CHR 0x0A] @ kr_content r) ?rows"
  show ?case
  proof (cases "?rows = []")
    case True
    then have "null_rows db = []" by (simp add: BACKFILL_BATCH_def)
    with True 1(2) show ?thesis by (subst (asm) backfill.simps) (simp add: Let_def)
  next
    case rows: False
    obtain r1 w1 where e: "em_embed em w ?texts DOCUMENT = (r1, w1)" by (cases "em_embed em w ?texts DOCUMENT")
    have hon: "\<exists>vs. r1 = Inr vs \<and> is_ok (update_vectors pe ?rows vs db)" if "serves pe em db"
    proof -
      from that obtain vs w2 where v: "em_embed em w ?texts DOCUMENT = (Inr vs, w2)" "length vs = length ?texts"
        "\<forall>v \<in> set vs. storable pe db v" unfolding serves_def by blast
      have "is_ok (update_vectors pe ?rows vs db)" by (rule update_vectors_returns) (use v in simp_all)
      with e v(1) show ?thesis by simp
    qed
    show ?thesis
    proof (cases r1)
      case (Inl x)
      then have "res = Inl x \<and> db' = db" using 1(2) rows e by (subst (asm) backfill.simps) (simp add: Let_def)
      with hon Inl show ?thesis by auto
    next
      case vs: (Inr vs)
      show ?thesis
      proof (cases "update_vectors pe ?rows vs db")
        case (Inl x)
        then have "res = Inl x \<and> db' = db" using 1(2) rows e vs by (subst (asm) backfill.simps) (simp add: Let_def)
        with hon Inl vs show ?thesis by auto
      next
        case (Inr db1)
        then have b: "backfill pe em db1 w1 = (res, db', w')"
          using 1(2) rows e vs by (subst (asm) backfill.simps) (simp add: Let_def)
        have u: "kg_of pol db1 = kg_of pol db \<and> (db_ok db \<longrightarrow> db_ok db1) \<and> db_dim db1 = db_dim db \<and> db_uniq db1 = db_uniq db"
          by (rule update_vectors_abs [OF Inr])
        then have "serves pe em db1 = serves pe em db" by (intro serves_cong) simp
        with 1(1) [OF refl rows e [unfolded vs, symmetric] refl Inr b] u show ?thesis by simp
      qed
    qed
  qed
qed

lemma setup_schema_spec:
  assumes "setup_schema pe (Some d) db = Inr db1"
  shows "kg_entities (kg_of pol db1) = kg_entities (kg_of pol db) \<and> (db_ok db1 \<longleftrightarrow> db_ok db) \<and> db_uniq db1 \<and>
    db_relations db1 = remdups (db_relations db) \<and>
    db_dim db1 = (case db_dim db of Some n \<Rightarrow> if n < 0 then Some n else Some d | None \<Rightarrow> Some d)"
  using assms
  by (auto simp: setup_schema_def Let_def result_bind_Inr_iff kg_of_def reset_column_def embedding_column_dim_def
      dedupe_relations_eq db_ok_def comp_def split: option.splits if_splits)

lemma pg_setup_cases:
  assumes "pg_setup pe (Some em) (db, w) = (res, db', w')"
  obtains (schema) e where "setup_schema pe (Some (em_dim em)) db = Inl e" "res = Inl e" "db' = db"
  | (ran) db1 where "setup_schema pe (Some (em_dim em)) db = Inr db1" "backfill pe em db1 w = (res, db', w')"
  using assms by (cases "setup_schema pe (Some (em_dim em)) db") (auto simp: pg_setup_def commit_def)

lemma all_embedded: "null_rows db = [] \<longleftrightarrow> (\<forall>r \<in> set (db_rows db). kr_embedding r \<noteq> None)"
  by (auto simp: null_rows_def filter_empty_conv)

section \<open>The contract of a knowledge graph\<close>

definition pg_answers :: "'v pg_kg_env \<times> policy \<times> 'v kgdb \<Rightarrow> principal option \<Rightarrow> string \<Rightarrow> int \<Rightarrow> entity list" where
  "pg_answers = (\<lambda>(pe, pol, db) p txt limit. fts_query pe pol p (mk_query_params pol p txt) limit db)"

lemma fts_query_sound:
  "e \<in> set (fts_query pe pol p q limit db) \<Longrightarrow> e \<in> row_to_entity ` set (db_rows db) \<and> can_read (Some pol) p e"
  by (auto simp: fts_query_def fts_loop_eq fts_rows_def split: if_splits dest!: in_set_takeD)

lemma fts_query_bound: "length (fts_query pe pol p q limit db) \<le> nat limit"
  by (simp add: fts_query_def fts_loop_eq)

interpretation pg_kg: knowledge_graph pg_answers "\<lambda>(pe, pol, db). Some pol" "\<lambda>(pe, pol, db). row_to_entity ` set (db_rows db)"
  by unfold_locales (auto simp: pg_answers_def fts_query_bound dest: fts_query_sound)

lemma fts_query_ids: "db_ok db \<Longrightarrow> distinct (map en_id (fts_query pe pol p q limit db))"
proof -
  assume ok: "db_ok db"
  have "en_id (row_to_entity r) = kr_id r" for r :: "'a krow" by (simp add: row_to_entity_def)
  then have "distinct (map en_id (map row_to_entity (fts_rows pe q db)))"
    using ok by (simp add: fts_rows_def db_ok_def comp_def distinct_map_filter distinct_map inj_on_def)
  then have "distinct (map en_id (take n (filter P (map row_to_entity (fts_rows pe q db)))))" for n P
    by (simp add: distinct_map_filter take_map distinct_take flip: take_map)
  then show ?thesis by (simp add: fts_query_def fts_loop_eq)
qed

lemma keyword_hit:
  assumes "pe_fold pe = lower" "r \<in> set (db_rows db)" "can_read (Some pol) p (row_to_entity r)" "keyword_match pe txt (row_to_entity r)"
  shows "r \<in> set (fts_rows pe (mk_query_params pol p txt) db)"
  using rbac_predicate_complete [OF assms(3)] relevant_iff [OF assms(1), of pol p "txt" r] assms(2,4)
  by (auto simp: set_fts_rows keyword_match_def row_to_entity_def)

lemma pg_query_cases:
  assumes "nearest_law pe" "db_ok db" "pg_query pe (Some em) pol p txt limit db w = (Inr out, w')"
  obtains (fts) "out = fts_query pe pol p (mk_query_params pol p txt) limit db"
  | (fused) vecs where "set vecs \<subseteq> set (db_rows db)"
      "distinct (map en_id out)" "length out \<le> nat limit"
      "set out \<subseteq> {e \<in> retrieved (fts_rows pe (mk_query_params pol p txt) db) vecs. can_read (Some pol) p e}"
      "int (length out) < limit \<Longrightarrow> set out = {e \<in> retrieved (fts_rows pe (mk_query_params pol p txt) db) vecs. can_read (Some pol) p e}"
proof (cases "query_terms txt = []")
  case True
  with assms(3) fts show ?thesis by (simp add: pg_query_def Let_def)
next
  case False
  then have h: "hybrid_query pe em pol p txt (mk_query_params pol p txt) limit db w = (Inr out, w')"
    using assms(3) by (simp add: pg_query_def Let_def)
  note keyword = fts and both = fused
  from assms(1,2) h show ?thesis
  proof (cases rule: hybrid_query_cases)
    case fts
    then show ?thesis by (rule keyword)
  next
    case (fused vecs)
    show ?thesis by (rule both [OF fused])
  qed
qed

section \<open>Properties\<close>

text \<open>C18: keyword search. Without an embedder a query returns the readable rows that contain a term of the text
  or match it in full-text search, in the order of their ids and cut at the limit: the access predicate in
  SQL hides nothing that \<open>can_read\<close> allows, the second check lets nothing else through, the escaped patterns match
  literally, and the pages lose and repeat no row. When full-text search finds nothing beyond the terms, this is what
  the in-memory graph answers over the same entities.\<close>

theorem keyword_query_exact:
  assumes "pe_fold pe = lower"
  shows "pg_query pe None pol p txt limit db w =
      (Inr (take (nat limit) (filter (\<lambda>e. can_read (Some pol) p e \<and> keyword_match pe txt e)
         (map row_to_entity (sorted_rows pe db)))), w) \<and>
    (0 \<le> limit \<and> (\<forall>r \<in> set (db_rows db). keyword_match pe txt (row_to_entity r) \<longrightarrow>
         matches_terms (query_terms txt) (row_to_entity r)) \<longrightarrow>
      fst (pg_query pe None pol p txt limit db w) =
        Inr (kg_query (kg_of (Some pol) (db\<lparr>db_rows := sorted_rows pe db\<rparr>)) p txt limit))"
proof -
  have eq: "pg_query pe None pol p txt limit db w =
      (Inr (take (nat limit) (filter (\<lambda>e. can_read (Some pol) p e \<and> keyword_match pe txt e)
         (map row_to_entity (sorted_rows pe db)))), w)"
    by (simp add: pg_query_def Let_def fts_query_eq [OF assms])
  have "filter (\<lambda>e. can_read (Some pol) p e \<and> keyword_match pe txt e) (map row_to_entity (sorted_rows pe db)) =
      filter (\<lambda>e. can_read (Some pol) p e \<and> matches_terms (query_terms txt) e) (map row_to_entity (sorted_rows pe db))"
    if "\<forall>r \<in> set (db_rows db). keyword_match pe txt (row_to_entity r) \<longrightarrow> matches_terms (query_terms txt) (row_to_entity r)"
    using that by (intro filter_cong) (auto simp: sorted_rows_def keyword_match_def)
  then show ?thesis unfolding eq by (simp add: kg_query_def kg_of_def py_take_def Let_def query_terms_def comp_def)
qed

text \<open>C19: hybrid search. With an embedder a query still returns only stored rows that the caller may read, each at
  most once and at most \<open>limit\<close> of them, whatever the embedding service and the nearest-neighbour index answer; if
  it returns fewer than \<open>limit\<close>, every readable keyword match is among them. The vector branch never widens the
  result on its own: when no row that the access predicate lets through matches the text, the answer is empty, also
  when the vector branch has found rows.\<close>

theorem hybrid_query_sound:
  assumes "db_ok db" "nearest_law pe" "pg_query pe (Some em) pol p txt limit db w = (Inr out, w')"
  shows "length out \<le> nat limit \<and> distinct (map en_id out) \<and>
    (\<forall>e \<in> set out. e \<in> row_to_entity ` set (db_rows db) \<and> can_read (Some pol) p e) \<and>
    (pe_fold pe = lower \<and> int (length out) < limit \<longrightarrow>
      {e \<in> row_to_entity ` set (db_rows db). can_read (Some pol) p e \<and> keyword_match pe txt e} \<subseteq> set out) \<and>
    (fts_rows pe (mk_query_params pol p txt) db = [] \<longrightarrow> out = [])"
proof -
  let ?q = "mk_query_params pol p txt"
  let ?hits = "fts_rows pe ?q db"
  have hit: "r \<in> set ?hits" if "pe_fold pe = lower" "r \<in> set (db_rows db)" "can_read (Some pol) p (row_to_entity r)"
    "keyword_match pe txt (row_to_entity r)" for r
    by (rule keyword_hit [OF that])
  from assms(2,1,3) show ?thesis
  proof (cases rule: pg_query_cases)
    case fts
    have "int (length out) < limit \<Longrightarrow> out = filter (can_read (Some pol) p) (map row_to_entity ?hits)"
      unfolding fts by (auto simp: fts_query_def fts_loop_eq split: if_splits)
    moreover have "?hits = [] \<Longrightarrow> out = []" unfolding fts by (simp add: fts_query_def fts_loop_eq)
    moreover have "\<forall>e \<in> set out. e \<in> row_to_entity ` set (db_rows db) \<and> can_read (Some pol) p e"
      unfolding fts using fts_query_sound by blast
    moreover have "length out \<le> nat limit" "distinct (map en_id out)"
      unfolding fts by (rule fts_query_bound, rule fts_query_ids [OF assms(1)])
    ultimately show ?thesis using hit by auto
  next
    case (fused vecs)
    have "set ?hits \<union> set vecs \<subseteq> set (db_rows db)" using fused(1) by (auto simp: set_fts_rows)
    then have "retrieved ?hits vecs \<subseteq> row_to_entity ` set (db_rows db)" by (auto simp: retrieved_def)
    with fused(4) have "\<forall>e \<in> set out. e \<in> row_to_entity ` set (db_rows db) \<and> can_read (Some pol) p e" by blast
    moreover have "e \<in> set out" if "pe_fold pe = lower" "int (length out) < limit" "r \<in> set (db_rows db)"
        "e = row_to_entity r" "can_read (Some pol) p e" "keyword_match pe txt e" for e r
      using fused(5) [OF that(2)] hit [OF that(1,3)] that by (auto simp: retrieved_def)
    moreover have "?hits = [] \<Longrightarrow> out = []" using fused(4) by (auto simp: retrieved_def)
    ultimately show ?thesis using fused(2,3) by auto
  qed
qed


text \<open>C20: writes. A write to Postgres that succeeds does to the stored entities and relations exactly what the in-memory
  graph does (with the embeddings beside them), keeps ids unique, and one that fails changes nothing; this holds for
  every embedder, also one that fails.\<close>

theorem pg_writes_refine_memory:
  "(case pg_upsert_entity pe emb e (db, w) of
      (Inl _, db', w') \<Rightarrow> db' = db
    | (Inr _, db', w') \<Rightarrow> kg_of pol db' = upsert_entity e (kg_of pol db) \<and> (db_ok db \<longrightarrow> db_ok db')) \<and>
   (case pg_add_relation r db of
      (Inl _, db') \<Rightarrow> db' = db
    | (Inr _, db') \<Rightarrow> kg_of pol db' = add_relation r (kg_of pol db) \<and> (db_ok db \<longrightarrow> db_ok db')) \<and>
   (case pg_persist_extraction pe emb seg src es rels (db, w) of
      (Inl _, db', w') \<Rightarrow> db' = db
    | (Inr _, db', w') \<Rightarrow> kg_of pol db' = persist_extraction seg src es rels (kg_of pol db) \<and> (db_ok db \<longrightarrow> db_ok db'))"
proof -
  have c: "commit d x = (Inl y, d') \<Longrightarrow> d' = d" for d d' :: "'a kgdb" and x y by (auto simp: commit_def split: sum.splits)
  have u: "pg_upsert_entity pe emb e (db, w) = (Inl y, db', w') \<Longrightarrow> db' = db" for y db' w'
    by (auto simp: pg_upsert_entity_def Let_def split: prod.splits dest: c)
  have x: "pg_persist_extraction pe emb seg src es rels (db, w) = (Inl y, db', w') \<Longrightarrow> db' = db" for y db' w'
    by (auto simp: pg_persist_extraction_def Let_def split: prod.splits dest: c)
  have a: "pg_add_relation r db = (Inr y, db') \<Longrightarrow> kg_of pol db' = add_relation r (kg_of pol db) \<and> (db_ok db \<longrightarrow> db_ok db')" for y db'
    by (auto simp: pg_add_relation_def commit_def split: sum.splits dest: exec_insert_relation_abs)
  show ?thesis
    by (intro conjI; split prod.splits sum.splits; (intro allI impI conjI)?)
      (auto split: prod.splits sum.splits simp: pg_add_relation_def
        dest: c u x a [unfolded pg_add_relation_def] pg_upsert_entity_abs pg_persist_extraction_abs)
qed

section \<open>Witnesses\<close>

definition demo_pe :: "string pg_kg_env" where
  "demo_pe = \<lparr>pe_float = \<lparr>fl_rnd = (\<lambda>x. x), fl_sum = sum_list, fl_repr = (\<lambda>_. ''0.5'')\<rparr>,
     pe_collate = (\<lambda>s. s), pe_fts = (\<lambda>_ _. False), pe_fold = lower, pe_cast = Inr,
     pe_width = (\<lambda>s. int (length (split_on (CHR '','') s))), pe_nearest = (\<lambda>_ rows. Inr rows), pe_vector_ddl = (\<lambda>_. Inr ())\<rparr>"

definition demo_em :: "unit embedder" where
  "demo_em = \<lparr>em_dim = 2, em_embed = (\<lambda>w texts ty. (Inr (map (\<lambda>_. [1, 2]) texts), w))\<rparr>"

definition demo_roles :: policy where
  "demo_roles = mem_effective_permissions ROLE_PERMISSIONS"

definition demo_bob :: principal where
  "demo_bob = \<lparr>user_id = ''bob'', roles = [''member''], org_id = None\<rparr>"

definition demo_q3 :: entity where
  "demo_q3 = \<lparr>en_id = ''org:q3'', en_type = ''doc'', en_name = ''Q3_Revenue'', en_content = ''100%'',
     en_acl = [''kg:read:org''], en_scope = ORG\<rparr>"

definition demo_diary :: entity where
  "demo_diary = \<lparr>en_id = ''alice:d'', en_type = ''note'', en_name = ''diary'', en_content = ''my revenue'',
     en_acl = [identity_acl ''alice''], en_scope = PERSONAL\<rparr>"

definition demo_kgdb :: "string kgdb" where
  "demo_kgdb = \<lparr>db_rows = [new_row demo_q3 None, new_row demo_diary (Some ''[0.5,0.5]'')],
     db_relations = [], db_uniq = True, db_dim = Some 2\<rparr>"

lemmas demo_simps = demo_pe_def demo_em_def demo_kgdb_def

theorem keyword_query_exact_witness:
  "pg_query demo_pe None demo_roles (Some demo_bob) ''3_REV'' 5 demo_kgdb () = (Inr [demo_q3], ())"
proof -
  have "pe_fold demo_pe = lower" by (simp add: demo_pe_def)
  note keyword_query_exact [OF this, THEN conjunct1, of demo_roles "Some demo_bob" "''3_REV''" 5 demo_kgdb "()"]
  moreover have "filter (\<lambda>e. can_read (Some demo_roles) (Some demo_bob) e \<and> keyword_match demo_pe ''3_REV'' e)
      (map row_to_entity (sorted_rows demo_pe demo_kgdb)) = [demo_q3]"
    by code_simp
  ultimately show ?thesis by simp
qed

lemma demo_db_ok: "db_ok demo_kgdb" "nearest_law demo_pe"
  by (simp add: db_ok_def demo_kgdb_def demo_q3_def demo_diary_def) (simp add: nearest_law_def demo_pe_def)

theorem hybrid_query_sound_witness:
  "\<exists>out. pg_query demo_pe (Some demo_em) demo_roles (Some demo_bob) ''revenue'' 5 demo_kgdb () = (Inr out, ()) \<and>
     demo_q3 \<in> set out \<and> demo_diary \<notin> set out"
proof -
  have t: "query_terms ''revenue'' \<noteq> []" by code_simp
  have "\<exists>out. pg_query demo_pe (Some demo_em) demo_roles (Some demo_bob) ''revenue'' 5 demo_kgdb () = (Inr out, ())"
    using t by (simp add: pg_query_def hybrid_query_def embed_one_def vector_rows_def Let_def demo_simps CANDIDATE_MULTIPLIER_def)
  then obtain out where q: "pg_query demo_pe (Some demo_em) demo_roles (Some demo_bob) ''revenue'' 5 demo_kgdb () = (Inr out, ())" ..
  note h = hybrid_query_sound [OF demo_db_ok q]
  have r: "\<not> can_read (Some demo_roles) (Some demo_bob) demo_diary"
    "can_read (Some demo_roles) (Some demo_bob) demo_q3" "keyword_match demo_pe ''revenue'' demo_q3"
    by code_simp+
  have s: "row_to_entity ` set (db_rows demo_kgdb) = {demo_q3, demo_diary}" by (simp add: demo_kgdb_def)
  have out: "distinct out" "set out \<subseteq> {demo_q3}" using h r(1) unfolding s by (auto simp: distinct_map)
  then have "length out \<le> 1" using card_mono [OF _ out(2)] distinct_card [OF out(1)] by simp
  then have "demo_q3 \<in> set out" using h r(2,3) unfolding s by (auto simp: demo_pe_def)
  with q out(2) r show ?thesis by (intro exI [of _ out]) auto
qed

lemma demo_serves: "serves demo_pe demo_em (db\<lparr>db_dim := Some 2\<rparr>)"
  by (auto simp: serves_def storable_def column_value_def vector_literal_def demo_simps)


theorem pg_writes_refine_memory_witness:
  "\<exists>db'. pg_upsert_entity demo_pe (Some demo_em) (demo_q3\<lparr>en_content := ''90%''\<rparr>) (demo_kgdb, ()) = (Inr (), db', ()) \<and>
     db_ok db' \<and> kg_of None db' = upsert_entity (demo_q3\<lparr>en_content := ''90%''\<rparr>) (kg_of None demo_kgdb)"
proof -
  let ?e = "demo_q3\<lparr>en_content := ''90%''\<rparr>"
  obtain res db' where p: "pg_upsert_entity demo_pe (Some demo_em) ?e (demo_kgdb, ()) = (res, db', ())"
    by (cases "pg_upsert_entity demo_pe (Some demo_em) ?e (demo_kgdb, ())") auto
  have "is_ok res" using arg_cong [OF p, of fst]
    by (auto simp: pg_upsert_entity_def try_embed_def embed_one_def exec_upsert_def column_value_def vector_literal_def
        commit_def demo_simps)
  then have "res = Inr ()" by (cases res) auto
  with p pg_writes_refine_memory [where pe = demo_pe and emb = "Some demo_em" and e = ?e and db = demo_kgdb and w = "()" and pol = None] demo_db_ok(1) show ?thesis by simp
qed

end
