(* ===== verification/Backends.thy ===== *)
theory Backends
  imports Ingestion Knowledge_Store
begin

text \<open>
  The ingestion service over a knowledge-graph backend. The locale \<open>kg_backend\<close> states what the service relies on: an
  operation succeeds and does to the stored graph what the in-memory operation does. Under it, ingesting into the
  backend is ingesting into memory. It is interpreted on the in-memory graph and on the Postgres store, where it
  asks that the relation index exists and that the embedder's vectors fit the column; setup establishes both
  for the embedders that \<open>make_embedder\<close> builds.
\<close>

definition with_kg :: "'k kg_api \<Rightarrow> 'j ingestion_service \<Rightarrow> 'k ingestion_service" where
  "with_kg api sv = \<lparr>is_kg = api, is_policy = is_policy sv, is_chunk_size = is_chunk_size sv,
     is_chunk_overlap = is_chunk_overlap sv, is_extractor = is_extractor sv,
     is_max_entities = is_max_entities sv, is_max_relations = is_max_relations sv\<rparr>"

lemma with_kg_simps [simp]:
  "is_kg (with_kg api sv) = api" "is_policy (with_kg api sv) = is_policy sv"
  "is_chunk_size (with_kg api sv) = is_chunk_size sv" "is_chunk_overlap (with_kg api sv) = is_chunk_overlap sv"
  "is_extractor (with_kg api sv) = is_extractor sv"
  "is_max_entities (with_kg api sv) = is_max_entities sv" "is_max_relations (with_kg api sv) = is_max_relations sv"
  by (simp_all add: with_kg_def)

locale kg_backend =
  fixes api :: "'k kg_api" and abs :: "'k \<Rightarrow> kg" and ready :: "'k \<Rightarrow> bool"
  assumes upsert: "ready k \<Longrightarrow> \<exists>k'. ka_upsert api e k = (Inr (), k') \<and> ready k' \<and> abs k' = upsert_entity e (abs k)"
    and persist: "ready k \<Longrightarrow> \<exists>k'. ka_persist api seg src es rels k = (Inr (), k') \<and> ready k' \<and>
      abs k' = persist_extraction seg src es rels (abs k)"
begin

lemma write_chunks_sim:
  "ready k \<Longrightarrow> \<exists>ids k'. write_chunks api mk i cs acc k = (Inr ids, k') \<and> ready k' \<and>
     write_chunks mem_api mk i cs acc (abs k) = (Inr ids, abs k')"
proof (induction cs arbitrary: i acc k)
  case (Cons c cs)
  obtain k1 where k1: "ka_upsert api (mk i c) k = (Inr (), k1)" "ready k1" "abs k1 = upsert_entity (mk i c) (abs k)"
    using upsert [OF Cons.prems] by blast
  with Cons.IH [OF k1(2)] show ?case by (simp add: mem_api_def)
qed simp

lemma persist_sim:
  assumes "ready k"
  shows "\<exists>x k'. service_persist_extraction digest (with_kg api sv) r sc acl seg src ids k = (Inr x, k') \<and> ready k' \<and>
    service_persist_extraction digest (with_kg mem_api sv) r sc acl seg src ids (abs k) = (Inr x, abs k')"
proof -
  obtain keys es where c: "Ingestion.collect_entities digest (is_max_entities sv) sc acl seg src (xs_entities r) [] [] = (keys, es)"
    by (cases "Ingestion.collect_entities digest (is_max_entities sv) sc acl seg src (xs_entities r) [] []")
  let ?rels = "collect_relations (is_max_relations sv) (xs_relations r) keys (map snd keys) ids"
  obtain k' where "ka_persist api seg src es ?rels k = (Inr (), k')" "ready k'"
    "abs k' = persist_extraction seg src es ?rels (abs k)" using persist [OF assms] by blast
  with c show ?thesis by (simp add: service_persist_extraction_def mem_api_def Let_def)
qed

lemma enrich_sim:
  assumes "ready k"
  shows "\<exists>x k'. enrich_with_extraction digest (with_kg api sv) d sc acl seg src ids k = (x, k') \<and> ready k' \<and>
    enrich_with_extraction digest (with_kg mem_api sv) d sc acl seg src ids (abs k) = (x, abs k')"
proof (cases "is_extractor sv")
  case (Some ext)
  show ?thesis
  proof (cases "ext (doc_text d)")
    case (Inr r)
    obtain x k' where "service_persist_extraction digest (with_kg api sv) r sc acl seg src ids k = (Inr x, k')" "ready k'"
      "service_persist_extraction digest (with_kg mem_api sv) r sc acl seg src ids (abs k) = (Inr x, abs k')"
      using persist_sim [OF assms, of digest sv r sc acl seg src ids] by blast
    with Some Inr show ?thesis by (simp add: enrich_with_extraction_def)
  qed (use assms Some in \<open>simp add: enrich_with_extraction_def\<close>)
qed (use assms in \<open>simp add: enrich_with_extraction_def\<close>)

lemma ingest_sim:
  assumes "ready k" "ingest env (with_kg api sv) caller d k audit = (res, k', audit')"
  shows "ready k' \<and> ingest env (with_kg mem_api sv) caller d (abs k) audit = (res, abs k', audit')"
proof (cases "\<exists>p sc acl seg chunks. caller = Some p \<and> p \<noteq> anonymous \<and>
    resolve_scope_acl (is_policy sv) p d = Inr (sc, acl, seg) \<and>
    chunk_text (is_chunk_size sv) (is_chunk_overlap sv) (doc_text d) = Inr chunks \<and> chunks \<noteq> []")
  case True
  then obtain p sc acl seg chunks where c: "caller = Some p" "p \<noteq> anonymous"
    "resolve_scope_acl (is_policy sv) p d = Inr (sc, acl, seg)"
    "chunk_text (is_chunk_size sv) (is_chunk_overlap sv) (doc_text d) = Inr chunks" "chunks \<noteq> []" by blast
  let ?src = "source_id_for (sha256 env) d"
  obtain ids k1 where w: "write_chunks api (chunk_entity d sc acl seg ?src) 0 chunks [] k = (Inr ids, k1)" "ready k1"
    "write_chunks mem_api (chunk_entity d sc acl seg ?src) 0 chunks [] (abs k) = (Inr ids, abs k1)"
    using write_chunks_sim [OF assms(1)] by blast
  obtain x k2 where e: "enrich_with_extraction (sha256 env) (with_kg api sv) d sc acl seg ?src ids k1 = (x, k2)" "ready k2"
    "enrich_with_extraction (sha256 env) (with_kg mem_api sv) d sc acl seg ?src ids (abs k1) = (x, abs k2)"
    using enrich_sim [OF w(2)] by blast
  obtain n m where x: "x = (n, m)" by (cases x)
  show ?thesis using assms(2) e(2) by (simp add: ingest_def c w e(1,3) x Let_def)
next
  case False
  then show ?thesis using assms
    by (auto simp: ingest_def Let_def split: option.splits if_splits sum.splits prod.splits)
qed

end

interpretation memory: kg_backend mem_api "\<lambda>k. k" "\<lambda>k. True"
  by unfold_locales (simp_all add: mem_api_def)

section \<open>Postgres\<close>

definition pg_api :: "'v pg_kg_env \<Rightarrow> 'w embedder option \<Rightarrow> ('v kgdb \<times> 'w) kg_api" where
  "pg_api pe emb = \<lparr>ka_upsert = pg_upsert_entity pe emb, ka_persist = pg_persist_extraction pe emb\<rparr>"

text \<open>The relation index exists, and every vector that the embedder may return for a document fits the column.\<close>

definition fits :: "'v pg_kg_env \<Rightarrow> 'w embedder option \<Rightarrow> 'v kgdb \<Rightarrow> bool" where
  "fits pe emb db \<longleftrightarrow> (\<forall>em w txt v w'. emb = Some em \<longrightarrow> embed_one em w txt DOCUMENT = (Inr v, w') \<longrightarrow> storable pe db v)"

definition store_ready :: "'v pg_kg_env \<Rightarrow> 'w embedder option \<Rightarrow> 'v kgdb \<Rightarrow> bool" where
  "store_ready pe emb db \<longleftrightarrow> db_uniq db \<and> fits pe emb db"

lemma store_ready_cong: "db_uniq db = db_uniq db' \<Longrightarrow> db_dim db = db_dim db' \<Longrightarrow> store_ready pe emb db = store_ready pe emb db'"
  unfolding store_ready_def fits_def using storable_cong by metis

lemma try_embed_storable: "fits pe emb db \<Longrightarrow> try_embed emb w e = (Some v, w') \<Longrightarrow> storable pe db v"
  by (auto simp: try_embed_def fits_def split: option.splits prod.splits sum.splits)

lemma exec_upsert_returns:
  assumes "\<forall>v. vector = Some v \<longrightarrow> storable pe db v"
  shows "\<exists>db'. exec_upsert pe e vector db = Inr db'"
proof (cases vector)
  case (Some v)
  with assms obtain x where "column_value pe db (vector_literal (pe_float pe) v) = Inr x"
    by (auto simp: storable_def is_ok_def split: sum.splits)
  with Some show ?thesis by (simp add: exec_upsert_def)
qed (simp add: exec_upsert_def)

lemma pg_upsert_ready:
  assumes "store_ready pe emb db"
  shows "\<exists>db' w'. pg_upsert_entity pe emb e (db, w) = (Inr (), db', w') \<and> store_ready pe emb db' \<and>
    kg_of pol db' = upsert_entity e (kg_of pol db)"
proof -
  obtain vector w1 where t: "try_embed emb w e = (vector, w1)" by (cases "try_embed emb w e")
  have "\<forall>v. vector = Some v \<longrightarrow> storable pe db v" using try_embed_storable t assms by (auto simp: store_ready_def)
  then obtain db' where u: "exec_upsert pe e vector db = Inr db'" using exec_upsert_returns by blast
  have "store_ready pe emb db' = store_ready pe emb db"
    by (rule store_ready_cong) (use exec_upsert_abs [OF u] in simp_all)
  with assms t u exec_upsert_abs [OF u, of pol] show ?thesis by (simp add: pg_upsert_entity_def commit_def)
qed

lemma embed_all_storable:
  "fits pe emb db \<Longrightarrow> (e, Some v) \<in> set (fst (embed_all emb w es)) \<Longrightarrow> storable pe db v"
proof (induction es arbitrary: w)
  case (Cons x es)
  obtain u w1 where t: "try_embed emb w x = (u, w1)" by (cases "try_embed emb w x")
  obtain evs w2 where a: "embed_all emb w1 es = (evs, w2)" by (cases "embed_all emb w1 es")
  from Cons.prems(2) t a have "(e, Some v) = (x, u) \<or> (e, Some v) \<in> set (fst (embed_all emb w1 es))" by simp
  then show ?case using Cons.IH [OF Cons.prems(1)] try_embed_storable [OF Cons.prems(1)] t by auto
qed simp

lemma exec_upserts_return:
  "\<forall>e v. (e, Some v) \<in> set evs \<longrightarrow> storable pe db v \<Longrightarrow> \<exists>db'. exec_upserts pe evs db = Inr db'"
proof (induction evs arbitrary: db)
  case (Cons ev evs)
  obtain e vector where ev: "ev = (e, vector)" by (cases ev)
  have "\<forall>v. vector = Some v \<longrightarrow> storable pe db v" using Cons.prems ev by auto
  then obtain db1 where u: "exec_upsert pe e vector db = Inr db1" using exec_upsert_returns by blast
  have "storable pe db1 v = storable pe db v" for v
    by (rule storable_cong) (use exec_upsert_abs [OF u] in simp)
  with Cons.IH [of db1] Cons.prems u ev show ?case by auto
qed simp

lemma exec_insert_relations_return: "db_uniq db \<Longrightarrow> \<exists>db'. exec_insert_relations rels db = Inr db'"
  by (induction rels arbitrary: db) (auto simp: exec_insert_relation_def)

lemma pg_persist_ready:
  assumes "store_ready pe emb db"
  shows "\<exists>db' w'. pg_persist_extraction pe emb seg src es rels (db, w) = (Inr (), db', w') \<and> store_ready pe emb db' \<and>
    kg_of pol db' = persist_extraction seg src es rels (kg_of pol db)"
proof -
  let ?db0 = "delete_by_pattern (like_escape (extraction_entity_prefix seg src) @ ''%'') db"
  obtain evs w1 where t: "embed_all emb w es = (evs, w1)" by (cases "embed_all emb w es")
  have d0: "db_uniq ?db0 = db_uniq db" "db_dim ?db0 = db_dim db" by (simp_all add: delete_by_pattern_def)
  have r0: "store_ready pe emb ?db0" using store_ready_cong [OF d0, of pe emb] assms by (simp only:)
  have "storable pe ?db0 v" if "(e, Some v) \<in> set evs" for e v
    using embed_all_storable [of pe emb ?db0 e v w es] r0 that t by (simp add: store_ready_def)
  then obtain db1 where u: "exec_upserts pe evs ?db0 = Inr db1" using exec_upserts_return [of evs pe ?db0] by auto
  have u1: "db_uniq db1 = db_uniq db" "db_dim db1 = db_dim db" using exec_upserts_abs [OF u] d0 by simp_all
  then obtain db' where i: "exec_insert_relations rels db1 = Inr db'"
    using exec_insert_relations_return assms by (auto simp: store_ready_def)
  have "db_uniq db' = db_uniq db" "db_dim db' = db_dim db" using exec_insert_relations_abs [OF i] u1 by simp_all
  from store_ready_cong [OF this, of pe emb] assms have "store_ready pe emb db'" by (simp only:)
  moreover have p: "pg_persist_extraction pe emb seg src es rels (db, w) = (Inr (), db', w1)"
    using t u i by (simp add: pg_persist_extraction_def commit_def)
  ultimately show ?thesis using pg_persist_extraction_abs [OF p, of pol] by simp
qed

interpretation pg: kg_backend "pg_api pe emb" "\<lambda>(db, w). kg_of pol db" "\<lambda>(db, w). store_ready pe emb db" for pe emb pol
proof
  fix k :: "'a kgdb \<times> 'b" and e
  assume "case k of (db, w) \<Rightarrow> store_ready pe emb db"
  then show "\<exists>k'. ka_upsert (pg_api pe emb) e k = (Inr (), k') \<and> (case k' of (db, w) \<Rightarrow> store_ready pe emb db) \<and>
      (case k' of (db, w) \<Rightarrow> kg_of pol db) = upsert_entity e (case k of (db, w) \<Rightarrow> kg_of pol db)"
    using pg_upsert_ready [of pe emb "fst k" e "snd k" pol] by (cases k) (auto simp: pg_api_def)
next
  fix k :: "'a kgdb \<times> 'b" and seg src es rels
  assume "case k of (db, w) \<Rightarrow> store_ready pe emb db"
  then show "\<exists>k'. ka_persist (pg_api pe emb) seg src es rels k = (Inr (), k') \<and> (case k' of (db, w) \<Rightarrow> store_ready pe emb db) \<and>
      (case k' of (db, w) \<Rightarrow> kg_of pol db) = persist_extraction seg src es rels (case k of (db, w) \<Rightarrow> kg_of pol db)"
    using pg_persist_ready [of pe emb "fst k" seg src es rels "snd k" pol] by (cases k) (auto simp: pg_api_def)
qed

text \<open>What \<open>repr\<close> and the cast of pgvector are documented to do: the literal of a list of floats is a vector of as many
  components.\<close>

definition cast_law :: "'v pg_kg_env \<Rightarrow> bool" where
  "cast_law pe \<longleftrightarrow> (\<forall>v. v \<noteq> [] \<longrightarrow> (\<exists>x. pe_cast pe (vector_literal (pe_float pe) v) = Inr x \<and> pe_width pe x = int (length v)))"

lemma setup_ready:
  assumes "cast_law pe" "0 < em_dim em" "\<forall>w txt v w'. embed_one em w txt DOCUMENT = (Inr v, w') \<longrightarrow> int (length v) = em_dim em"
    and "pg_setup pe (Some em) (db, w) = (Inr (), db1, w1)"
  shows "store_ready pe (Some em) db1"
proof -
  from assms(4) obtain db0 where s: "setup_schema pe (Some (em_dim em)) db = Inr db0" "backfill pe em db0 w = (Inr (), db1, w1)"
    by (rule pg_setup_cases) auto
  have d: "db_uniq db1" "\<exists>n. db_dim db1 = Some n \<and> (n < 0 \<or> n = em_dim em)"
    using setup_schema_spec [OF s(1)] backfill_spec [OF s(2)] by (auto split: option.splits if_splits)
  have "storable pe db1 v" if "int (length v) = em_dim em" for v
  proof -
    have "v \<noteq> []" using that assms(2) by auto
    then obtain x where "pe_cast pe (vector_literal (pe_float pe) v) = Inr x" "pe_width pe x = int (length v)"
      using assms(1) by (auto simp: cast_law_def)
    with d(2) that show ?thesis by (auto simp: storable_def column_value_def)
  qed
  with d(1) assms(3) show ?thesis by (auto simp: store_ready_def fits_def)
qed

end
