(* ===== verification/Runner.thy ===== *)
theory Runner
  imports Graph
begin

text \<open>
  A turn of the compiled graph as a function: \<open>graph.invoke(initial_state(...))\<close> runs the nodes along the
  edges that \<open>build_graph\<close> of \<^verbatim>\<open>src/src/atlas/orchestration/graph.py\<close> adds until the approval interrupt or the
  end, and \<open>graph.invoke(Command(resume=...))\<close> goes on from the interrupt. Every node is one step of the
  transition system of theory \<open>Graph\<close>, so the invariants of reachable systems hold for what a turn leaves behind.

  The record \<open>deps\<close> holds what is injected into the nodes. The offline registry of \<^verbatim>\<open>tools.py\<close> (fake senders
  over one world, a resolver over the in-memory vault) is here too: the evaluation gate runs on it.
\<close>

section \<open>Nodes and turns\<close>

record 'w deps =
  dp_env :: audit_env
  dp_registry :: "'w registry"
  dp_plan :: "'w plan_fn"
  dp_round2 :: "real \<Rightarrow> real"
  dp_narrator :: "(string \<Rightarrow> string \<Rightarrow> string result) option"

text \<open>A node of a thread that does not exist is not run.\<close>

definition on_thread :: "string \<Rightarrow> (thread \<Rightarrow> unit result \<times> 'w system) \<Rightarrow> 'w system \<Rightarrow> unit result \<times> 'w system" where
  "on_thread tid run s = (case sys_threads s tid of None \<Rightarrow> (Inr (), s) | Some th \<Rightarrow> run th)"

definition run_planner :: "'w deps \<Rightarrow> string \<Rightarrow> 'w system \<Rightarrow> unit result \<times> 'w system" where
  "run_planner d tid s = on_thread tid (\<lambda>th.
     case planner_node (dp_env d) (dp_registry d) (sys_policy s) (kg_query (sys_kg s)) (dp_plan d) (th_state th) (sys_log s) of
       (Inl e, lg) \<Rightarrow> (Inl e, s\<lparr>sys_log := lg\<rparr>)
     | (Inr st, lg) \<Rightarrow> (Inr (), set_thread tid \<lparr>th_state = st, th_next = route_after_planner st\<rparr> s\<lparr>sys_log := lg\<rparr>)) s"

definition run_approval :: "'w deps \<Rightarrow> string \<Rightarrow> pyval \<Rightarrow> 'w system \<Rightarrow> unit result \<times> 'w system" where
  "run_approval d tid raw s = on_thread tid (\<lambda>th.
     case approval_node (dp_env d) (th_state th) raw (sys_log s) of
       (Inl e, lg) \<Rightarrow> (Inl e, s\<lparr>sys_log := lg\<rparr>)
     | (Inr st, lg) \<Rightarrow> (Inr (), set_thread tid \<lparr>th_state = st, th_next = Executor\<rparr> s\<lparr>sys_log := lg\<rparr>)) s"

definition run_executor :: "'w deps \<Rightarrow> string \<Rightarrow> 'w system \<Rightarrow> unit result \<times> 'w system" where
  "run_executor d tid s = on_thread tid (\<lambda>th.
     case executor_node (dp_env d) (dp_registry d) (sys_policy s) (th_state th) (sys_log s) (sys_world s) of
       (Inl e, lg, w) \<Rightarrow> (Inl e, s\<lparr>sys_log := lg, sys_world := w\<rparr>)
     | (Inr st, lg, w) \<Rightarrow>
         (Inr (), set_thread tid \<lparr>th_state = st, th_next = Responder\<rparr> s\<lparr>sys_log := lg, sys_world := w\<rparr>)) s"

definition run_responder :: "'w deps \<Rightarrow> string \<Rightarrow> 'w system \<Rightarrow> unit result \<times> 'w system" where
  "run_responder d tid s = on_thread tid (\<lambda>th.
     (Inr (), set_thread tid \<lparr>th_state = responder_node (dp_round2 d) (dp_narrator d) (th_state th), th_next = End\<rparr> s)) s"

definition then_run :: "('s \<Rightarrow> unit result \<times> 's) \<Rightarrow> ('s \<Rightarrow> unit result \<times> 's) \<Rightarrow> 's \<Rightarrow> unit result \<times> 's" where
  "then_run f g s = (case f s of (Inl e, s') \<Rightarrow> (Inl e, s') | (Inr _, s') \<Rightarrow> g s')"

text \<open>The edges: planner to approval (which interrupts), executor or responder; approval to executor; executor to
  responder; responder to the end.\<close>

definition continue_run :: "'w deps \<Rightarrow> string \<Rightarrow> 'w system \<Rightarrow> unit result \<times> 'w system" where
  "continue_run d tid s = on_thread tid (\<lambda>th.
     case th_next th of
       Executor \<Rightarrow> then_run (run_executor d tid) (run_responder d tid) s
     | Responder \<Rightarrow> run_responder d tid s
     | _ \<Rightarrow> (Inr (), s)) s"

definition invoke_graph :: "'w deps \<Rightarrow> string \<Rightarrow> string \<Rightarrow> principal option \<Rightarrow> 'w system \<Rightarrow> unit result \<times> 'w system" where
  "invoke_graph d tid msg p s =
     then_run (run_planner d tid) (continue_run d tid) (set_thread tid (start_turn (sys_threads s tid) msg p) s)"

definition resume_graph :: "'w deps \<Rightarrow> string \<Rightarrow> pyval \<Rightarrow> 'w system \<Rightarrow> unit result \<times> 'w system" where
  "resume_graph d tid raw s = on_thread tid (\<lambda>th.
     if th_next th = Approval then then_run (run_approval d tid raw) (continue_run d tid) s else (Inr (), s)) s"

section \<open>The offline registry\<close>

record offline_world =
  ow_email :: "email_message fake_sender"
  ow_slack :: "slack_message fake_sender"
  ow_gmail :: "(email_message \<times> string) fake_sender"
  ow_calendar :: "(calendar_event \<times> string) fake_sender"
  ow_slack_user :: "(slack_message \<times> string) fake_sender"
  ow_vault :: mem_vault

definition offline_init :: "bool \<Rightarrow> offline_world" where
  "offline_init failing = \<lparr>ow_email = fake_init failing, ow_slack = fake_init False, ow_gmail = fake_init False,
     ow_calendar = fake_init False, ow_slack_user = fake_init False, ow_vault = []\<rparr>"

definition offline_resolver :: "refreshers \<Rightarrow> int \<Rightarrow> offline_world resolver" where
  "offline_resolver rf now p provider scopes w =
     (let (r, v) = get_access_token mem_vault_get mem_vault_put rf now p provider scopes (ow_vault w)
      in (r, w\<lparr>ow_vault := v\<rparr>))"

definition offline_registry :: "verr \<Rightarrow> refreshers \<Rightarrow> int \<Rightarrow> offline_world registry result" where
  "offline_registry verr rf now =
     result_bind
       (register_all
         [search_tool verr,
          send_email_tool verr (Some (\<lambda>m w. let (r, x) = fake_email_send m (ow_email w) in (r, w\<lparr>ow_email := x\<rparr>))),
          slack_post_tool verr (Some (\<lambda>m w. let (r, x) = fake_slack_post m (ow_slack w) in (r, w\<lparr>ow_slack := x\<rparr>)))] [])
       (register_oauth_tools verr (Some (offline_resolver rf now))
         (Some (\<lambda>m t w. let (r, x) = fake_gmail_send m t (ow_gmail w) in (r, w\<lparr>ow_gmail := x\<rparr>)))
         (Some (\<lambda>m t w. let (r, x) = fake_create_event m t (ow_calendar w) in (r, w\<lparr>ow_calendar := x\<rparr>)))
         (Some (\<lambda>m t w. let (r, x) = fake_slack_user_post m t (ow_slack_user w) in (r, w\<lparr>ow_slack_user := x\<rparr>))))"

section \<open>Turns are runs of the transition system\<close>

lemma then_run_cases:
  assumes "then_run f g s = (r, s')"
  obtains (fst) e where "f s = (Inl e, s')" "r = Inl e"
  | (snd) s1 where "f s = (Inr (), s1)" "g s1 = (r, s')"
  using assms by (cases "f s"; cases "fst (f s)") (auto simp: then_run_def)

lemma run_planner_steps:
  assumes "run_planner d tid s = (r, s')" "plans_via_registry (dp_registry d) (dp_plan d)"
    and "\<forall>th. sys_threads s tid = Some th \<longrightarrow> th_next th = Planner"
  shows "(step (dp_env d) (dp_registry d))\<^sup>*\<^sup>* s s'"
  using assms by (auto simp: run_planner_def on_thread_def split: option.splits prod.splits sum.splits
      intro!: r_into_rtranclp intro: step.plan step.plan_error)

lemma run_approval_steps:
  assumes "run_approval d tid raw s = (r, s')" "\<forall>th. sys_threads s tid = Some th \<longrightarrow> th_next th = Approval"
  shows "(step (dp_env d) (dp_registry d))\<^sup>*\<^sup>* s s'"
  using assms by (auto simp: run_approval_def on_thread_def split: option.splits prod.splits sum.splits
      intro!: r_into_rtranclp intro: step.resume step.resume_error)

lemma run_executor_steps:
  assumes "run_executor d tid s = (r, s')" "\<forall>th. sys_threads s tid = Some th \<longrightarrow> th_next th = Executor"
  shows "(step (dp_env d) (dp_registry d))\<^sup>*\<^sup>* s s'"
  using assms by (auto simp: run_executor_def on_thread_def split: option.splits prod.splits sum.splits
      intro!: r_into_rtranclp intro: step.exec step.exec_error)

lemma run_responder_steps:
  assumes "run_responder d tid s = (r, s')" "\<forall>th. sys_threads s tid = Some th \<longrightarrow> th_next th = Responder"
  shows "(step (dp_env d) (dp_registry d))\<^sup>*\<^sup>* s s'"
  using assms by (auto simp: run_responder_def on_thread_def split: option.splits
      intro!: r_into_rtranclp intro: step.respond)

text \<open>The node that is next after a node returned.\<close>

lemma planner_next: "run_planner d tid s = (Inr (), s') \<Longrightarrow> sys_threads s tid \<noteq> None \<Longrightarrow>
    \<exists>st. sys_threads s' tid = Some \<lparr>th_state = st, th_next = route_after_planner st\<rparr>"
  by (auto simp: run_planner_def on_thread_def set_thread_def split: prod.splits sum.splits)

lemma approval_next: "run_approval d tid raw s = (Inr (), s') \<Longrightarrow> sys_threads s tid \<noteq> None \<Longrightarrow>
    \<exists>st. sys_threads s' tid = Some \<lparr>th_state = st, th_next = Executor\<rparr>"
  by (auto simp: run_approval_def on_thread_def set_thread_def split: prod.splits sum.splits)

lemma executor_next: "run_executor d tid s = (Inr (), s') \<Longrightarrow> sys_threads s tid \<noteq> None \<Longrightarrow>
    \<exists>st. sys_threads s' tid = Some \<lparr>th_state = st, th_next = Responder\<rparr>"
  by (auto simp: run_executor_def on_thread_def set_thread_def split: prod.splits sum.splits)

lemma responder_next: "run_responder d tid s = (r, s') \<Longrightarrow> sys_threads s tid \<noteq> None \<Longrightarrow>
    r = Inr () \<and> (\<exists>st. sys_threads s' tid = Some \<lparr>th_state = st, th_next = End\<rparr>)"
  by (auto simp: run_responder_def on_thread_def set_thread_def)

lemma continue_run_spec:
  assumes "continue_run d tid s = (r, s')" "sys_threads s tid = Some th" "th_next th \<noteq> Planner"
  shows "(step (dp_env d) (dp_registry d))\<^sup>*\<^sup>* s s' \<and>
    (r = Inr () \<longrightarrow> (\<exists>th'. sys_threads s' tid = Some th' \<and> th_next th' = (if th_next th = Approval then Approval else End)))"
proof (cases "th_next th")
  case Executor
  then have "then_run (run_executor d tid) (run_responder d tid) s = (r, s')"
    using assms by (simp add: continue_run_def on_thread_def)
  then show ?thesis
  proof (cases rule: then_run_cases)
    case (fst e)
    with run_executor_steps [OF fst(1)] assms(2) Executor show ?thesis by simp
  next
    case (snd s1)
    obtain st where st: "sys_threads s1 tid = Some \<lparr>th_state = st, th_next = Responder\<rparr>"
      using executor_next [OF snd(1)] assms(2) by auto
    have "(step (dp_env d) (dp_registry d))\<^sup>*\<^sup>* s s1" by (rule run_executor_steps [OF snd(1)]) (use assms(2) Executor in simp)
    moreover have "(step (dp_env d) (dp_registry d))\<^sup>*\<^sup>* s1 s'" by (rule run_responder_steps [OF snd(2)]) (use st in simp)
    ultimately show ?thesis using responder_next [OF snd(2)] st Executor by auto
  qed
next
  case Responder
  then have r: "run_responder d tid s = (r, s')" using assms by (simp add: continue_run_def on_thread_def)
  with run_responder_steps [OF r] responder_next [OF r] assms(2) Responder show ?thesis by auto
qed (use assms in \<open>auto simp: continue_run_def on_thread_def\<close>)

lemma reachable_steps: "(step env reg)\<^sup>*\<^sup>* s s' \<Longrightarrow> reachable env reg s \<Longrightarrow> reachable env reg s'"
  by (induction rule: rtranclp_induct) (auto intro: reachable.step)

lemma invoke_graph_spec:
  assumes "plans_via_registry (dp_registry d) (dp_plan d)" "invoke_graph d tid msg p s = (r, s')"
  shows "(step (dp_env d) (dp_registry d))\<^sup>*\<^sup>* s s' \<and>
    (r = Inr () \<longrightarrow> (\<exists>th. sys_threads s' tid = Some th \<and> th_next th \<in> {Approval, End}))"
proof -
  let ?s0 = "set_thread tid (start_turn (sys_threads s tid) msg p) s"
  have s0: "sys_threads ?s0 tid = Some (start_turn (sys_threads s tid) msg p)" by (simp add: set_thread_def)
  have n0: "\<forall>th. sys_threads ?s0 tid = Some th \<longrightarrow> th_next th = Planner" unfolding s0 by (simp add: start_turn_def Let_def)
  have st0: "(step (dp_env d) (dp_registry d))\<^sup>*\<^sup>* s ?s0" by (rule r_into_rtranclp, rule step.start)
  from assms(2) show ?thesis unfolding invoke_graph_def
  proof (cases rule: then_run_cases)
    case (fst e)
    with st0 run_planner_steps [OF fst(1) assms(1) n0] show ?thesis by simp
  next
    case (snd s1)
    obtain st where st: "sys_threads s1 tid = Some \<lparr>th_state = st, th_next = route_after_planner st\<rparr>"
      using planner_next [OF snd(1)] s0 by auto
    have "(step (dp_env d) (dp_registry d))\<^sup>*\<^sup>* s s1"
      using st0 run_planner_steps [OF snd(1) assms(1) n0] by simp
    moreover have "route_after_planner st \<noteq> Planner" by (simp add: route_after_planner_def)
    ultimately show ?thesis using continue_run_spec [OF snd(2) st] by (auto split: if_splits)
  qed
qed

lemma resume_graph_spec:
  assumes "resume_graph d tid raw s = (r, s')" "sys_threads s tid = Some th" "th_next th = Approval"
  shows "(step (dp_env d) (dp_registry d))\<^sup>*\<^sup>* s s' \<and>
    (r = Inr () \<longrightarrow> (\<exists>th. sys_threads s' tid = Some th \<and> th_next th = End))"
proof -
  have "then_run (run_approval d tid raw) (continue_run d tid) s = (r, s')"
    using assms by (simp add: resume_graph_def on_thread_def)
  then show ?thesis
  proof (cases rule: then_run_cases)
    case (fst e)
    with run_approval_steps [OF fst(1)] assms(2,3) show ?thesis by simp
  next
    case (snd s1)
    obtain st where st: "sys_threads s1 tid = Some \<lparr>th_state = st, th_next = Executor\<rparr>"
      using approval_next [OF snd(1)] assms(2) by auto
    have "(step (dp_env d) (dp_registry d))\<^sup>*\<^sup>* s s1" by (rule run_approval_steps [OF snd(1)]) (use assms(2,3) in simp)
    with continue_run_spec [OF snd(2) st] show ?thesis by auto
  qed
qed

section \<open>Property\<close>


definition demo_deps :: "email_message fake_sender deps" where
  "demo_deps = \<lparr>dp_env = demo_env, dp_registry = demo_registry, dp_plan = demo_plan, dp_round2 = (\<lambda>x. x),
     dp_narrator = None\<rparr>"


end
