(* ===== verification/Eval_Gate.thy ===== *)
theory Eval_Gate
  imports Runner Ingestion
begin

text \<open>
  The deterministic evaluation gate of the repository, \<^verbatim>\<open>src/evals/deterministic/scenarios.py\<close>, \<^verbatim>\<open>oracles.py\<close>
  and \<^verbatim>\<open>src/evals/run_gate.py\<close>: twelve golden traces that drive the compiled graph, the guarded executor and
  the ingestion service, the pass ratio, and the exit code.

  The oracles run on the model: \<open>eval_run\<close> is \<open>_run\<close> with the default in-memory policy and, unless given, an empty
  in-memory knowledge graph. The digest, the clock and the event ids of the audit environment, the rounding of
  the confidence and the fresh action id are parameters. The details that an oracle prints are left out.
\<close>

section \<open>Scenarios\<close>

definition MEMBER :: principal where
  "MEMBER = \<lparr>user_id = ''alice'', roles = [''member''], org_id = None\<rparr>"

definition GUEST :: principal where
  "GUEST = \<lparr>user_id = ''bob'', roles = [''guest''], org_id = None\<rparr>"

definition send_args :: pydict where
  "send_args = [(''to'', PStr ''a@b.com''), (''subject'', PStr ''hi''), (''body'', PStr ''x'')]"

definition send_email_plan :: "string \<Rightarrow> 'w plan_fn" where
  "send_email_plan fresh request reg ctx =
     result_bind (propose reg fresh ''send_email'' send_args []) (\<lambda>a. Inr [a])"

definition search_plan :: "string \<Rightarrow> 'w plan_fn" where
  "search_plan fresh request reg ctx =
     result_bind (propose reg fresh ''search'' [(''query'', PStr ''quarterly numbers'')] []) (\<lambda>a. Inr [a])"

definition empty_plan :: "'w plan_fn" where
  "empty_plan request reg ctx = Inr []"

section \<open>The runner\<close>

record eval_env =
  ee_audit :: audit_env
  ee_verr :: verr
  ee_round2 :: "real \<Rightarrow> real"
  ee_fresh :: string

record trace =
  tr_paused :: bool
  tr_final :: agent_state
  tr_audit_types :: "string list"

definition no_refresh :: refreshers where
  "no_refresh = \<lparr>refresh_google = None, refresh_slack = None\<rparr>"

definition offline_reg :: "eval_env \<Rightarrow> offline_world registry" where
  "offline_reg ee = (case offline_registry (ee_verr ee) no_refresh 0 of Inl _ \<Rightarrow> [] | Inr reg \<Rightarrow> reg)"

definition eval_deps :: "eval_env \<Rightarrow> offline_world plan_fn \<Rightarrow> offline_world deps" where
  "eval_deps ee plan = \<lparr>dp_env = ee_audit ee, dp_registry = offline_reg ee, dp_plan = plan,
     dp_round2 = ee_round2 ee, dp_narrator = None\<rparr>"

definition eval_policy :: policy where
  "eval_policy = mem_effective_permissions (mem_policy_init None)"

definition eval_system :: "kg option \<Rightarrow> offline_world system" where
  "eval_system knowledge = \<lparr>sys_threads = Map.empty, sys_log = [], sys_world = offline_init False,
     sys_policy = eval_policy,
     sys_kg = (case knowledge of None \<Rightarrow> kg_init (Some eval_policy) | Some k \<Rightarrow> bind_policy eval_policy k)\<rparr>"

definition audit_types :: "audit_log \<Rightarrow> string list" where
  "audit_types lg = map (\<lambda>e. event_type_value (ev_type e)) (events lg)"

definition eval_run ::
  "eval_env \<Rightarrow> offline_world plan_fn \<Rightarrow> string \<Rightarrow> principal option \<Rightarrow> kg option \<Rightarrow> pyval option \<Rightarrow> trace result" where
  "eval_run ee plan message p knowledge resume =
     (let d = eval_deps ee plan; tid = ''eval''; (r, s1) = invoke_graph d tid message p (eval_system knowledge)
      in result_bind r (\<lambda>_.
           let th1 = the (sys_threads s1 tid); paused = (th_next th1 = Approval)
           in case resume of
                None \<Rightarrow> Inr \<lparr>tr_paused = paused, tr_final = th_state th1, tr_audit_types = audit_types (sys_log s1)\<rparr>
              | Some raw \<Rightarrow>
                  (let (r2, s2) = resume_graph d tid raw s1
                   in result_bind r2 (\<lambda>_.
                        Inr \<lparr>tr_paused = paused, tr_final = th_state (the (sys_threads s2 tid)),
                             tr_audit_types = audit_types (sys_log s2)\<rparr>))))"

section \<open>Oracles of the graph\<close>

record oracle_result =
  or_name :: string
  or_passed :: bool

definition approval_approve :: "eval_env \<Rightarrow> oracle_result result" where
  "approval_approve ee =
     result_bind (eval_run ee (send_email_plan (ee_fresh ee)) ''email a@b.com'' (Some MEMBER) None (Some (PBool True))) (\<lambda>t.
       let results = st_results (tr_final t)
       in Inr \<lparr>or_name = ''approval/approve'', or_passed =
            (tr_paused t \<and> length results = 1 \<and> ar_ok (hd results) \<and> ar_tool (hd results) = ''send_email'' \<and>
             ''approved'' \<in> set (tr_audit_types t) \<and> ''executed'' \<in> set (tr_audit_types t))\<rparr>)"

definition approval_reject :: "eval_env \<Rightarrow> oracle_result result" where
  "approval_reject ee =
     result_bind (eval_run ee (send_email_plan (ee_fresh ee)) ''email a@b.com'' (Some MEMBER) None (Some (PBool False))) (\<lambda>t.
       Inr \<lparr>or_name = ''approval/reject'', or_passed =
            (tr_paused t \<and> st_results (tr_final t) = [] \<and> ''rejected'' \<in> set (tr_audit_types t) \<and>
             ''skipped'' \<in> set (tr_audit_types t) \<and> ''executed'' \<notin> set (tr_audit_types t))\<rparr>)"

definition anti_replay :: "eval_env \<Rightarrow> oracle_result result" where
  "anti_replay ee =
     result_bind (eval_run ee (send_email_plan (ee_fresh ee)) ''email a@b.com'' (Some MEMBER) None
       (Some (PList [PDict [(''action_id'', PStr ''act_not_a_real_id''), (''approved'', PBool True)]]))) (\<lambda>t.
       Inr \<lparr>or_name = ''anti-replay'', or_passed =
            (tr_paused t \<and> st_results (tr_final t) = [] \<and> ''executed'' \<notin> set (tr_audit_types t))\<rparr>)"

definition rbac_deny_before_approval :: "eval_env \<Rightarrow> oracle_result result" where
  "rbac_deny_before_approval ee =
     result_bind (eval_run ee (send_email_plan (ee_fresh ee)) ''email a@b.com'' (Some GUEST) None None) (\<lambda>t.
       Inr \<lparr>or_name = ''rbac/deny-before-approval'', or_passed =
            (\<not> tr_paused t \<and> st_results (tr_final t) = [] \<and> ''denied'' \<in> set (tr_audit_types t) \<and>
             ''approved'' \<notin> set (tr_audit_types t) \<and> ''executed'' \<notin> set (tr_audit_types t))\<rparr>)"

definition rbac_kg_idor :: "eval_env \<Rightarrow> oracle_result result" where
  "rbac_kg_idor ee =
     result_bind (eval_run ee (search_plan (ee_fresh ee)) ''find the revenue and onboarding'' (Some MEMBER) (Some seed_demo_graph) None) (\<lambda>m.
     result_bind (eval_run ee (search_plan (ee_fresh ee)) ''find the revenue and onboarding'' (Some GUEST) (Some seed_demo_graph) None) (\<lambda>g.
       let kg = (\<lambda>t. map en_id (st_kg_context (tr_final t)));
           src = (\<lambda>t. map (\<lambda>s. (so_kind s, so_ref s)) (st_sources (tr_final t)))
       in Inr \<lparr>or_name = ''rbac/kg-idor'', or_passed =
            (''doc-1'' \<in> set (kg m) \<and> ''doc-1'' \<notin> set (kg g) \<and>
             (KNOWLEDGE, ''doc-1'') \<in> set (src m) \<and> (KNOWLEDGE, ''doc-1'') \<notin> set (src g))\<rparr>))"

definition read_only_auto :: "eval_env \<Rightarrow> oracle_result result" where
  "read_only_auto ee =
     result_bind (eval_run ee (search_plan (ee_fresh ee)) ''find the quarterly numbers'' (Some MEMBER) None None) (\<lambda>t.
       let results = st_results (tr_final t)
       in Inr \<lparr>or_name = ''read-only/auto'', or_passed =
            (\<not> tr_paused t \<and> length results = 1 \<and> ar_ok (hd results) \<and> st_sources (tr_final t) \<noteq> [] \<and>
             st_confidence (tr_final t) \<noteq> None)\<rparr>)"

definition confidence_grounded_vs_ungrounded :: "eval_env \<Rightarrow> oracle_result result" where
  "confidence_grounded_vs_ungrounded ee =
     result_bind (eval_run ee empty_plan ''revenue'' (Some MEMBER) (Some seed_demo_graph) None) (\<lambda>g.
     result_bind (eval_run ee empty_plan ''something unrelated entirely'' (Some MEMBER) None None) (\<lambda>u.
       let gc = st_confidence (tr_final g); uc = st_confidence (tr_final u)
       in Inr \<lparr>or_name = ''confidence'', or_passed =
            (gc = Some GROUNDED_ANSWER \<and> uc = Some UNGROUNDED_ANSWER \<and> the uc < the gc)\<rparr>))"

section \<open>Oracles of the guarded executor\<close>

definition eval_principal :: principal where
  "eval_principal = \<lparr>user_id = ''test'', roles = [''member''], org_id = Some ''org1''\<rparr>"

text \<open>Two guarded executions of one action; between them the sender's \<open>fail\<close> flag is set to \<open>recover\<close>.\<close>

definition execute_twice ::
  "eval_env \<Rightarrow> bool \<Rightarrow> (action_result \<times> action_result \<times> audit_log \<times> offline_world) result" where
  "execute_twice ee failing =
     result_bind (propose (offline_reg ee) (ee_fresh ee) ''send_email'' send_args []) (\<lambda>a.
       let (r1, lg1, w1) = execute_guarded (ee_audit ee) (offline_reg ee) a eval_principal None [] (offline_init failing);
           w1' = w1\<lparr>ow_email := (ow_email w1)\<lparr>fs_fail := False\<rparr>\<rparr>;
           (r2, lg2, w2) = execute_guarded (ee_audit ee) (offline_reg ee) a eval_principal None lg1 w1'
       in result_bind r1 (\<lambda>x1. result_bind r2 (\<lambda>x2. Inr (x1, x2, lg2, w2))))"

definition idempotency_replay_skip :: "eval_env \<Rightarrow> oracle_result result" where
  "idempotency_replay_skip ee =
     result_bind (execute_twice ee False) (\<lambda>(fst_r, snd_r, lg, w).
       let types = map ev_type (events lg)
       in Inr \<lparr>or_name = ''idempotency/replay-skip'', or_passed =
            (fs_count (ow_email w) = 1 \<and> ar_ok fst_r \<and> ar_ok snd_r \<and>
             (case ar_output snd_r of PDict d \<Rightarrow> dict_get d ''replay_skipped'' = Some (PBool True) | _ \<Rightarrow> False) \<and>
             length (filter (\<lambda>t. t = EXECUTED) types) = 1 \<and> REPLAY_SKIPPED \<in> set types)\<rparr>)"

definition idempotency_failed_retry :: "eval_env \<Rightarrow> oracle_result result" where
  "idempotency_failed_retry ee =
     result_bind (execute_twice ee True) (\<lambda>(fst_r, snd_r, lg, w).
       let types = map ev_type (events lg)
       in Inr \<lparr>or_name = ''idempotency/failed-retry'', or_passed =
            (\<not> ar_ok fst_r \<and> ar_ok snd_r \<and> fs_count (ow_email w) = 2 \<and> FAILED \<in> set types \<and>
             length (filter (\<lambda>t. t = EXECUTED) types) = 1)\<rparr>)"

section \<open>Oracles of the ingestion\<close>

definition ALICE :: principal where
  "ALICE = \<lparr>user_id = ''alice'', roles = [''member''], org_id = None\<rparr>"

definition BOB :: principal where
  "BOB = \<lparr>user_id = ''bob'', roles = [''member''], org_id = None\<rparr>"

definition ADMIN :: principal where
  "ADMIN = \<lparr>user_id = ''root'', roles = [''admin''], org_id = None\<rparr>"

definition DEFAULT_MAX_EXTRACTED_ENTITIES :: int where
  "DEFAULT_MAX_EXTRACTED_ENTITIES = 64"

definition DEFAULT_MAX_EXTRACTED_RELATIONS :: int where
  "DEFAULT_MAX_EXTRACTED_RELATIONS = 128"

definition eval_service :: "kg ingestion_service" where
  "eval_service = \<lparr>is_kg = mem_api, is_policy = eval_policy, is_chunk_size = DEFAULT_CHUNK_SIZE,
     is_chunk_overlap = DEFAULT_CHUNK_OVERLAP, is_extractor = None,
     is_max_entities = DEFAULT_MAX_EXTRACTED_ENTITIES, is_max_relations = DEFAULT_MAX_EXTRACTED_RELATIONS\<rparr>"

definition eval_document :: "string \<Rightarrow> string \<Rightarrow> scope \<Rightarrow> ingest_document result" where
  "eval_document txt title sc = mk_ingest_document \<lparr>doc_text = txt, doc_title = title, doc_type = ''doc'',
     doc_scope = sc, doc_source_id = None, doc_org_acl = None\<rparr>"

definition eval_ingest ::
  "eval_env \<Rightarrow> principal \<Rightarrow> ingest_document \<Rightarrow> kg \<Rightarrow> ingestion_result result \<times> kg" where
  "eval_ingest ee p d k = (let (r, k', _) = ingest (ee_audit ee) eval_service (Some p) d k None in (r, k'))"

definition ingest_pkg_isolation :: "eval_env \<Rightarrow> oracle_result result" where
  "ingest_pkg_isolation ee =
     result_bind (eval_document ''alice onboarding plan'' ''plan'' PERSONAL) (\<lambda>doc.
       let (r, k) = eval_ingest ee ALICE doc (kg_init None)
       in result_bind r (\<lambda>_.
            let alice_ids = map en_id (kg_query k (Some ALICE) ''onboarding'' 5);
                bob_ids = map en_id (kg_query k (Some BOB) ''onboarding'' 5)
            in Inr \<lparr>or_name = ''ingest/pkg-isolation'', or_passed =
                 (alice_ids \<noteq> [] \<and> bob_ids = [] \<and> set alice_ids \<inter> set bob_ids = {})\<rparr>))"

definition ingest_dedup_idempotent :: "eval_env \<Rightarrow> oracle_result result" where
  "ingest_dedup_idempotent ee =
     result_bind (eval_document ''repeatable content'' ''dup'' PERSONAL) (\<lambda>doc.
       let (r1, k1) = eval_ingest ee ALICE doc (kg_init None); (r2, k2) = eval_ingest ee ALICE doc k1;
           n1 = length (kg_query k1 (Some ALICE) [] 1000); n2 = length (kg_query k2 (Some ALICE) [] 1000)
       in result_bind r1 (\<lambda>x1. result_bind r2 (\<lambda>x2.
            Inr \<lparr>or_name = ''ingest/dedup-idempotent'', or_passed =
              (ir_entity_ids x1 = ir_entity_ids x2 \<and> n1 = n2 \<and> n1 = length (ir_entity_ids x1))\<rparr>)))"

definition ingest_okg_write_denied :: "eval_env \<Rightarrow> oracle_result result" where
  "ingest_okg_write_denied ee =
     result_bind (eval_document ''org wide policy'' ''policy'' ORG) (\<lambda>doc.
       let (r1, k1) = eval_ingest ee ALICE doc (kg_init None)
       in result_bind (case r1 of
              Inl e \<Rightarrow> if exc_class e = ''IngestionDenied'' then Inr True else Inl e
            | Inr _ \<Rightarrow> Inr False) (\<lambda>denied.
            let nothing_written = (length (kg_query k1 (Some ADMIN) [] 1000) = 0);
                (r2, k2) = eval_ingest ee ADMIN doc k1
            in result_bind r2 (\<lambda>x2.
                 Inr \<lparr>or_name = ''ingest/okg-write-denied'', or_passed =
                   (denied \<and> nothing_written \<and> ir_entity_ids x2 \<noteq> [] \<and> kg_query k2 (Some ALICE) ''policy'' 5 \<noteq> [])\<rparr>)))"

section \<open>Suite and gate\<close>

definition ORACLES :: "(string \<times> (eval_env \<Rightarrow> oracle_result result)) list" where
  "ORACLES =
    [(''approval_approve'', approval_approve), (''approval_reject'', approval_reject), (''anti_replay'', anti_replay),
     (''idempotency_replay_skip'', idempotency_replay_skip), (''idempotency_failed_retry'', idempotency_failed_retry),
     (''rbac_deny_before_approval'', rbac_deny_before_approval), (''rbac_kg_idor'', rbac_kg_idor),
     (''read_only_auto'', read_only_auto),
     (''confidence_grounded_vs_ungrounded'', confidence_grounded_vs_ungrounded),
     (''ingest_pkg_isolation'', ingest_pkg_isolation), (''ingest_dedup_idempotent'', ingest_dedup_idempotent),
     (''ingest_okg_write_denied'', ingest_okg_write_denied)]"

text \<open>An oracle that raises is a failing oracle.\<close>

definition run_oracle :: "eval_env \<Rightarrow> string \<times> (eval_env \<Rightarrow> oracle_result result) \<Rightarrow> oracle_result" where
  "run_oracle ee o' = (case snd o' ee of Inl _ \<Rightarrow> \<lparr>or_name = fst o', or_passed = False\<rparr> | Inr r \<Rightarrow> r)"

definition suite_score :: "oracle_result list \<Rightarrow> real" where
  "suite_score results = real (length (filter or_passed results)) / real (length results)"

definition run_suite :: "eval_env \<Rightarrow> real \<times> oracle_result list" where
  "run_suite ee = (let results = map (run_oracle ee) ORACLES in (suite_score results, results))"

definition MIN_PASS_SCORE :: real where
  "MIN_PASS_SCORE = 90 / 100"

text \<open>The exit code of \<open>main\<close>; the quality telemetry after a pass cannot change it.\<close>

definition gate_exit :: "real \<Rightarrow> int" where
  "gate_exit score = (if score < MIN_PASS_SCORE then 1 else 0)"

definition gate_main :: "eval_env \<Rightarrow> int" where
  "gate_main ee = gate_exit (fst (run_suite ee))"

section \<open>The send and the search of the scenarios\<close>

definition send_tool :: "eval_env \<Rightarrow> offline_world tool" where
  "send_tool ee = send_email_tool (ee_verr ee)
     (Some (\<lambda>m w. let (r, x) = fake_email_send m (ow_email w) in (r, w\<lparr>ow_email := x\<rparr>)))"

lemma offline_tools:
  "get_tool (offline_reg ee) ''send_email'' = Inr (send_tool ee)"
  "get_tool (offline_reg ee) ''search'' = Inr (search_tool (ee_verr ee))"
  by (simp_all add: offline_reg_def offline_registry_def register_def register_oauth_tools_def get_tool_def
      search_tool_def send_email_tool_def slack_post_tool_def gmail_send_tool_def calendar_create_event_tool_def
      slack_post_as_user_tool_def send_tool_def dict_keys_def)

definition send_action :: "eval_env \<Rightarrow> proposed_action" where
  "send_action ee = \<lparr>pa_id = ee_fresh ee, pa_tool = ''send_email'', pa_args = send_args, pa_tier = SEND,
     pa_rationale = [], pa_permission = Some ''tool:send:domain:b.com''\<rparr>"

definition send_margs :: margs where
  "send_margs = \<lparr>m_class = ''_SendEmailArgs'', m_fields = send_args\<rparr>"

lemma send_validate: "t_validate (send_tool ee) send_args = Inr send_margs"
  apply (simp add: send_tool_def send_email_tool_def send_args_def send_margs_def)
  apply code_simp
  done
lemma send_permission: "permission_for (send_tool ee) send_margs = Inr (Some ''tool:send:domain:b.com'')"
  apply (simp add: permission_for_def send_tool_def send_email_tool_def send_margs_def)
  apply code_simp
  done

lemma send_tool_simps [simp]:
  "t_name (send_tool ee) = ''send_email''" "t_tier (send_tool ee) = SEND" "t_metadata (send_tool ee) = []"
  by (simp_all add: send_tool_def send_email_tool_def)

lemma send_action_simps [simp]:
  "pa_id (send_action ee) = ee_fresh ee" "pa_tool (send_action ee) = ''send_email''"
  "pa_args (send_action ee) = send_args" "pa_tier (send_action ee) = SEND"
  "pa_permission (send_action ee) = Some ''tool:send:domain:b.com''"
  by (simp_all add: send_action_def)

lemma send_margs_fields [simp]: "m_fields send_margs = send_args" "m_class send_margs = ''_SendEmailArgs''"
  by (simp_all add: send_margs_def)

lemma send_propose: "propose (offline_reg ee) (ee_fresh ee) ''send_email'' send_args [] = Inr (send_action ee)"
  by (simp add: propose_def offline_tools send_validate send_permission send_action_def model_dump_def)

lemma send_required: "required_permission_for (send_action ee) (send_tool ee) = Inr (Some ''tool:send:domain:b.com'')"
  by (simp add: required_permission_for_def send_validate send_permission)

lemma eval_grants:
  "policy_can eval_policy (Some MEMBER) (Some ''tool:send:domain:b.com'')"
  "\<not> policy_can eval_policy (Some GUEST) (Some ''tool:send:domain:b.com'')"
  "policy_can eval_policy p None"
  subgoal by code_simp
  subgoal by code_simp
  by (simp add: policy_can_def)

lemma send_authorized:
  "authorized_action (offline_reg ee) eval_policy MEMBER (send_action ee)"
  "\<not> authorized_action (offline_reg ee) eval_policy GUEST (send_action ee)"
  using offline_tools(1) [of ee] by (auto simp: authorized_action_def send_required eval_grants get_tool_def split: option.splits)

lemma send_execute:
  "execute (offline_reg ee) (send_action ee) p w =
    (let (r, x) = fake_email_send (email_of_args send_margs) (ow_email w)
     in (case r of
           Inr out \<Rightarrow> \<lparr>ar_id = ee_fresh ee, ar_tool = ''send_email'', ar_ok = True, ar_output = out, ar_error = None\<rparr>
         | Inl e \<Rightarrow> \<lparr>ar_id = ee_fresh ee, ar_tool = ''send_email'', ar_ok = False, ar_output = PNone,
             ar_error = Some (error_text e)\<rparr>, w\<lparr>ow_email := x\<rparr>))"
  by (simp add: execute_def offline_tools send_validate)
     (simp add: send_tool_def send_email_tool_def expect_class_def split: prod.splits sum.splits)

section \<open>Oracles of sending\<close>

lemma audit_types_trace: "audit_types lg = map (event_type_value \<circ> fst) (trace (events lg))"
  by (simp add: audit_types_def trace_def)


lemma events_Nil [simp]: "events [] = []"
  by (simp add: events_def)

lemma trace_Nil [simp]: "trace [] = []"
  by (simp add: trace_def)

lemma replay_result_facts [simp]:
  "ar_ok (replay_result a lg)"
  "case ar_output (replay_result a lg) of PDict d \<Rightarrow> dict_get d ''replay_skipped'' = Some (PBool True) | _ \<Rightarrow> False"
  by (auto simp: replay_result_def Let_def split: option.splits)

definition send_result :: "eval_env \<Rightarrow> offline_world \<Rightarrow> action_result" where
  "send_result ee w =
     (if fs_fail (ow_email w)
      then \<lparr>ar_id = ee_fresh ee, ar_tool = ''send_email'', ar_ok = False, ar_output = PNone,
             ar_error = Some (error_text (Exn ''RuntimeError'' ''simulated send failure''))\<rparr>
      else \<lparr>ar_id = ee_fresh ee, ar_tool = ''send_email'', ar_ok = True,
             ar_output = PDict [(''id'', PStr (''fake_'' @ nat_str (fs_count (ow_email w) + 1))),
               (''provider'', PStr ''fake''), (''to'', PStr (em_to (email_of_args send_margs)))],
             ar_error = None\<rparr>)"

lemma send_result_simps [simp]:
  "ar_ok (send_result ee w) = (\<not> fs_fail (ow_email w))" "ar_tool (send_result ee w) = ''send_email''"
  by (simp_all add: send_result_def)

lemma send_guarded:
  "\<not> has_executed lg (ee_fresh ee) \<Longrightarrow> execute_guarded env (offline_reg ee) (send_action ee) p extra lg w =
     (Inr (send_result ee w),
      record_event env lg (if fs_fail (ow_email w) then FAILED else EXECUTED) (ee_fresh ee) (Some ''send_email'') ''system''
        (exec_detail (send_result ee w) extra),
      w\<lparr>ow_email := snd (fake_email_send (email_of_args send_margs) (ow_email w))\<rparr>)"
  by (simp add: execute_guarded_run send_execute send_result_def fake_email_send_def Let_def)

lemma has_executed_record:
  "has_executed (record_event env lg ty a tool_name actor d) aid \<longleftrightarrow> has_executed lg aid \<or>
     ty = EXECUTED \<and> a = aid \<and> dict_get d ''ok'' \<in> {None, Some (PBool True)}"
  by (auto simp: has_executed_iff counts_as_executed_iff)

lemma trace_record [simp]:
  "trace (events (record_event env lg ty a tool_name actor d)) = trace (events lg) @ [(ty, a)]"
  by (simp add: trace_def)

lemmas eval_run_defs = eval_run_def invoke_graph_def run_planner_def run_approval_def run_executor_def run_responder_def
  then_run_def continue_run_def resume_graph_def on_thread_def eval_deps_def planner_node_def approval_node_def
  executor_node_def get_current_principal_def start_turn_def initial_state_def eval_system_def set_thread_def
  route_after_planner_def


lemmas eval_send = send_email_plan_def send_propose planner_loop_Cons send_authorized gated_actions_def needs_approval_def
  parse_decisions_def mk_decision_def send_required eval_grants make_context_def offline_tools Let_def audit_types_trace
  dict_keys_def executor_loop.simps(2)

lemma approval_reject_passes: "\<exists>r. approval_reject ee = Inr r \<and> or_passed r"
  by (simp add: approval_reject_def eval_run_defs eval_send responder_node_def)

lemma rbac_deny_before_approval_passes: "\<exists>r. rbac_deny_before_approval ee = Inr r \<and> or_passed r"
  by (simp add: rbac_deny_before_approval_def eval_run_defs eval_send responder_node_def)

lemma stale_decision:
  "fresh \<noteq> ''act_not_a_real_id'' \<Longrightarrow>
   parse_decisions (PList [PDict [(''action_id'', PStr ''act_not_a_real_id''), (''approved'', PBool True)]]) [fresh] = Inr []"
  by (simp add: parse_decisions_def in_ids_def get_default_def)

lemma send_gated: "filter needs_approval [send_action ee] = [send_action ee]"
  by (simp add: needs_approval_def)

lemma anti_replay_passes: "ee_fresh ee \<noteq> ''act_not_a_real_id'' \<Longrightarrow> \<exists>r. anti_replay ee = Inr r \<and> or_passed r"
  by (simp add: anti_replay_def eval_run_defs send_email_plan_def send_propose planner_loop_Cons send_authorized
      gated_actions_def send_gated stale_decision send_required eval_grants make_context_def offline_tools Let_def
      audit_types_trace dict_keys_def executor_loop.simps(2) needs_approval_def responder_node_def del: filter.simps)

lemma approval_approve_passes: "\<exists>r. approval_approve ee = Inr r \<and> or_passed r"
  by (simp add: approval_approve_def eval_run_defs eval_send responder_node_def has_executed_record
     decided_def proposed_def send_guarded offline_init_def fake_init_def trace_def)

lemma idempotency_replay_skip_passes: "\<exists>r. idempotency_replay_skip ee = Inr r \<and> or_passed r"
  by (simp add: idempotency_replay_skip_def execute_twice_def send_propose send_guarded execute_guarded_replay Let_def
     has_executed_record offline_init_def fake_init_def fake_email_send_def replay_skipped_def)

lemma idempotency_failed_retry_passes: "\<exists>r. idempotency_failed_retry ee = Inr r \<and> or_passed r"
  by (simp add: idempotency_failed_retry_def execute_twice_def send_propose send_guarded Let_def
     has_executed_record offline_init_def fake_init_def fake_email_send_def)

section \<open>Oracles of searching\<close>

definition search_args :: pydict where
  "search_args = [(''query'', PStr ''quarterly numbers'')]"

definition search_action :: "eval_env \<Rightarrow> proposed_action" where
  "search_action ee = \<lparr>pa_id = ee_fresh ee, pa_tool = ''search'', pa_args = search_args, pa_tier = READ,
     pa_rationale = [], pa_permission = None\<rparr>"

definition search_margs :: margs where
  "search_margs = \<lparr>m_class = ''_SearchArgs'', m_fields = search_args\<rparr>"

lemma search_margs_simps [simp]: "m_class search_margs = ''_SearchArgs''" "m_fields search_margs = search_args"
  by (simp_all add: search_margs_def)

lemma search_validate: "t_validate (search_tool verr) search_args = Inr search_margs"
  apply (simp add: search_tool_def search_args_def search_margs_def)
  apply code_simp
  done

lemma search_permission: "permission_for (search_tool verr) search_margs = Inr None"
  by (simp add: permission_for_def search_tool_def no_resource_def combine_permission_def)

lemma search_action_simps [simp]:
  "pa_id (search_action ee) = ee_fresh ee" "pa_tool (search_action ee) = ''search''"
  "pa_args (search_action ee) = search_args" "pa_tier (search_action ee) = READ"
  "pa_permission (search_action ee) = None"
  by (simp_all add: search_action_def)

lemma search_tool_simps [simp]:
  "t_name (search_tool verr) = ''search''" "t_tier (search_tool verr) = READ" "t_metadata (search_tool verr) = []"
  by (simp_all add: search_tool_def)

lemma search_propose:
  "propose (offline_reg ee) (ee_fresh ee) ''search'' [(''query'', PStr ''quarterly numbers'')] [] = Inr (search_action ee)"
  unfolding search_args_def [symmetric]
  by (simp add: propose_def offline_tools search_validate search_permission search_action_def model_dump_def)

lemma search_required: "required_permission_for (search_action ee) (search_tool verr) = Inr None"
  by (simp add: required_permission_for_def search_validate search_permission)

lemma search_authorized: "authorized_action (offline_reg ee) eval_policy p (search_action ee)"
  using offline_tools(2) [of ee]
  by (auto simp: authorized_action_def search_required eval_grants get_tool_def split: option.splits)

definition search_result :: "eval_env \<Rightarrow> action_result" where
  "search_result ee = \<lparr>ar_id = ee_fresh ee, ar_tool = ''search'', ar_ok = True,
     ar_output = PDict [(''query'', PStr (marg search_margs ''query'')),
       (''results'', PList [PStr (''(mock) top result for '' @ repr_str (marg search_margs ''query''))]),
       (''source'', PStr ''mock-knowledge-base'')], ar_error = None\<rparr>"

lemma search_guarded:
  "execute_guarded env (offline_reg ee) (search_action ee) p extra lg w =
     (Inr (search_result ee),
      record_event env lg EXECUTED (ee_fresh ee) (Some ''search'') ''system'' (exec_detail (search_result ee) extra), w)"
  apply (simp add: execute_guarded_run execute_def offline_tools search_validate)
  by (simp add: search_tool_def expect_class_def search_result_def)

lemma search_source: "result_source (search_result ee) =
    Some \<lparr>so_kind = TOOL, so_ref = ''search'', so_label = ''mock-knowledge-base''\<rparr>"
  by (simp add: result_source_def search_result_def truthy_def py_str_def)

lemmas eval_search = search_plan_def search_propose planner_loop_Cons search_authorized needs_approval_def search_guarded
  search_required eval_grants make_context_def offline_tools Let_def audit_types_trace dict_keys_def executor_loop.simps(2)

lemma search_result_ok [simp]: "ar_ok (search_result ee)"
  by (simp add: search_result_def)

lemma eval_sources:
  "source_key ` set (collect_sources [search_result ee] ctx) = insert (TOOL, ''search'') ((\<lambda>e. (KNOWLEDGE, en_id e)) ` set ctx)"
  "collect_sources [search_result ee] ctx \<noteq> []"
proof -
  show s: "source_key ` set (collect_sources [search_result ee] ctx) = insert (TOOL, ''search'') ((\<lambda>e. (KNOWLEDGE, en_id e)) ` set ctx)"
    unfolding collect_sources_facts(2)
    by (simp add: search_source map_filter_simps source_key_def entity_source_def image_image)
  then show "collect_sources [search_result ee] ctx \<noteq> []" by auto
qed

lemma read_only_auto_passes: "\<exists>r. read_only_auto ee = Inr r \<and> or_passed r"
  by (simp add: read_only_auto_def eval_run_defs eval_search responder_node_def eval_sources)

lemma seed_contexts:
  "let c = kg_query (bind_policy eval_policy seed_demo_graph) (Some MEMBER) ''find the revenue and onboarding'' 5
   in ''doc-1'' \<in> set (map en_id c)"
  "let c = kg_query (bind_policy eval_policy seed_demo_graph) (Some GUEST) ''find the revenue and onboarding'' 5
   in ''doc-1'' \<notin> set (map en_id c)"
  "kg_query (bind_policy eval_policy seed_demo_graph) (Some MEMBER) ''revenue'' 5 \<noteq> []"
  "kg_query (kg_init (Some eval_policy)) (Some MEMBER) ''something unrelated entirely'' 5 = []"
  by code_simp+

lemma eval_request: "last_user_text [Human t] = t"
  by (simp add: last_user_text_def)

lemma rbac_kg_idor_passes: "\<exists>r. rbac_kg_idor ee = Inr r \<and> or_passed r"
proof -
  have m: "x \<in> (\<lambda>s. (so_kind s, so_ref s)) ` A \<longleftrightarrow> x \<in> source_key ` A" for x A
    by (simp add: source_key_def)
  have k: "(KNOWLEDGE, x) \<in> (\<lambda>e. (KNOWLEDGE, en_id e)) ` A \<longleftrightarrow> x \<in> en_id ` A" for x A
    by auto
  show ?thesis using seed_contexts(1,2)
    by (simp add: rbac_kg_idor_def eval_run_defs eval_search responder_node_def m k eval_sources eval_request)
qed

lemma confidence_passes: "\<exists>r. confidence_grounded_vs_ungrounded ee = Inr r \<and> or_passed r"
  using seed_contexts(3,4)
  by (simp add: confidence_grounded_vs_ungrounded_def eval_run_defs empty_plan_def Let_def responder_node_def eval_request
      score_confidence_def GROUNDED_ANSWER_def UNGROUNDED_ANSWER_def)

section \<open>Oracles of the ingestion, evaluated\<close>

lemma eval_chunks:
  assumes "strip txt = txt" "txt \<noteq> []" "length txt \<le> 2000"
  shows "chunk_text DEFAULT_CHUNK_SIZE DEFAULT_CHUNK_OVERLAP txt = Inr [txt]"
  using assms by (simp add: chunk_text_def DEFAULT_CHUNK_SIZE_def DEFAULT_CHUNK_OVERLAP_def)

text \<open>A document of one chunk becomes one entity.\<close>

definition eval_entity :: "eval_env \<Rightarrow> ingest_document \<Rightarrow> scope \<times> string list \<times> string \<Rightarrow> entity" where
  "eval_entity ee d r = (case r of (sc, acl, seg) \<Rightarrow>
     chunk_entity d sc acl seg (source_id_for (sha256 (ee_audit ee)) d) 0 (doc_text d))"

lemma eval_ingest_written:
  assumes "resolve_scope_acl eval_policy p d = Inr r" "p \<noteq> anonymous"
    and "strip (doc_text d) = doc_text d" "doc_text d \<noteq> []" "length (doc_text d) \<le> 2000"
  shows "\<exists>x. eval_ingest ee p d k = (Inr x, upsert_entity (eval_entity ee d r) k) \<and>
    ir_entity_ids x = [en_id (eval_entity ee d r)]"
  using assms eval_chunks [OF assms(3-5)]
  by (cases r) (simp add: eval_ingest_def ingest_def eval_service_def mem_api_def enrich_with_extraction_def
      eval_entity_def chunk_entity_def Let_def)

lemma eval_ingest_refused:
  assumes "resolve_scope_acl eval_policy p d = Inl e" "p \<noteq> anonymous"
  shows "eval_ingest ee p d k = (Inl e, k)"
  using assms by (simp add: eval_ingest_def ingest_def eval_service_def)

definition query_terms :: "string \<Rightarrow> string list" where
  "query_terms txt = filter (\<lambda>w. w \<noteq> []) (split_ws (lower txt))"

lemma query_single:
  "kg_query (upsert_entity e (kg_init None)) p txt n =
     py_take n (if can_read None p e \<and> matches_terms (query_terms txt) e then [e] else [])"
  by (simp add: kg_query_def upsert_entity_def kg_init_def query_terms_def Let_def)

lemma upsert_twice: "upsert_entity e (upsert_entity e (kg_init None)) = upsert_entity e (kg_init None)"
  by (simp add: upsert_entity_def kg_init_def)

definition eval_doc :: "string \<Rightarrow> string \<Rightarrow> scope \<Rightarrow> ingest_document" where
  "eval_doc txt title sc = \<lparr>doc_text = txt, doc_title = title, doc_type = ''doc'', doc_scope = sc, doc_source_id = None,
     doc_org_acl = None\<rparr>"

lemma eval_documents:
  "eval_document ''alice onboarding plan'' ''plan'' PERSONAL = Inr (eval_doc ''alice onboarding plan'' ''plan'' PERSONAL)"
  "eval_document ''repeatable content'' ''dup'' PERSONAL = Inr (eval_doc ''repeatable content'' ''dup'' PERSONAL)"
  "eval_document ''org wide policy'' ''policy'' ORG = Inr (eval_doc ''org wide policy'' ''policy'' ORG)"
  by code_simp+

lemma eval_texts:
  "strip ''alice onboarding plan'' = ''alice onboarding plan''"
  "strip ''repeatable content'' = ''repeatable content''"
  "strip ''org wide policy'' = ''org wide policy''"
  by code_simp+

lemma eval_doc_simps [simp]: "doc_text (eval_doc txt title sc) = txt" "doc_title (eval_doc txt title sc) = title"
  "doc_scope (eval_doc txt title sc) = sc" "doc_org_acl (eval_doc txt title sc) = None"
  by (simp_all add: eval_doc_def)

lemma eval_scopes:
  "resolve_scope_acl eval_policy ALICE (eval_doc txt title PERSONAL) = Inr (PERSONAL, [identity_acl ''alice''], ''personal:alice'')"
  "resolve_scope_acl eval_policy ALICE (eval_doc txt title ORG) =
     Inl (ingestion_denied ''principal is not permitted to write organization knowledge'')"
  "resolve_scope_acl eval_policy ADMIN (eval_doc txt title ORG) = Inr (ORG, DEFAULT_ORG_ACL, ''org'')"
proof -
  have "policy_can eval_policy (Some ADMIN) (Some ORG_WRITE_PERMISSION)"
    "\<not> policy_can eval_policy (Some ALICE) (Some ORG_WRITE_PERMISSION)" by code_simp+
  then show
    "resolve_scope_acl eval_policy ALICE (eval_doc txt title PERSONAL) = Inr (PERSONAL, [identity_acl ''alice''], ''personal:alice'')"
    "resolve_scope_acl eval_policy ALICE (eval_doc txt title ORG) =
       Inl (ingestion_denied ''principal is not permitted to write organization knowledge'')"
    "resolve_scope_acl eval_policy ADMIN (eval_doc txt title ORG) = Inr (ORG, DEFAULT_ORG_ACL, ''org'')"
    by (simp_all add: resolve_scope_acl_def ALICE_def)
qed

lemma eval_entity_simps [simp]:
  "en_acl (eval_entity ee d (sc, acl, seg)) = acl" "en_content (eval_entity ee d (sc, acl, seg)) = doc_text d"
  "en_name (eval_entity ee d (sc, acl, seg)) = doc_title d @ '' [0]''"
  by (simp_all add: eval_entity_def chunk_entity_def) (code_simp)

lemma eval_matches:
  "matches_terms (query_terms ''onboarding'') (eval_entity ee (eval_doc ''alice onboarding plan'' ''plan'' sc) r)"
  "matches_terms (query_terms ''policy'') (eval_entity ee (eval_doc ''org wide policy'' ''policy'' sc) r)"
  "matches_terms (query_terms []) e"
proof -
  have t: "query_terms ''onboarding'' = [''onboarding'']"
    "query_terms ''policy'' = [''policy'']"
    "query_terms [] = []" by code_simp+
  have "str_in ''onboarding'' (lower (''plan [0]'' @ [CHR 0x0A] @ ''alice onboarding plan''))"
    "str_in ''policy'' (lower (''policy [0]'' @ [CHR 0x0A] @ ''org wide policy''))" by code_simp+
  then show
    "matches_terms (query_terms ''onboarding'') (eval_entity ee (eval_doc ''alice onboarding plan'' ''plan'' sc) r)"
    "matches_terms (query_terms ''policy'') (eval_entity ee (eval_doc ''org wide policy'' ''policy'' sc) r)"
    "matches_terms (query_terms []) e"
    by (cases r; simp add: t matches_terms_def Let_def)+
qed

lemma eval_reads:
  "can_read None (Some ALICE) (eval_entity ee d (sc, [identity_acl ''alice''], seg))"
  "\<not> can_read None (Some BOB) (eval_entity ee d (sc, [identity_acl ''alice''], seg))"
  "can_read None (Some ALICE) (eval_entity ee d (sc, DEFAULT_ORG_ACL, seg))"
proof -
  show "can_read None (Some ALICE) (eval_entity ee d (sc, [identity_acl ''alice''], seg))"
    "\<not> can_read None (Some BOB) (eval_entity ee d (sc, [identity_acl ''alice''], seg))"
    by (simp_all add: can_read_identity_only ALICE_def BOB_def)
  have "can_read_loop (mem_effective_permissions ROLE_PERMISSIONS) (Some ALICE) DEFAULT_ORG_ACL" by code_simp
  moreover have "DEFAULT_ORG_ACL \<noteq> []" by (simp add: DEFAULT_ORG_ACL_def)
  ultimately show "can_read None (Some ALICE) (eval_entity ee d (sc, DEFAULT_ORG_ACL, seg))"
    by (simp add: can_read_def)
qed

lemma eval_named: "ALICE \<noteq> anonymous" "ADMIN \<noteq> anonymous"
  by (simp_all add: ALICE_def ADMIN_def anonymous_def)

lemma ingest_pkg_isolation_passes: "\<exists>r. ingest_pkg_isolation ee = Inr r \<and> or_passed r"
  using eval_ingest_written [OF eval_scopes(1) eval_named(1), of "''alice onboarding plan''" "''plan''" ee "kg_init None"]
  by (auto simp: ingest_pkg_isolation_def eval_documents eval_texts query_single eval_reads eval_matches py_take_def Let_def)

lemma ingest_dedup_idempotent_passes: "\<exists>r. ingest_dedup_idempotent ee = Inr r \<and> or_passed r"
proof -
  let ?d = "eval_doc ''repeatable content'' ''dup'' PERSONAL"
  let ?e = "eval_entity ee ?d (PERSONAL, [identity_acl ''alice''], ''personal:alice'')"
  have w: "\<exists>x. eval_ingest ee ALICE ?d k = (Inr x, upsert_entity ?e k) \<and> ir_entity_ids x = [en_id ?e]" for k
    by (rule eval_ingest_written [OF eval_scopes(1) eval_named(1)]) (simp_all add: eval_texts)
  obtain x where x: "eval_ingest ee ALICE ?d (kg_init None) = (Inr x, upsert_entity ?e (kg_init None))" "ir_entity_ids x = [en_id ?e]"
    using w by blast
  obtain y where y: "eval_ingest ee ALICE ?d (upsert_entity ?e (kg_init None)) = (Inr y, upsert_entity ?e (kg_init None))"
      "ir_entity_ids y = [en_id ?e]"
    using w [of "upsert_entity ?e (kg_init None)"] unfolding upsert_twice by blast
  show ?thesis
    by (simp add: ingest_dedup_idempotent_def eval_documents x y query_single eval_reads eval_matches py_take_def)
qed

lemma ingest_okg_write_denied_passes: "\<exists>r. ingest_okg_write_denied ee = Inr r \<and> or_passed r"
proof -
  let ?d = "eval_doc ''org wide policy'' ''policy'' ORG"
  obtain x where x: "eval_ingest ee ADMIN ?d (kg_init None) =
      (Inr x, upsert_entity (eval_entity ee ?d (ORG, DEFAULT_ORG_ACL, ''org'')) (kg_init None))" "ir_entity_ids x \<noteq> []"
    using eval_ingest_written [OF eval_scopes(3) eval_named(2), of "''org wide policy''" "''policy''" ee "kg_init None"]
    by (auto simp: eval_texts)
  have "kg_query (kg_init None) (Some ADMIN) [] 1000 = []" by (simp add: kg_query_def kg_init_def py_take_def Let_def)
  then show ?thesis
    by (simp add: ingest_okg_write_denied_def eval_documents eval_ingest_refused [OF eval_scopes(2) eval_named(1)] x
        ingestion_denied_def query_single eval_reads eval_matches py_take_def)
qed

lemmas oracles_pass = approval_approve_passes approval_reject_passes anti_replay_passes idempotency_replay_skip_passes
  idempotency_failed_retry_passes rbac_deny_before_approval_passes rbac_kg_idor_passes read_only_auto_passes
  confidence_passes ingest_pkg_isolation_passes ingest_dedup_idempotent_passes ingest_okg_write_denied_passes

lemma run_oracle_passes: "\<exists>r. f ee = Inr r \<and> or_passed r \<Longrightarrow> or_passed (run_oracle ee (n, f))"
  by (auto simp: run_oracle_def)

lemma suite_score_12:
  assumes "length results = 12"
  shows "suite_score results < MIN_PASS_SCORE \<longleftrightarrow> 2 \<le> length (filter (Not \<circ> or_passed) results)"
proof -
  have "length (filter or_passed results) + length (filter (Not \<circ> or_passed) results) = 12"
    using sum_length_filter_compl [of or_passed results] assms by (simp add: comp_def)
  then have "real (length (filter or_passed results)) = 12 - real (length (filter (Not \<circ> or_passed) results))" by linarith
  then show ?thesis using assms by (simp add: suite_score_def MIN_PASS_SCORE_def field_simps) linarith
qed

text \<open>The scenarios plan through the registry, so the turns of the gate are runs of the transition system.\<close>

lemma eval_plans_via_registry: "plans_via_registry reg (send_email_plan fresh)" "plans_via_registry reg (search_plan fresh)"
  by (auto simp: plans_via_registry_def send_email_plan_def search_plan_def result_bind_Inr_iff intro: propose_from_registry)

lemma gate_blocks_iff:
  assumes "length results = 12"
  shows "gate_exit (suite_score results) = (if 2 \<le> length (filter (Not \<circ> or_passed) results) then 1 else 0)"
  by (simp add: gate_exit_def suite_score_12 [OF assms])

section \<open>Properties\<close>

text \<open>C12: the golden traces. Whatever digest, clock and ids the run gets, as long as the fresh action id is not the
  stale id that the anti-replay trace sends, every one of the twelve oracles returns and passes on the compiled graph,
  the guarded executor and the ingestion service: an approved send runs once, a rejected, stale or unauthorised one
  never does, a replay is skipped and a failed send may be retried, and neither personal nor organisation knowledge
  leaks. The score is 1 and the gate exits with 0. The threshold lets one failure pass: with as many results as there
  are oracles the gate blocks exactly when two or more failed or raised.\<close>

theorem golden_traces_pass:
  assumes "ee_fresh ee \<noteq> ''act_not_a_real_id''"
  shows "list_all or_passed (snd (run_suite ee)) \<and> length (snd (run_suite ee)) = 12 \<and>
    fst (run_suite ee) = 1 \<and> gate_main ee = 0 \<and>
    (\<forall>results. length results = length ORACLES \<longrightarrow>
       gate_exit (suite_score results) = (if 2 \<le> length (filter (Not \<circ> or_passed) results) then 1 else 0))"
proof -
  have "list_all (\<lambda>o'. or_passed (run_oracle ee o')) ORACLES"
    unfolding ORACLES_def list.pred_inject(2)
    by (intro conjI run_oracle_passes oracles_pass assms list.pred_inject(1))
  moreover have n: "length ORACLES = 12" by (simp add: ORACLES_def)
  ultimately have p: "list_all or_passed (snd (run_suite ee))" "length (snd (run_suite ee)) = 12"
    by (simp_all add: run_suite_def Let_def list_all_iff)
  have "filter or_passed (snd (run_suite ee)) = snd (run_suite ee)" using p(1) by (simp add: list_all_iff)
  moreover have "fst (run_suite ee) = suite_score (snd (run_suite ee))" by (simp add: run_suite_def Let_def)
  ultimately have "fst (run_suite ee) = 1" using p(2) by (simp add: suite_score_def)
  moreover from this have "gate_main ee = 0" by (simp add: gate_main_def gate_exit_def MIN_PASS_SCORE_def)
  ultimately show ?thesis using p gate_blocks_iff unfolding n by blast
qed

definition demo_eval :: eval_env where
  "demo_eval = \<lparr>ee_audit = demo_env, ee_verr = (\<lambda>_ _. []), ee_round2 = (\<lambda>x. x), ee_fresh = ''act_1''\<rparr>"

theorem golden_traces_pass_witness: "gate_main demo_eval = 0"
  using golden_traces_pass [of demo_eval] by (simp add: demo_eval_def)

end
