(* ===== verification/Judge.thy ===== *)
theory Judge
  imports Eval_Gate
begin

text \<open>
  The optional telemetry behind the evaluation gate, \<^verbatim>\<open>src/evals/llm_judge/datasets.py\<close> and \<^verbatim>\<open>judge.py\<close>, with the part
  of \<^verbatim>\<open>src/evals/run_gate.py\<close> that starts it. What matters of it is that it cannot change the verdict: every failure
  is swallowed, and datasets that exist are left alone.

  The LangSmith client is the record \<open>langsmith\<close> of its operations on a state \<open>'c\<close>, each of which may raise; the model
  and the parser of numbers are parameters. The graph under test is the modelled one.
\<close>

section \<open>Datasets\<close>

record example =
  ex_request :: string
  ex_decision :: "string option"
  ex_expect_source :: bool
  ex_min_confidence :: real
  ex_expect_executed :: "bool option"

definition DATASET_READONLY :: string where
  "DATASET_READONLY = ''atlas-readonly-search''"

definition DATASET_APPROVAL :: string where
  "DATASET_APPROVAL = ''atlas-approval-gate''"

definition READONLY_EXAMPLES :: "example list" where
  "READONLY_EXAMPLES =
     map (\<lambda>r. \<lparr>ex_request = r, ex_decision = None, ex_expect_source = True, ex_min_confidence = 1 / 2, ex_expect_executed = None\<rparr>)
       [''find the quarterly revenue numbers'', ''look up the onboarding checklist'',
        ''what do we know about revenue and onboarding'']"

text \<open>Outputs that an example does not carry have the defaults that the evaluator gives them.\<close>

definition APPROVAL_EXAMPLES :: "example list" where
  "APPROVAL_EXAMPLES =
     map (\<lambda>(d, x). \<lparr>ex_request = ''email a@b.com the status update'', ex_decision = Some d, ex_expect_source = False,
          ex_min_confidence = 0, ex_expect_executed = Some x\<rparr>)
       [(''approve'', True), (''reject'', False)]"

type_synonym ('c, 'a) api = "'c \<Rightarrow> 'a result \<times> 'c"

record judge_output =
  jo_answer :: string
  jo_sources :: "string list"
  jo_confidence :: "real option"

record score =
  sc_key :: string
  sc_score :: "real option"

record 'c langsmith =
  ls_connect :: "('c, unit) api"
  ls_has_dataset :: "string \<Rightarrow> ('c, bool) api"
  ls_create_dataset :: "string \<Rightarrow> string \<Rightarrow> ('c, string) api"
  ls_create_examples :: "example list \<Rightarrow> string \<Rightarrow> ('c, unit) api"
  ls_evaluate :: "(string \<Rightarrow> judge_output result) \<Rightarrow> string \<Rightarrow> (judge_output \<Rightarrow> example \<Rightarrow> score result) list \<Rightarrow> ('c, string option) api"

definition api_then :: "('c, 'a) api \<Rightarrow> ('a \<Rightarrow> ('c, 'b) api) \<Rightarrow> ('c, 'b) api" where
  "api_then m f c = (case m c of (Inl e, c') \<Rightarrow> (Inl e, c') | (Inr x, c') \<Rightarrow> f x c')"

definition ensure_dataset :: "'c langsmith \<Rightarrow> string \<Rightarrow> string \<Rightarrow> example list \<Rightarrow> ('c, unit) api" where
  "ensure_dataset ls name description examples =
     api_then (ls_has_dataset ls name) (\<lambda>there.
       if there then (\<lambda>c. (Inr (), c))
       else api_then (ls_create_dataset ls name description) (\<lambda>dataset. ls_create_examples ls examples dataset))"

definition ensure_datasets :: "'c langsmith \<Rightarrow> ('c, unit) api" where
  "ensure_datasets ls =
     api_then (ensure_dataset ls DATASET_READONLY
         ''atlas read-only search flow: well-sourced, appropriately-confident answers.'' READONLY_EXAMPLES) (\<lambda>_.
       ensure_dataset ls DATASET_APPROVAL
         ''atlas HITL approval flow (telemetry; blocking checks live in evals.deterministic).'' APPROVAL_EXAMPLES)"

section \<open>The judge\<close>

definition TARGET_PRINCIPAL :: principal where
  "TARGET_PRINCIPAL = \<lparr>user_id = ''eval-judge'', roles = [''member''], org_id = None\<rparr>"

definition JUDGE_SYSTEM :: string where
  "JUDGE_SYSTEM =
     ''You are grading whether an assistant'' @ [CHR 0x27] @ ''s answer is faithful to the sources it cites. '' @
     ''Respond with a single number between 0 and 1: 1.0 if every claim is supported by the listed '' @
     ''sources, 0.0 if the answer asserts facts with no supporting source. Output only the number.''"

definition kind_value :: "source_kind \<Rightarrow> string" where
  "kind_value k = (case k of TOOL \<Rightarrow> ''tool'' | KNOWLEDGE \<Rightarrow> ''knowledge'')"

definition judge_target :: "eval_env \<Rightarrow> (nat \<Rightarrow> string) \<Rightarrow> string \<Rightarrow> judge_output result" where
  "judge_target ee fresh request =
     result_bind (eval_run ee (heuristic_plan fresh) request (Some TARGET_PRINCIPAL) (Some seed_demo_graph) None) (\<lambda>t.
       let st = tr_final t
       in Inr \<lparr>jo_answer = (case last_ai_text (st_messages st) of None \<Rightarrow> [] | Some x \<Rightarrow> x),
               jo_sources = map (\<lambda>s. kind_value (so_kind s) @ '':'' @ so_ref s) (st_sources st),
               jo_confidence = st_confidence st\<rparr>)"

definition confidence_calibration :: "judge_output \<Rightarrow> example \<Rightarrow> score result" where
  "confidence_calibration run ex =
     (let has_source = (if ex_expect_source ex then jo_sources run \<noteq> [] else True);
          calibrated = (case jo_confidence run of None \<Rightarrow> False | Some c \<Rightarrow> ex_min_confidence ex \<le> c \<and> has_source)
      in Inr \<lparr>sc_key = ''confidence_calibration'', sc_score = Some (if calibrated then 1 else 0)\<rparr>)"

text \<open>\<open>float\<close> of the first word of the reply, clamped; a reply that has none or is no number scores 0.\<close>

definition reply_score :: "(string \<Rightarrow> real option) \<Rightarrow> string \<Rightarrow> real" where
  "reply_score parse_float reply =
     (case split_ws (strip reply) of
        [] \<Rightarrow> 0
      | w # _ \<Rightarrow> (case parse_float w of None \<Rightarrow> 0 | Some x \<Rightarrow> max 0 (min 1 x)))"

definition source_faithfulness :: "bool \<Rightarrow> (string \<Rightarrow> string \<Rightarrow> string result) \<Rightarrow> (string \<Rightarrow> real option)
    \<Rightarrow> judge_output \<Rightarrow> example \<Rightarrow> score result" where
  "source_faithfulness has_key ask_model parse_float run ex =
     (if \<not> has_key then Inr \<lparr>sc_key = ''source_faithfulness'', sc_score = None\<rparr>
      else let sources = (if jo_sources run = [] then ''(none)'' else join '', '' (jo_sources run))
           in result_bind (ask_model JUDGE_SYSTEM (''Sources: '' @ sources @ nl @ nl @ ''Answer: '' @ jo_answer run)) (\<lambda>reply.
                Inr \<lparr>sc_key = ''source_faithfulness'', sc_score = Some (reply_score parse_float reply)\<rparr>))"

definition run_llm_judge :: "'c langsmith \<Rightarrow> eval_env \<Rightarrow> (nat \<Rightarrow> string) \<Rightarrow> bool \<Rightarrow> (string \<Rightarrow> string \<Rightarrow> string result)
    \<Rightarrow> (string \<Rightarrow> real option) \<Rightarrow> 'c \<Rightarrow> string \<times> 'c" where
  "run_llm_judge ls ee fresh has_key ask_model parse_float c =
     (case api_then (ls_connect ls) (\<lambda>_. api_then (ensure_datasets ls) (\<lambda>_.
             ls_evaluate ls (judge_target ee fresh) DATASET_READONLY
               [confidence_calibration, source_faithfulness has_key ask_model parse_float])) c of
        (Inl e, c') \<Rightarrow> (''[llm-judge] skipped (non-blocking): '' @ exc_class e @ ''.'', c')
      | (Inr name, c') \<Rightarrow>
          (''[llm-judge] LangSmith experiment uploaded: '' @ (case name of None \<Rightarrow> DATASET_READONLY | Some n \<Rightarrow> n) @
           '' (non-blocking telemetry).'', c'))"

text \<open>\<open>main\<close> of the gate with its telemetry: the exit code and the state of the client.\<close>

definition gate_with_telemetry :: "'c langsmith \<Rightarrow> eval_env \<Rightarrow> (nat \<Rightarrow> string) \<Rightarrow> bool \<Rightarrow> (string \<Rightarrow> string \<Rightarrow> string result)
    \<Rightarrow> (string \<Rightarrow> real option) \<Rightarrow> bool \<Rightarrow> 'c \<Rightarrow> int \<times> 'c" where
  "gate_with_telemetry ls ee fresh has_key ask_model parse_float langsmith_key c =
     (let score = fst (run_suite ee)
      in if score < MIN_PASS_SCORE then (1, c)
         else if langsmith_key then (0, snd (run_llm_judge ls ee fresh has_key ask_model parse_float c))
         else (0, c))"

section \<open>What the telemetry can do\<close>

lemma telemetry_never_blocks:
  "fst (gate_with_telemetry ls ee fresh has_key ask_model parse_float langsmith_key c) = gate_main ee"
  by (simp add: gate_with_telemetry_def gate_main_def gate_exit_def Let_def)

lemma failed_gate_uploads_nothing:
  "gate_main ee \<noteq> 0 \<Longrightarrow> snd (gate_with_telemetry ls ee fresh has_key ask_model parse_float langsmith_key c) = c"
  by (simp add: gate_with_telemetry_def gate_main_def gate_exit_def Let_def split: if_splits)

lemma reply_score_bounded: "0 \<le> reply_score parse_float reply \<and> reply_score parse_float reply \<le> 1"
  by (simp add: reply_score_def split: list.split option.split)

lemma faithfulness_bounded:
  "source_faithfulness has_key ask_model parse_float run ex = Inr s \<Longrightarrow> sc_score s = Some x \<Longrightarrow> 0 \<le> x \<and> x \<le> 1"
  using reply_score_bounded [of parse_float]
  by (auto simp: source_faithfulness_def result_bind_Inr_iff Let_def simp del: append_Cons append.simps split: if_split_asm)

text \<open>Datasets that exist are reused as they are: ensuring them again changes nothing.\<close>

lemma ensure_dataset_there:
  "ls_has_dataset ls name c = (Inr True, c) \<Longrightarrow> ensure_dataset ls name d es c = (Inr (), c)"
  by (simp add: ensure_dataset_def api_then_def)

lemma ensure_datasets_idempotent:
  assumes "\<And>name. ls_has_dataset ls name c = (Inr True, c)"
  shows "ensure_datasets ls c = (Inr (), c)"
  using ensure_dataset_there [OF assms] by (simp add: ensure_datasets_def api_then_def)

end
