(* ===== verification/Streaming.thy ===== *)
theory Streaming
  imports Interface
begin

text \<open>
  \<open>run_graph_stream\<close> of \<^verbatim>\<open>src/src/atlas/interface/sse.py\<close> and the generator \<open>_stream_lifecycle\<close> of
  \<^verbatim>\<open>routes.py\<close> as two interleaving tasks: the producer drains the blocking graph iterator into a bounded memory
  stream, the consumer turns the chunks into events for the client. The step relation has every interleaving, also
  with a client that goes away.

  The run of the graph is given: the chunks its iterator yields and how it ends. The memory stream is the one of
  anyio: \<open>send\<close> waits while the buffer is full and raises \<open>BrokenResourceError\<close> when the receiving side is closed,
  \<open>receive\<close> ends when the buffer is empty and the sending side is closed. A cancellation that reaches the generator
  just while it awaits the producer task, which would cancel that task as well, is left out.
\<close>

section \<open>The two tasks\<close>

record graph_run =
  gr_thread :: string
  gr_chunks :: "chunk list"
  gr_start_error :: "exn option"
  gr_error :: "exn option"
  gr_final :: thread
  gr_lease :: bool

text \<open>The producer: where it is in \<open>run_graph_stream\<close>. \<open>PFinally\<close> is the \<open>finally\<close> block before the lease is released and
  the stream closed, \<open>PClosing\<close> the shielded \<open>iterator.close\<close>; both carry the exception that is propagating.\<close>

datatype producer = PStart | PNext | PSend chunk | PDrain | PFinally "exn option" | PClosing "exn option" | PDone "exn option"

text \<open>The consumer: \<open>Yield es k\<close> is about to yield the events \<open>es\<close> and goes on with \<open>k\<close>, \<open>Paused es k\<close> is suspended at a
  \<open>yield\<close>; \<open>Finally\<close> carries whether the generator goes on to \<open>done\<close>.\<close>

datatype consumer = Yield "sse list" consumer | Paused "sse list" consumer
  | Receive | Break | AwaitProducer | Snapshot | Finally bool | Ended

record stream_state =
  ss_producer :: producer
  ss_todo :: "chunk list"
  ss_buffer :: "chunk list"
  ss_send_open :: bool
  ss_recv_open :: bool
  ss_lease :: bool
  ss_consumer :: consumer
  ss_awaiting :: bool
  ss_out :: "sse list"
  ss_left :: bool

definition BUFFER_SIZE :: nat where
  "BUFFER_SIZE = 16"

definition stream_init :: "graph_run \<Rightarrow> stream_state" where
  "stream_init r = \<lparr>ss_producer = PStart, ss_todo = (if gr_start_error r = None then gr_chunks r else []),
     ss_buffer = [], ss_send_open = True, ss_recv_open = True, ss_lease = gr_lease r,
     ss_consumer = Yield [Sse_Open (gr_thread r)] Receive, ss_awaiting = False, ss_out = [], ss_left = False\<rparr>"

definition chunk_events :: "graph_run \<Rightarrow> chunk \<Rightarrow> sse list" where
  "chunk_events r c = (case c of
     Message content n \<Rightarrow>
       if n \<noteq> ''responder'' \<or> sse_chunk_text content = [] then [] else [Sse_Token (sse_chunk_text content)]
   | Updates ns \<Rightarrow> map Sse_Node (filter (\<lambda>n. \<not> startswith n ''__'') ns)
   | Interrupt \<Rightarrow> [Sse_Awaiting (awaiting_response (gr_thread r) (th_state (gr_final r)))])"

definition yielding :: "sse list \<Rightarrow> consumer \<Rightarrow> consumer" where
  "yielding es k = (if es = [] then k else Yield es k)"

inductive sstep :: "graph_run \<Rightarrow> stream_state \<Rightarrow> stream_state \<Rightarrow> bool" for r :: graph_run where
  start: "ss_producer s = PStart \<Longrightarrow> gr_start_error r = None \<Longrightarrow> sstep r s (s\<lparr>ss_producer := PNext\<rparr>)"
| start_raises: "ss_producer s = PStart \<Longrightarrow> gr_start_error r = Some e \<Longrightarrow>
    sstep r s (s\<lparr>ss_producer := PFinally (Some e), ss_lease := False\<rparr>)"
| next_chunk: "ss_producer s = PNext \<Longrightarrow> ss_todo s = c # cs \<Longrightarrow> sstep r s (s\<lparr>ss_producer := PSend c, ss_todo := cs\<rparr>)"
| stop: "ss_producer s = PNext \<Longrightarrow> ss_todo s = [] \<Longrightarrow> sstep r s (s\<lparr>ss_producer := PFinally (gr_error r)\<rparr>)"
| send: "ss_producer s = PSend c \<Longrightarrow> ss_recv_open s \<Longrightarrow> length (ss_buffer s) < BUFFER_SIZE \<Longrightarrow>
    sstep r s (s\<lparr>ss_producer := PNext, ss_buffer := ss_buffer s @ [c]\<rparr>)"
| broken: "ss_producer s = PSend c \<Longrightarrow> \<not> ss_recv_open s \<Longrightarrow> sstep r s (s\<lparr>ss_producer := PDrain\<rparr>)"
| drain: "ss_producer s = PDrain \<Longrightarrow> ss_todo s = c # cs \<Longrightarrow> sstep r s (s\<lparr>ss_todo := cs\<rparr>)"
| drained: "ss_producer s = PDrain \<Longrightarrow> ss_todo s = [] \<Longrightarrow> sstep r s (s\<lparr>ss_producer := PFinally (gr_error r)\<rparr>)"
| finish: "ss_producer s = PFinally x \<Longrightarrow>
    sstep r s (s\<lparr>ss_producer := PClosing x, ss_lease := False, ss_send_open := False\<rparr>)"
| close: "ss_producer s = PClosing x \<Longrightarrow> sstep r s (s\<lparr>ss_producer := PDone x\<rparr>)"
| hand: "ss_consumer s = Yield (e # es) k \<Longrightarrow>
    sstep r s (s\<lparr>ss_consumer := Paused es k, ss_out := ss_out s @ [e]\<rparr>)"
| wake: "ss_consumer s = Paused es k \<Longrightarrow> sstep r s (s\<lparr>ss_consumer := yielding es k\<rparr>)"
| receive: "ss_consumer s = Receive \<Longrightarrow> ss_buffer s = c # cs \<Longrightarrow>
    sstep r s (s\<lparr>ss_buffer := cs, ss_consumer := yielding (chunk_events r c) (if c = Interrupt then Break else Receive)\<rparr>)"
| break_loop: "ss_consumer s = Break \<Longrightarrow>
    sstep r s (s\<lparr>ss_consumer := AwaitProducer, ss_awaiting := True, ss_recv_open := False\<rparr>)"
| end_of_stream: "ss_consumer s = Receive \<Longrightarrow> ss_buffer s = [] \<Longrightarrow> \<not> ss_send_open s \<Longrightarrow>
    sstep r s (s\<lparr>ss_consumer := AwaitProducer, ss_recv_open := False\<rparr>)"
| await_ok: "ss_consumer s = AwaitProducer \<Longrightarrow> ss_producer s = PDone None \<Longrightarrow>
    sstep r s (s\<lparr>ss_consumer := (if ss_awaiting s then Finally True else Snapshot)\<rparr>)"
| await_raises: "ss_consumer s = AwaitProducer \<Longrightarrow> ss_producer s = PDone (Some e) \<Longrightarrow>
    sstep r s (s\<lparr>ss_consumer := Yield [Sse_Error] (Finally True)\<rparr>)"
| snapshot: "ss_consumer s = Snapshot \<Longrightarrow> sstep r s
    (s\<lparr>ss_consumer := Yield [Sse_Completed (response_from_snapshot (gr_thread r) (gr_final r))] (Finally True)\<rparr>)"
| snapshot_raises: "ss_consumer s = Snapshot \<Longrightarrow> sstep r s (s\<lparr>ss_consumer := Yield [Sse_Error] (Finally True)\<rparr>)"
| close_receiver: "ss_consumer s = Finally b \<Longrightarrow> ss_recv_open s \<Longrightarrow> sstep r s (s\<lparr>ss_recv_open := False\<rparr>)"
| leave: "ss_consumer s = Finally b \<Longrightarrow> \<not> ss_recv_open s \<Longrightarrow> ss_producer s = PDone x \<Longrightarrow>
    sstep r s (s\<lparr>ss_lease := False, ss_consumer := (if b then Yield [Sse_Done] Ended else Ended)\<rparr>)"
| disconnect: "ss_consumer s = Paused es k \<Longrightarrow>
    sstep r s (s\<lparr>ss_consumer := (if k = Ended then Ended else Finally False), ss_left := True\<rparr>)"
| cancel: "ss_consumer s \<in> {Receive, Snapshot} \<Longrightarrow>
    sstep r s (s\<lparr>ss_consumer := Ended, ss_recv_open := False, ss_left := True\<rparr>)"

inductive_cases sstep_elim: "sstep r s s'"

inductive stream_reachable :: "graph_run \<Rightarrow> stream_state \<Rightarrow> bool" for r :: graph_run where
  init: "stream_reachable r (stream_init r)"
| step: "stream_reachable r s \<Longrightarrow> sstep r s s' \<Longrightarrow> stream_reachable r s'"

section \<open>The chunks and their events\<close>

lemma stream_chunks_Cons:
  "stream_chunks (gr_thread r) (gr_final r) (c # cs) =
     (if c = Interrupt then (chunk_events r c, True)
      else (chunk_events r c @ fst (stream_chunks (gr_thread r) (gr_final r) cs),
            snd (stream_chunks (gr_thread r) (gr_final r) cs)))"
  by (cases c) (auto simp: chunk_events_def split: prod.splits)

definition in_flight :: "stream_state \<Rightarrow> chunk list" where
  "in_flight s = ss_buffer s @ (case ss_producer s of PSend c \<Rightarrow> [c] | _ \<Rightarrow> []) @ ss_todo s"

definition effective :: "graph_run \<Rightarrow> chunk list" where
  "effective r = (if gr_start_error r = None then gr_chunks r else [])"

definition run_error :: "graph_run \<Rightarrow> exn option" where
  "run_error r = (case gr_start_error r of Some e \<Rightarrow> Some e | None \<Rightarrow> gr_error r)"

definition events_of :: "graph_run \<Rightarrow> sse list" where
  "events_of r = fst (stream_chunks (gr_thread r) (gr_final r) (effective r))"

definition interrupted :: "graph_run \<Rightarrow> bool" where
  "interrupted r = snd (stream_chunks (gr_thread r) (gr_final r) (effective r))"

section \<open>Invariants\<close>

text \<open>The producer: it holds the lease as long as the graph runs, and it ends only when the iterator is exhausted.\<close>

definition producer_ok :: "graph_run \<Rightarrow> stream_state \<Rightarrow> bool" where
  "producer_ok r s \<longleftrightarrow> length (ss_buffer s) \<le> BUFFER_SIZE \<and>
     (case ss_producer s of
        PStart \<Rightarrow> ss_send_open s \<and> ss_lease s = gr_lease r \<and> (gr_start_error r \<noteq> None \<longrightarrow> ss_todo s = [])
      | PNext \<Rightarrow> ss_send_open s \<and> ss_lease s = gr_lease r \<and> gr_start_error r = None
      | PSend c \<Rightarrow> ss_send_open s \<and> ss_lease s = gr_lease r \<and> gr_start_error r = None
      | PDrain \<Rightarrow> ss_send_open s \<and> ss_lease s = gr_lease r \<and> gr_start_error r = None \<and> \<not> ss_recv_open s
      | PFinally x \<Rightarrow> ss_send_open s \<and> ss_todo s = [] \<and> x = run_error r
      | PClosing x \<Rightarrow> \<not> ss_send_open s \<and> \<not> ss_lease s \<and> ss_todo s = [] \<and> x = run_error r
      | PDone x \<Rightarrow> \<not> ss_send_open s \<and> \<not> ss_lease s \<and> ss_todo s = [] \<and> x = run_error r)"

definition tail_ok :: "graph_run \<Rightarrow> sse list \<Rightarrow> bool" where
  "tail_ok r t \<longleftrightarrow> (t = [Sse_Error] \<and> (run_error r \<noteq> None \<or> \<not> interrupted r)) \<or>
     (run_error r = None \<and> t = (if interrupted r then []
        else [Sse_Completed (response_from_snapshot (gr_thread r) (gr_final r))]))"

text \<open>The consumer, by the point it goes on with, given what it has yielded and is about to yield.\<close>

fun consumer_ok :: "graph_run \<Rightarrow> stream_state \<Rightarrow> sse list \<Rightarrow> consumer \<Rightarrow> bool" where
  "consumer_ok r s out (Yield es k) = (es \<noteq> [] \<and> k \<in> {Receive, Break, Finally True, Ended} \<and> consumer_ok r s (out @ es) k)"
| "consumer_ok r s out (Paused es k) = (k \<in> {Receive, Break, Finally True, Ended} \<and> consumer_ok r s (out @ es) k)"
| "consumer_ok r s out Receive = (ss_recv_open s \<and> \<not> ss_awaiting s \<and>
     (let (es, b) = stream_chunks (gr_thread r) (gr_final r) (in_flight s)
      in out @ es = Sse_Open (gr_thread r) # events_of r \<and> b = interrupted r))"
| "consumer_ok r s out Break = (ss_recv_open s \<and> \<not> ss_awaiting s \<and> out = Sse_Open (gr_thread r) # events_of r \<and> interrupted r)"
| "consumer_ok r s out AwaitProducer = (\<not> ss_recv_open s \<and> out = Sse_Open (gr_thread r) # events_of r \<and>
     ss_awaiting s = interrupted r)"
| "consumer_ok r s out Snapshot = (\<not> ss_recv_open s \<and> (\<exists>x. ss_producer s = PDone x) \<and> run_error r = None \<and>
     out = Sse_Open (gr_thread r) # events_of r \<and> \<not> interrupted r)"
| "consumer_ok r s out (Finally b) = ((if b then \<not> ss_recv_open s else ss_left s) \<and>
     (b \<longrightarrow> (\<exists>t. tail_ok r t \<and> out = Sse_Open (gr_thread r) # events_of r @ t)))"
| "consumer_ok r s out Ended = (\<not> ss_recv_open s \<and>
     (\<not> ss_left s \<longrightarrow> (\<exists>t. tail_ok r t \<and> out = Sse_Open (gr_thread r) # events_of r @ t @ [Sse_Done])))"

section \<open>Preservation\<close>

lemma producer_ok_init: "producer_ok r (stream_init r)"
  by (simp add: producer_ok_def stream_init_def)

lemma producer_ok_step: "sstep r s s' \<Longrightarrow> producer_ok r s \<Longrightarrow> producer_ok r s'"
  by (erule sstep_elim) (auto simp: producer_ok_def run_error_def split: producer.splits option.splits)

lemma consumer_ok_cong:
  assumes "ss_recv_open s \<longrightarrow> in_flight s' = in_flight s" "ss_recv_open s' = ss_recv_open s" "ss_awaiting s' = ss_awaiting s"
    "(\<exists>x. ss_producer s = PDone x) \<longrightarrow> (\<exists>x. ss_producer s' = PDone x)" "ss_left s' = ss_left s"
  shows "consumer_ok r s out c \<Longrightarrow> consumer_ok r s' out c"
  by (induction c arbitrary: out) (use assms in \<open>auto split: prod.splits\<close>)

lemma consumer_ok_yielding:
  "consumer_ok r s out (yielding es k) \<longleftrightarrow>
   (if es = [] then consumer_ok r s out k else k \<in> {Receive, Break, Finally True, Ended} \<and> consumer_ok r s (out @ es) k)"
  by (simp add: yielding_def)

definition stream_ok :: "graph_run \<Rightarrow> stream_state \<Rightarrow> bool" where
  "stream_ok r s \<longleftrightarrow> producer_ok r s \<and> consumer_ok r s (ss_out s) (ss_consumer s)"

lemma stream_ok_init: "stream_ok r (stream_init r)"
  by (simp add: stream_ok_def producer_ok_init)
    (auto simp: stream_init_def in_flight_def events_of_def interrupted_def effective_def split: prod.splits)

text \<open>The steps of the producer and those of the client leave the consumer's invariant alone.\<close>

lemma stream_ok_step:
  assumes "sstep r s s'" "stream_ok r s"
  shows "stream_ok r s'"
proof -
  have p: "producer_ok r s" "producer_ok r s'" and c: "consumer_ok r s (ss_out s) (ss_consumer s)"
    using assms producer_ok_step by (auto simp: stream_ok_def)
  have keep: "consumer_ok r s' (ss_out s) (ss_consumer s)"
    if "ss_recv_open s \<longrightarrow> in_flight s' = in_flight s" "ss_recv_open s' = ss_recv_open s" "ss_awaiting s' = ss_awaiting s"
      "(\<exists>x. ss_producer s = PDone x) \<longrightarrow> (\<exists>x. ss_producer s' = PDone x)" "ss_left s' = ss_left s"
    by (rule consumer_ok_cong [OF that c])
  from assms(1) have "consumer_ok r s' (ss_out s') (ss_consumer s')"
  proof cases
    case (hand e es k)
    with c keep show ?thesis by (auto simp: in_flight_def)
  next
    case (wake es k)
    then have "consumer_ok r s (ss_out s) (yielding es k)" using c by (cases es) (auto simp: consumer_ok_yielding)
    then have "consumer_ok r s' (ss_out s) (yielding es k)"
      by (rule consumer_ok_cong [rotated -1]) (simp_all add: wake in_flight_def)
    with wake show ?thesis by simp
  next
    case (receive ch cs)
    then have "in_flight s = ch # in_flight s'" by (simp add: in_flight_def)
    with receive c show ?thesis
      by (auto simp: consumer_ok_yielding stream_chunks_Cons Let_def split_beta split: if_splits)
  next
    case (drain ch cs)
    then have "\<not> ss_recv_open s" using p(1) by (simp add: producer_ok_def)
    with keep drain show ?thesis by (simp add: in_flight_def)
  next
    case break_loop
    with c show ?thesis by auto
  next
    case end_of_stream
    then have "in_flight s = []" using p(1) by (auto simp: producer_ok_def in_flight_def split: producer.splits)
    with c end_of_stream show ?thesis by simp
  next
    case await_ok
    with c p show ?thesis by (auto simp: tail_ok_def producer_ok_def)
  next
    case (await_raises e)
    with c p show ?thesis by (auto simp: tail_ok_def producer_ok_def)
  next
    case snapshot
    with c show ?thesis by (auto simp: tail_ok_def)
  next
    case snapshot_raises
    with c show ?thesis by (auto simp: tail_ok_def)
  next
    case (leave b x)
    with c show ?thesis by auto
  next
    case (disconnect es k)
    with c show ?thesis by auto
  qed (use c keep in \<open>auto simp: in_flight_def\<close>)
  with p(2) show ?thesis by (simp add: stream_ok_def)
qed

lemma stream_reachable_ok: "stream_reachable r s \<Longrightarrow> stream_ok r s"
  by (induction rule: stream_reachable.induct) (auto intro: stream_ok_init stream_ok_step)

section \<open>Progress\<close>

definition finished :: "stream_state \<Rightarrow> bool" where
  "finished s \<longleftrightarrow> ss_consumer s = Ended \<and> (\<exists>x. ss_producer s = PDone x)"

text \<open>No state is stuck: unless both tasks are finished one of them can go on.\<close>

lemmas sstep_quiet = sstep.start sstep.start_raises sstep.next_chunk sstep.stop sstep.drain sstep.drained sstep.finish
  sstep.close sstep.wake sstep.break_loop sstep.snapshot

lemma producer_can_move:
  assumes "producer_ok r s" "ss_send_open s \<or> (\<exists>x. ss_producer s = PClosing x)"
    "\<not> (\<exists>c. ss_producer s = PSend c) \<or> \<not> ss_recv_open s \<or> length (ss_buffer s) < BUFFER_SIZE"
  shows "\<exists>s'. sstep r s s' \<and> ss_left s' = ss_left s"
proof (cases "ss_producer s")
  case PStart
  then show ?thesis by (cases "gr_start_error r") (fastforce intro: sstep_quiet)+
next
  case PNext
  then show ?thesis by (cases "ss_todo s") (fastforce intro: sstep_quiet)+
next
  case (PSend c)
  show ?thesis
  proof (cases "ss_recv_open s")
    case True
    then have "length (ss_buffer s) < BUFFER_SIZE" using assms(3) PSend by auto
    from sstep.send [OF PSend True this] show ?thesis by fastforce
  next
    case False
    from sstep.broken [OF PSend False] show ?thesis by fastforce
  qed
next
  case PDrain
  then show ?thesis by (cases "ss_todo s") (fastforce intro: sstep_quiet)+
next
  case (PDone x)
  then show ?thesis using assms(1,2) by (auto simp: producer_ok_def)
qed (fastforce intro: sstep_quiet)+

lemma stream_not_stuck:
  assumes "stream_ok r s" "\<not> finished s"
  shows "\<exists>s'. sstep r s s' \<and> ss_left s' = ss_left s"
proof -
  have p: "producer_ok r s" and c: "consumer_ok r s (ss_out s) (ss_consumer s)" using assms(1) by (auto simp: stream_ok_def)
  have busy: "ss_send_open s \<or> (\<exists>x. ss_producer s = PClosing x) \<or> (\<exists>x. ss_producer s = PDone x)"
    using p by (auto simp: producer_ok_def split: producer.splits)
  show ?thesis
  proof (cases "ss_consumer s")
    case (Yield es k)
    then obtain e es' where "ss_consumer s = Yield (e # es') k" using c by (cases es) auto
    then show ?thesis by (fastforce intro: sstep.hand)
  next
    case Receive
    show ?thesis
    proof (cases "ss_buffer s")
      case Nil
      then show ?thesis using Receive busy producer_can_move [OF p] p
        by (cases "ss_send_open s") (fastforce simp: BUFFER_SIZE_def intro: sstep.end_of_stream)+
    qed (use Receive in \<open>fastforce intro: sstep.receive\<close>)
  next
    case AwaitProducer
    show ?thesis
    proof (cases "\<exists>x. ss_producer s = PDone x")
      case True
      then obtain x where "ss_producer s = PDone x" by blast
      with AwaitProducer show ?thesis by (cases x) (fastforce intro: sstep.await_ok sstep.await_raises)+
    qed (use AwaitProducer c busy producer_can_move [OF p] in auto)
  next
    case (Finally b)
    show ?thesis
    proof (cases "ss_recv_open s")
      case True
      with Finally show ?thesis by (fastforce intro: sstep.close_receiver)
    next
      case False
      show ?thesis
      proof (cases "\<exists>x. ss_producer s = PDone x")
        case True
        with Finally False show ?thesis by (fastforce intro: sstep.leave)
      qed (use False busy producer_can_move [OF p] in auto)
    qed
  next
    case Ended
    then have "\<not> ss_recv_open s" "\<not> (\<exists>x. ss_producer s = PDone x)" using c assms(2) by (auto simp: finished_def)
    then show ?thesis using busy producer_can_move [OF p] by auto
  qed (fastforce intro: sstep_quiet)+
qed

section \<open>Termination\<close>

definition producer_measure :: "stream_state \<Rightarrow> nat" where
  "producer_measure s = (case ss_producer s of
     PStart \<Rightarrow> 2 * length (ss_todo s) + 6 | PNext \<Rightarrow> 2 * length (ss_todo s) + 5 | PSend c \<Rightarrow> 2 * length (ss_todo s) + 6
   | PDrain \<Rightarrow> 2 * length (ss_todo s) + 4 | PFinally x \<Rightarrow> 3 | PClosing x \<Rightarrow> 2 | PDone x \<Rightarrow> 1)"

definition chunk_weight :: "graph_run \<Rightarrow> chunk list \<Rightarrow> nat" where
  "chunk_weight r cs = sum_list (map (\<lambda>c. 2 * length (chunk_events r c) + 1) cs)"

primrec consumer_measure :: "graph_run \<Rightarrow> stream_state \<Rightarrow> consumer \<Rightarrow> nat" where
  "consumer_measure r s (Yield es k) = 2 * length es + consumer_measure r s k"
| "consumer_measure r s (Paused es k) = 2 * length es + 1 + consumer_measure r s k"
| "consumer_measure r s Receive = 20 + chunk_weight r (in_flight s)"
| "consumer_measure r s Break = 19"
| "consumer_measure r s AwaitProducer = 18"
| "consumer_measure r s Snapshot = 16"
| "consumer_measure r s (Finally b) = (if ss_recv_open s then 11 else 10)"
| "consumer_measure r s Ended = 0"

definition stream_measure :: "graph_run \<Rightarrow> stream_state \<Rightarrow> nat" where
  "stream_measure r s = producer_measure s + consumer_measure r s (ss_consumer s)"

lemma consumer_measure_mono:
  assumes "chunk_weight r (in_flight s') \<le> chunk_weight r (in_flight s)" "ss_recv_open s' \<longrightarrow> ss_recv_open s"
  shows "consumer_measure r s' c \<le> consumer_measure r s c"
  by (induction c) (use assms in auto)

lemma producer_measure_cong:
  "ss_producer s' = ss_producer s \<Longrightarrow> ss_todo s' = ss_todo s \<Longrightarrow> producer_measure s' = producer_measure s"
  by (simp add: producer_measure_def split: producer.splits)

lemma consumer_measure_yielding:
  "consumer_measure r s (yielding es k) = 2 * length es + consumer_measure r s k"
  by (simp add: yielding_def)

lemma chunk_weight_simps [simp]:
  "chunk_weight r [] = 0" "chunk_weight r (c # cs) = 2 * length (chunk_events r c) + 1 + chunk_weight r cs"
  "chunk_weight r (cs @ ds) = chunk_weight r cs + chunk_weight r ds"
  by (simp_all add: chunk_weight_def)

lemma stream_measure_decreases:
  assumes "sstep r s s'" "stream_ok r s"
  shows "stream_measure r s' < stream_measure r s"
proof -
  have c: "consumer_ok r s (ss_out s) (ss_consumer s)" using assms(2) by (simp add: stream_ok_def)
  have m: "chunk_weight r (in_flight s') \<le> chunk_weight r (in_flight s) \<Longrightarrow> (ss_recv_open s' \<longrightarrow> ss_recv_open s) \<Longrightarrow>
      consumer_measure r s' k \<le> consumer_measure r s k" for k
    by (rule consumer_measure_mono)
  from assms(1) show ?thesis
  proof cases
    case (hand e es k)
    with m [of k] producer_measure_cong [of s' s] show ?thesis by (simp add: stream_measure_def in_flight_def)
  next
    case (wake es k)
    with m [of k] producer_measure_cong [of s' s] show ?thesis
      by (simp add: stream_measure_def in_flight_def consumer_measure_yielding)
  next
    case (receive ch cs)
    then have "in_flight s = ch # in_flight s'" by (simp add: in_flight_def)
    moreover have "length (chunk_events r Interrupt) = 1" by (simp add: chunk_events_def)
    ultimately show ?thesis using receive producer_measure_cong [of s' s]
      by (cases "ch = Interrupt") (simp_all add: stream_measure_def consumer_measure_yielding)
  next
    case (disconnect es k)
    then have "k \<in> {Receive, Break, Finally True, Ended}" using c by auto
    with disconnect producer_measure_cong [of s' s] show ?thesis by (auto simp: stream_measure_def)
  qed (use m [of "ss_consumer s"] producer_measure_cong [of s' s] in
    \<open>auto simp: stream_measure_def producer_measure_def in_flight_def\<close>)
qed

lemma stream_runs_out:
  "stream_ok r s \<Longrightarrow> \<exists>s'. (sstep r)\<^sup>*\<^sup>* s s' \<and> stream_ok r s' \<and> finished s' \<and> ss_left s' = ss_left s"
proof (induction "stream_measure r s" arbitrary: s rule: less_induct)
  case less
  show ?case
  proof (cases "finished s")
    case False
    then obtain s1 where s1: "sstep r s s1" "ss_left s1 = ss_left s" using stream_not_stuck [OF less.prems] by blast
    then obtain s' where "(sstep r)\<^sup>*\<^sup>* s1 s'" "stream_ok r s'" "finished s'" "ss_left s' = ss_left s1"
      using less.hyps [OF stream_measure_decreases [OF s1(1) less.prems] stream_ok_step [OF s1(1) less.prems]] by blast
    with s1 show ?thesis by (metis converse_rtranclp_into_rtranclp)
  qed (use less.prems in blast)
qed

lemma finished_no_step: "finished s \<Longrightarrow> \<not> sstep r s s'"
  by (auto simp: finished_def elim!: sstep_elim)

lemma stream_no_infinite_run:
  assumes "stream_ok r (f 0)"
  shows "\<not> (\<forall>i. sstep r (f i) (f (Suc i)))"
proof
  assume a: "\<forall>i. sstep r (f i) (f (Suc i))"
  have ok: "stream_ok r (f i)" for i by (induction i) (use assms a stream_ok_step in blast)+
  then have "stream_measure r (f (Suc i)) < stream_measure r (f i)" for i using a stream_measure_decreases by blast
  then have "(f (Suc i), f i) \<in> measure (stream_measure r)" for i by simp
  with wf_measure [of "stream_measure r"] show False unfolding wf_iff_no_infinite_down_chain by blast
qed

lemma finished_state:
  assumes "stream_ok r s" "finished s"
  shows "ss_todo s = [] \<and> \<not> ss_lease s \<and> ss_producer s = PDone (run_error r)"
  using assms by (auto simp: stream_ok_def finished_def producer_ok_def)

lemma ended_output:
  assumes "stream_ok r s" "ss_consumer s = Ended" "\<not> ss_left s"
  shows "\<exists>raised. ss_out s = stream_lifecycle (gr_thread r) (effective r) raised (gr_final r) \<and>
    (run_error r \<noteq> None \<longrightarrow> raised) \<and> (interrupted r \<and> raised \<longrightarrow> run_error r \<noteq> None)"
proof -
  obtain t where t: "tail_ok r t" "ss_out s = Sse_Open (gr_thread r) # events_of r @ t @ [Sse_Done]"
    using assms by (auto simp: stream_ok_def)
  have "stream_lifecycle (gr_thread r) (effective r) raised (gr_final r) = Sse_Open (gr_thread r) # events_of r @
      (if raised then [Sse_Error] else if interrupted r then []
       else [Sse_Completed (response_from_snapshot (gr_thread r) (gr_final r))]) @ [Sse_Done]" for raised
    by (simp add: stream_lifecycle_def events_of_def interrupted_def split_beta Let_def)
  moreover from t(1) have "t = [Sse_Error] \<and> (run_error r \<noteq> None \<or> \<not> interrupted r) \<or>
      run_error r = None \<and> t = (if interrupted r then [] else [Sse_Completed (response_from_snapshot (gr_thread r) (gr_final r))])"
    by (simp add: tail_ok_def)
  ultimately show ?thesis using t(2)
    by (elim disjE) (rule exI [of _ True], force, rule exI [of _ False], force)
qed

section \<open>Properties\<close>

definition demo_run :: graph_run where
  "demo_run = \<lparr>gr_thread = ''t'', gr_chunks = [Updates [''planner''], Interrupt, Updates [''__metadata__'']],
     gr_start_error = None, gr_error = None, gr_final = \<lparr>th_state = initial_state ''hi'' None, th_next = Approval\<rparr>,
     gr_lease = True\<rparr>"





end
