(* ===== verification/Service.thy ===== *)
theory Service
  imports Runner Interface Config
begin

text \<open>
  The HTTP service as a sequence of calls: \<^verbatim>\<open>/chat\<close>, \<^verbatim>\<open>/approve\<close>, \<^verbatim>\<open>/threads\<close> and \<^verbatim>\<open>/healthz\<close> of
  \<^verbatim>\<open>src/src/atlas/interface/routes.py\<close> with their dependencies (identity, then rate limit, then the validation
  of the body) over the turns of theory \<open>Runner\<close>, and the constructors \<open>build_authenticator\<close> (\<^verbatim>\<open>auth.py\<close>) and
  \<open>build_rate_limiter\<close> (\<^verbatim>\<open>rate_limit.py\<close>).

  A call runs to its end before the next one starts; between calls the policy, the knowledge graph and the
  outside world may change in any way. Interleavings of nodes are the subject of \<open>Graph\<close>, of resumes of
  \<open>Resume_Lock\<close>. A streaming route runs the same turn and answers with its events; the chunks that the graph yields are a
  parameter (theory \<open>Streaming\<close> has the two tasks of a stream). PyJWT and the Upstash SDK are parameters; fresh
  thread ids are a function of the number of chats.
\<close>

section \<open>Authenticator and rate limiter\<close>

record jwt_library =
  jl_signing_key :: "string \<Rightarrow> string \<Rightarrow> string result"
  jl_decode :: "string list \<Rightarrow> string list \<Rightarrow> string \<Rightarrow> string \<Rightarrow> int \<Rightarrow> string \<Rightarrow> string \<Rightarrow> pydict result"
  jl_is_jwk_error :: "exn \<Rightarrow> bool"
  jl_is_jwt_error :: "exn \<Rightarrow> bool"

definition ALGORITHMS :: "string list" where
  "ALGORITHMS = [''RS256'']"

definition REQUIRED_CLAIMS :: "string list" where
  "REQUIRED_CLAIMS = [''exp'', ''iss'', ''aud'']"

definition build_authenticator :: "jwt_library \<Rightarrow> settings \<Rightarrow> oidc option" where
  "build_authenticator jl s =
     (if \<not> (str_set (oidc_issuer s) \<and> str_set (oidc_audience s) \<and> str_set (oidc_jwks_uri s)) then None
      else Some \<lparr>oi_get_key = jl_signing_key jl (the (oidc_jwks_uri s)),
                 oi_decode = (\<lambda>token key. jl_decode jl ALGORITHMS REQUIRED_CLAIMS (the (oidc_audience s))
                   (the (oidc_issuer s)) (oidc_leeway s) token key),
                 oi_is_jwk_error = jl_is_jwk_error jl, oi_is_jwt_error = jl_is_jwt_error jl,
                 oi_user_claim = oidc_user_claim s, oi_roles_claim = oidc_roles_claim s,
                 oi_org_claim = oidc_org_claim s, oi_email_claim = oidc_email_claim s\<rparr>)"

record ratelimit =
  rl_url :: string
  rl_token :: string
  rl_max_requests :: int
  rl_window :: int
  rl_prefix :: string

text \<open>\<open>limit\<close> is the method of the SDK, \<open>clock\<close> reads the time from the world.\<close>

definition build_rate_limiter :: "(ratelimit \<Rightarrow> string \<Rightarrow> 'l \<Rightarrow> (bool \<times> real) result \<times> 'l) \<Rightarrow> ('l \<Rightarrow> real) \<Rightarrow> settings
    \<Rightarrow> (string \<Rightarrow> 'l \<Rightarrow> rate_decision \<times> 'l) option result" where
  "build_rate_limiter limit clock s =
     (if \<not> rate_limit_configured s then Inr None
      else case (upstash_redis_rest_url s, upstash_redis_rest_token s) of
             (Some url, Some token) \<Rightarrow>
               (let rl = \<lparr>rl_url = url, rl_token = token, rl_max_requests = rate_limit_requests s,
                          rl_window = rate_limit_window_seconds s, rl_prefix = ''atlas/ratelimit''\<rparr>
                in Inr (Some (\<lambda>key w. upstash_acquire (limit rl) (clock (snd (limit rl key w))) key w)))
           | _ \<Rightarrow> Inl (Exn ''RuntimeError'' ''Upstash creds missing despite rate_limit_configured being True.''))"

definition settings_headers :: "settings \<Rightarrow> header_names" where
  "settings_headers s = \<lparr>hn_user = api_user_header s, hn_roles = api_roles_header s, hn_org = api_org_header s\<rparr>"

section \<open>Calls\<close>

record ('w, 'l) web =
  wb_deps :: "'w deps"
  wb_auth :: "oidc option"
  wb_headers :: header_names
  wb_digest :: "string \<Rightarrow> string"
  wb_limiter :: "(string \<Rightarrow> 'l \<Rightarrow> rate_decision \<times> 'l) option"
  wb_fresh :: "nat \<Rightarrow> string"
  wb_chunks :: "string \<Rightarrow> 'w system \<Rightarrow> 'w system \<Rightarrow> chunk list"

record ('w, 'l) server =
  sr_system :: "'w system"
  sr_limiter :: 'l
  sr_chats :: nat

text \<open>The plain and the streaming variant of a route.\<close>

datatype delivery = Json | Stream

datatype call = Chat delivery string | Approve delivery approve_request | Read string | Health

datatype answer = Agent agent_response | Events "sse list" | Healthy

text \<open>An error with the \<open>Retry-After\<close> header of a 429.\<close>

type_synonym refusal = "http_exc \<times> int option"

text \<open>\<open>graph.invoke\<close> on a thread with its input or its resume value: the state it returns.\<close>

definition graph_result :: "string \<Rightarrow> thread \<Rightarrow> unit result \<times> 'w system \<Rightarrow> thread result \<times> 'w system" where
  "graph_result tid th r =
     (case r of (Inl e, s) \<Rightarrow> (Inl e, s)
      | (Inr _, s) \<Rightarrow> (Inr (case sys_threads s tid of None \<Rightarrow> th | Some th' \<Rightarrow> th'), s))"

definition web_invoke :: "'w deps \<Rightarrow> string \<Rightarrow> thread \<Rightarrow> 'w system \<Rightarrow> thread result \<times> 'w system" where
  "web_invoke d tid th s = graph_result tid th (then_run (run_planner d tid) (continue_run d tid) (set_thread tid th s))"

definition web_resume :: "'w deps \<Rightarrow> string \<Rightarrow> thread \<Rightarrow> pyval \<Rightarrow> 'w system \<Rightarrow> thread result \<times> 'w system" where
  "web_resume d tid th raw s = graph_result tid th (resume_graph d tid raw s)"

text \<open>The dependencies of a route.\<close>

definition admit :: "('w, 'l) web \<Rightarrow> request \<Rightarrow> bool \<Rightarrow> ('w, 'l) server \<Rightarrow> (refusal + principal) \<times> ('w, 'l) server" where
  "admit web rq throttled sr =
     (case get_request_principal (wb_auth web) (wb_headers web) rq of
        Inl e \<Rightarrow> (Inl (e, None), sr)
      | Inr p \<Rightarrow>
          if \<not> throttled then (Inr p, sr)
          else (case enforce_rate_limit (wb_digest web) (wb_limiter web) rq p (sr_limiter sr) of
                  (Inl (e, n), l) \<Rightarrow> (Inl (e, Some n), sr\<lparr>sr_limiter := l\<rparr>)
                | (Inr _, l) \<Rightarrow> (Inr p, sr\<lparr>sr_limiter := l\<rparr>)))"

definition agent_answer :: "agent_response reply \<Rightarrow> refusal + answer" where
  "agent_answer r = (case r of Inl e \<Rightarrow> Inl (e, None) | Inr a \<Rightarrow> Inr (Agent a))"

text \<open>The run behind a stream: the error of the graph becomes an event, not a status.\<close>

definition stream_answer :: "('w, 'l) web \<Rightarrow> string \<Rightarrow> thread \<Rightarrow> 'w system \<Rightarrow> thread result \<times> 'w system \<Rightarrow> answer" where
  "stream_answer web tid th s r =
     (case r of (q, s') \<Rightarrow>
        Events (stream_lifecycle tid (wb_chunks web tid s s') (case q of Inl _ \<Rightarrow> True | Inr _ \<Rightarrow> False)
          (case sys_threads s' tid of None \<Rightarrow> th | Some th' \<Rightarrow> th')))"

definition chat_stream :: "('w, 'l) web \<Rightarrow> string \<Rightarrow> string \<Rightarrow> principal \<Rightarrow> 'w system \<Rightarrow> (refusal + answer) \<times> 'w system" where
  "chat_stream web tid message p s =
     (if message = [] then (Inl (Invalid ''String should have at least 1 character'', None), s)
      else let th = start_turn None message (Some p);
               r = web_invoke (wb_deps web) tid th s
           in (Inr (stream_answer web tid th s r), snd r))"

definition approve_stream :: "('w, 'l) web \<Rightarrow> approve_request \<Rightarrow> principal \<Rightarrow> 'w system \<Rightarrow> (refusal + answer) \<times> 'w system" where
  "approve_stream web b p s =
     (case validate_decisions b of
        Inl e \<Rightarrow> (Inl (Invalid (if exc_class e = ''ValueError'' then ''Value error, '' @ exc_msg e else exc_msg e), None), s)
      | Inr b \<Rightarrow>
          (case gate_check (sys_threads s (aq_thread b)) p b of
             Inl e \<Rightarrow> (Inl (e, None), s)
           | Inr decisions \<Rightarrow>
               (case sys_threads s (aq_thread b) of
                  None \<Rightarrow> (Inl (Http 404 ''Thread not found.'', None), s)
                | Some th \<Rightarrow>
                    (let r = web_resume (wb_deps web) (aq_thread b) th (PList decisions) s
                     in (Inr (stream_answer web (aq_thread b) th s r), snd r)))))"

fun handle_call :: "('w, 'l) web \<Rightarrow> principal \<Rightarrow> call \<Rightarrow> ('w, 'l) server \<Rightarrow> (refusal + answer) \<times> ('w, 'l) server" where
  "handle_call web p (Chat Json msg) sr =
     (case chat (web_invoke (wb_deps web)) (wb_fresh web (sr_chats sr)) msg p (sr_system sr) of
        (r, s) \<Rightarrow> (agent_answer r, sr\<lparr>sr_system := s, sr_chats := Suc (sr_chats sr)\<rparr>))"
| "handle_call web p (Chat Stream msg) sr =
     (case chat_stream web (wb_fresh web (sr_chats sr)) msg p (sr_system sr) of
        (r, s) \<Rightarrow> (r, sr\<lparr>sr_system := s, sr_chats := Suc (sr_chats sr)\<rparr>))"
| "handle_call web p (Approve Json b) sr =
     (case approve (web_resume (wb_deps web)) sys_threads b p (sr_system sr) of
        (r, s) \<Rightarrow> (agent_answer r, sr\<lparr>sr_system := s\<rparr>))"
| "handle_call web p (Approve Stream b) sr =
     (case approve_stream web b p (sr_system sr) of (r, s) \<Rightarrow> (r, sr\<lparr>sr_system := s\<rparr>))"
| "handle_call web p (Read tid) sr = (agent_answer (get_thread (sys_threads (sr_system sr)) tid p), sr)"
| "handle_call web p Health sr = (Inr Healthy, sr)"

definition throttled :: "call \<Rightarrow> bool" where
  "throttled c = (case c of Chat _ _ \<Rightarrow> True | Approve _ _ \<Rightarrow> True | _ \<Rightarrow> False)"

definition serve :: "('w, 'l) web \<Rightarrow> request \<Rightarrow> call \<Rightarrow> ('w, 'l) server \<Rightarrow> (refusal + answer) \<times> ('w, 'l) server" where
  "serve web rq c sr =
     (if c = Health then (Inr Healthy, sr)
      else case admit web rq (throttled c) sr of
             (Inl e, sr') \<Rightarrow> (Inl e, sr')
           | (Inr p, sr') \<Rightarrow> handle_call web p c sr')"

section \<open>Runs of the service\<close>

datatype 'w happening = Request request call | Policy_Edit policy | Knowledge_Write kg | World_Change 'w

fun happen :: "('w, 'l) web \<Rightarrow> ('w, 'l) server \<Rightarrow> 'w happening \<Rightarrow> ('w, 'l) server" where
  "happen web sr (Request rq c) = snd (serve web rq c sr)"
| "happen web sr (Policy_Edit pol) = sr\<lparr>sr_system := (sr_system sr)\<lparr>sys_policy := pol\<rparr>\<rparr>"
| "happen web sr (Knowledge_Write k) = sr\<lparr>sr_system := (sr_system sr)\<lparr>sys_kg := k\<rparr>\<rparr>"
| "happen web sr (World_Change w) = sr\<lparr>sr_system := (sr_system sr)\<lparr>sys_world := w\<rparr>\<rparr>"

definition run_service :: "('w, 'l) web \<Rightarrow> ('w, 'l) server \<Rightarrow> 'w happening list \<Rightarrow> ('w, 'l) server" where
  "run_service web sr hs = foldl (happen web) sr hs"

lemma run_service_simps [simp]:
  "run_service web sr [] = sr"
  "run_service web sr (hs @ [h]) = happen web (run_service web sr hs) h"
  by (simp_all add: run_service_def)

section \<open>Approvals and owners along a turn\<close>

text \<open>Which actions the log says were approved, and by whom; and who started a thread.\<close>

definition approvals :: "audit_log \<Rightarrow> (string \<times> string) set" where
  "approvals lg = set (map (\<lambda>e. (ev_action e, ev_actor e)) (filter (\<lambda>e. ev_type e = APPROVED) (events lg)))"

definition owner :: "'w system \<Rightarrow> string \<Rightarrow> principal option option" where
  "owner s tid = map_option (\<lambda>th. st_principal (th_state th)) (sys_threads s tid)"

lemma approvals_append:
  "events lg' = events lg @ es \<Longrightarrow> \<forall>e \<in> set es. ev_type e \<noteq> APPROVED \<Longrightarrow> approvals lg' = approvals lg"
  by (auto simp: approvals_def image_def)

lemma approvals_decided:
  "approvals (foldl (decided env) lg ds) = approvals lg \<union> {(ad_id d, ad_by d) |d. d \<in> set ds \<and> ad_approved d}"
proof (induction ds arbitrary: lg)
  case (Cons d ds)
  have "approvals (decided env lg d) = approvals lg \<union> (if ad_approved d then {(ad_id d, ad_by d)} else {})"
    by (simp add: approvals_def decided_def)
  with Cons show ?case by auto
qed simp

lemma approvals_executor: "approvals (fst (snd (executor_node env reg pol st lg w))) = approvals lg"
proof -
  have "(\<lambda>l v. approvals l = approvals lg)
      (fst (snd (executor_loop env reg pol (get_current_principal st) (st_approved st) (st_proposed st) lg w)))
      (snd (snd (executor_loop env reg pol (get_current_principal st) (st_approved st) (st_proposed st) lg w)))"
  proof (rule executor_loop_invariant [where S = "set (st_proposed st)" and env = env])
    fix l l1 e
    assume "approvals l = approvals lg" "events l1 = events l @ [e]" "ev_type e \<in> {DENIED, SKIPPED}"
    then show "approvals l1 = approvals lg" using approvals_append [of l1 l "[e]"] by auto
  next
    fix a l v meta r l1 w1
    assume "approvals l = approvals lg" "execute_guarded env reg a (get_current_principal st) (Some meta) l v = (Inr r, l1, w1)"
    then show "approvals l1 = approvals lg"
      using execute_guarded_event [of env reg a "get_current_principal st" "Some meta" l v] approvals_append [of l1 l] by fastforce
  qed auto
  then show ?thesis by (auto simp: executor_node_def split: prod.splits sum.splits)
qed

lemma approvals_planner: "approvals (snd (planner_node env reg pol kq plan st lg)) = approvals lg"
proof -
  have pl: "approvals (snd (planner_loop env reg pol p acts lg)) = approvals lg" for p acts
  proof -
    obtain es where es: "events (snd (planner_loop env reg pol p acts lg)) = events lg @ es"
        "\<forall>e \<in> set es. ev_type e \<in> {PROPOSED, DENIED}" using planner_loop_events by blast
    from es(2) have "\<forall>e \<in> set es. ev_type e \<noteq> APPROVED" by auto
    with es(1) show ?thesis by (rule approvals_append)
  qed
  have "planner_loop env reg pol p acts lg = (xs, l) \<Longrightarrow> approvals l = approvals lg" for p acts xs l
    using pl [of p acts] by simp
  then show ?thesis by (simp add: planner_node_def Let_def split: prod.splits sum.splits)
qed

lemma node_principal:
  "planner_node env reg pol kq plan st lg = (Inr st', lg') \<Longrightarrow> st_principal st' = st_principal st"
  "approval_node env st raw lg = (Inr st', lg') \<Longrightarrow> st_principal st' = st_principal st"
  "executor_node env reg pol st lg w = (Inr st', lg', w') \<Longrightarrow> st_principal st' = st_principal st"
  "st_principal (responder_node round2 narrator st) = st_principal st"
  by (auto simp: planner_node_def approval_node_def executor_node_def responder_node_def Let_def
      split: prod.splits sum.splits)

text \<open>A piece of a turn that approves nothing and leaves the owners as they are.\<close>

definition quiet :: "'w system \<Rightarrow> 'w system \<Rightarrow> bool" where
  "quiet s s' \<longleftrightarrow> approvals (sys_log s') = approvals (sys_log s) \<and> owner s' = owner s"

lemma quiet_refl [simp]: "quiet s s" by (simp add: quiet_def)

lemma quiet_trans: "quiet s s1 \<Longrightarrow> quiet s1 s' \<Longrightarrow> quiet s s'" by (simp add: quiet_def)

lemma owner_set_thread:
  "sys_threads s tid = Some th \<Longrightarrow> st_principal (th_state th') = st_principal (th_state th) \<Longrightarrow>
   owner (set_thread tid th' s) = owner s"
  by (auto simp: owner_def set_thread_def)

lemma owner_upd [simp]: "owner (s\<lparr>sys_log := lg\<rparr>) = owner s" "owner (s\<lparr>sys_world := w\<rparr>) = owner s"
  by (simp_all add: owner_def fun_eq_iff)

lemma sys_upd [simp]: "sys_log (set_thread tid th s) = sys_log s"
  by (simp add: set_thread_def)

lemma run_planner_quiet: "quiet s (snd (run_planner d tid s))"
proof (cases "sys_threads s tid")
  case (Some th)
  let ?n = "planner_node (dp_env d) (dp_registry d) (sys_policy s) (kg_query (sys_kg s)) (dp_plan d) (th_state th) (sys_log s)"
  obtain r lg where n: "?n = (r, lg)" by (cases ?n)
  have lg: "approvals lg = approvals (sys_log s)"
    using approvals_planner [of "dp_env d" "dp_registry d" "sys_policy s" "kg_query (sys_kg s)" "dp_plan d" "th_state th" "sys_log s"] n by simp
  show ?thesis
  proof (cases r)
    case (Inr st)
    have "st_principal st = st_principal (th_state th)" by (rule node_principal(1) [OF n [unfolded Inr]])
    with Some n lg Inr show ?thesis by (simp add: run_planner_def on_thread_def quiet_def owner_set_thread)
  qed (use Some n lg in \<open>simp add: run_planner_def on_thread_def quiet_def\<close>)
qed (simp add: run_planner_def on_thread_def)

lemma run_executor_quiet: "quiet s (snd (run_executor d tid s))"
proof (cases "sys_threads s tid")
  case (Some th)
  let ?n = "executor_node (dp_env d) (dp_registry d) (sys_policy s) (th_state th) (sys_log s) (sys_world s)"
  obtain r lg w where n: "?n = (r, lg, w)" by (cases ?n)
  have lg: "approvals lg = approvals (sys_log s)"
    using approvals_executor [of "dp_env d" "dp_registry d" "sys_policy s" "th_state th" "sys_log s" "sys_world s"] n by simp
  show ?thesis
  proof (cases r)
    case (Inr st)
    have "st_principal st = st_principal (th_state th)" by (rule node_principal(3) [OF n [unfolded Inr]])
    with Some n lg Inr show ?thesis by (simp add: run_executor_def on_thread_def quiet_def owner_set_thread)
  qed (use Some n lg in \<open>simp add: run_executor_def on_thread_def quiet_def\<close>)
qed (simp add: run_executor_def on_thread_def)

lemma run_responder_quiet: "quiet s (snd (run_responder d tid s))"
  by (auto simp: run_responder_def on_thread_def quiet_def node_principal(4) split: option.splits intro!: owner_set_thread)

lemma then_run_quiet:
  assumes "quiet s (snd (f s))" "\<And>s1. quiet s1 (snd (g s1))"
  shows "quiet s (snd (then_run f g s))"
  using assms(1) assms(2) [of "snd (f s)"] by (auto simp: then_run_def intro: quiet_trans split: prod.splits sum.splits)

lemma continue_run_quiet: "quiet s (snd (continue_run d tid s))"
  by (auto simp: continue_run_def on_thread_def split: option.splits node.splits
      intro: then_run_quiet run_executor_quiet run_responder_quiet)


text \<open>What a request approves in a waiting thread.\<close>

definition approved_ids_of :: "approve_request \<Rightarrow> thread \<Rightarrow> string set" where
  "approved_ids_of b th =
     (let gated = pa_id ` set (gated_actions (th_state th))
      in case aq_approve b of Some ok \<Rightarrow> if ok then gated else {} | None \<Rightarrow> gated \<inter> set (aq_approved b))"

lemma run_approval_effect:
  assumes "sys_threads s tid = Some th" "run_approval d tid (PList (decision_payload b th p)) s = (r, s')"
  shows "owner s' = owner s \<and>
    approvals (sys_log s') = approvals (sys_log s) \<union> {(aid, user_id p) |aid. aid \<in> approved_ids_of b th}"
proof -
  let ?prs = "filter (\<lambda>(aid, ok). aid \<in> pa_id ` set (gated_actions (th_state th))) (decided_pairs b th)"
  let ?ds = "map (\<lambda>(aid, ok). mk_decision aid ok (user_id p)) ?prs"
  obtain st where st: "approval_node (dp_env d) (th_state th) (PList (decision_payload b th p)) (sys_log s) =
      (Inr st, foldl (decided (dp_env d)) (sys_log s) ?ds)"
    using parse_decision_payload [of b th p] by (simp add: approval_node_def Let_def)
  then have s': "s' = set_thread tid \<lparr>th_state = st, th_next = Executor\<rparr> s\<lparr>sys_log := foldl (decided (dp_env d)) (sys_log s) ?ds\<rparr>"
    using assms by (simp add: run_approval_def on_thread_def)
  have "{(ad_id x, ad_by x) |x. x \<in> set ?ds \<and> ad_approved x} = {(aid, user_id p) |aid. aid \<in> approved_ids_of b th}"
    by (force simp: mk_decision_def decided_pairs_def approved_ids_of_def Let_def split: option.splits)
  with node_principal(2) [OF st] assms(1) show ?thesis
    unfolding s' by (simp add: approvals_decided owner_set_thread)
qed

lemma resume_effect:
  assumes "sys_threads s tid = Some th" "th_next th = Approval"
    and "resume_graph d tid (PList (decision_payload b th p)) s = (r, s')"
  shows "owner s' = owner s \<and>
    approvals (sys_log s') = approvals (sys_log s) \<union> {(aid, user_id p) |aid. aid \<in> approved_ids_of b th}"
proof -
  have "then_run (run_approval d tid (PList (decision_payload b th p))) (continue_run d tid) s = (r, s')"
    using assms by (simp add: resume_graph_def on_thread_def)
  then show ?thesis
  proof (cases rule: then_run_cases)
    case (fst e)
    from run_approval_effect [OF assms(1) fst(1)] show ?thesis .
  next
    case (snd s1)
    have "quiet s1 s'" using continue_run_quiet [of s1 d tid] snd(2) by simp
    with run_approval_effect [OF assms(1) snd(1)] show ?thesis by (simp add: quiet_def)
  qed
qed

lemma invoke_effect:
  assumes "invoke_graph d tid msg (Some p) s = (r, s')"
  shows "owner s' = (owner s)(tid \<mapsto> Some p) \<and> approvals (sys_log s') = approvals (sys_log s)"
proof -
  let ?s = "set_thread tid (start_turn (sys_threads s tid) msg (Some p)) s"
  have "quiet ?s s'"
    using then_run_quiet [where s = ?s and f = "run_planner d tid" and g = "continue_run d tid",
        OF run_planner_quiet continue_run_quiet] assms by (simp add: invoke_graph_def)
  moreover have "owner ?s = (owner s)(tid \<mapsto> Some p)"
    by (rule ext) (simp add: owner_def set_thread_def start_turn_def initial_state_def Let_def)
  ultimately show ?thesis by (simp add: quiet_def)
qed

section \<open>Calls and what they change\<close>

lemma snd_graph_result [simp]: "snd (graph_result tid th r) = snd r"
  by (simp add: graph_result_def split: prod.splits sum.splits)

lemma admit_spec:
  assumes "admit web rq t sr = (r, sr')"
  shows "sr_system sr' = sr_system sr \<and> sr_chats sr' = sr_chats sr \<and>
    (\<forall>p. r = Inr p \<longrightarrow> get_request_principal (wb_auth web) (wb_headers web) rq = Inr p)"
  using assms by (auto simp: admit_def split: sum.splits if_splits prod.splits)

lemma chat_effect:
  assumes "chat (web_invoke d) tid msg p s = (r, s')" "sys_threads s tid = None"
  obtains "s' = s" | q where "invoke_graph d tid msg (Some p) s = (q, s')"
proof (cases "msg = []")
  case False
  let ?x = "web_invoke d tid (start_turn None msg (Some p)) s"
  have "s' = snd ?x" using assms(1) False by (auto simp: chat_def split: prod.splits sum.splits)
  then have "s' = snd (invoke_graph d tid msg (Some p) s)"
    using assms(2) by (simp add: web_invoke_def invoke_graph_def)
  then show thesis using that(2) by (cases "invoke_graph d tid msg (Some p) s") simp
qed (use assms that(1) in \<open>simp add: chat_def\<close>)

lemma chat_stream_state: "snd (chat_stream web tid msg p s) = snd (chat (web_invoke (wb_deps web)) tid msg p s)"
  by (auto simp: chat_stream_def chat_def Let_def split: prod.splits sum.splits)

lemma approve_stream_state:
  "snd (approve_stream web b p s) = snd (approve (web_resume (wb_deps web)) sys_threads b p s)"
  by (auto simp: approve_stream_def approve_def Let_def split: prod.splits sum.splits option.splits)

text \<open>Both variants of a route do the same to the system.\<close>

lemma handle_chat:
  "snd (handle_call web p (Chat how msg) sr) =
     sr\<lparr>sr_system := snd (chat (web_invoke (wb_deps web)) (wb_fresh web (sr_chats sr)) msg p (sr_system sr)),
        sr_chats := Suc (sr_chats sr)\<rparr>"
  using chat_stream_state [of web "wb_fresh web (sr_chats sr)" msg p "sr_system sr"]
  by (cases how) (auto split: prod.splits)

lemma handle_approve:
  "snd (handle_call web p (Approve how b) sr) =
     sr\<lparr>sr_system := snd (approve (web_resume (wb_deps web)) sys_threads b p (sr_system sr))\<rparr>"
  using approve_stream_state [of web b p "sr_system sr"] by (cases how) (auto split: prod.splits)

lemma approve_effect:
  assumes "approve (web_resume d) sys_threads b p s = (r, s')"
  obtains (refused) e where "s' = s" "r = Inl e"
  | (resumed) th ow q where "sys_threads s (aq_thread b) = Some th" "th_next th = Approval"
      "st_principal (th_state th) = Some ow" "ow \<noteq> anonymous" "p \<noteq> anonymous"
      "user_id ow = user_id p" "org_id ow = org_id p"
      "resume_graph d (aq_thread b) (PList (decision_payload b th p)) s = (q, s')"
proof (cases "validate_decisions b")
  case (Inl e)
  with assms refused show thesis by (auto simp: approve_def)
next
  case (Inr b')
  then have b: "b' = b" by (auto simp: validate_decisions_def split: if_splits)
  show thesis
  proof (cases "gate_check (sys_threads s (aq_thread b)) p b")
    case (Inl e)
    with assms Inr b refused show thesis by (auto simp: approve_def)
  next
    case g: (Inr ds)
    then obtain th ow where th: "sys_threads s (aq_thread b) = Some th" "th_next th = Approval"
        "st_principal (th_state th) = Some ow" "ow \<noteq> anonymous" "p \<noteq> anonymous"
        "user_id ow = user_id p" "org_id ow = org_id p" "ds = decision_payload b th p"
      by (auto simp: gate_check_def reply_bind_Inr_iff verify_thread_owner_Inr is_awaiting_approval_def split: option.splits if_splits)
    have "s' = snd (web_resume d (aq_thread b) th (PList ds) s)"
      using assms Inr b g th(1) by (auto simp: approve_def split: prod.splits sum.splits)
    then have "s' = snd (resume_graph d (aq_thread b) (PList ds) s)" by (simp add: web_resume_def)
    then show thesis using resumed [OF th(1-7)] th(8) by (cases "resume_graph d (aq_thread b) (PList ds) s") simp
  qed
qed

section \<open>Where approvals come from\<close>

text \<open>\<open>asked\<close>: the principal of a chat of the run; \<open>owner_approved\<close>: a request of the run that approved the id.\<close>

definition asked :: "('w, 'l) web \<Rightarrow> 'w happening list \<Rightarrow> principal \<Rightarrow> bool" where
  "asked web hs p \<longleftrightarrow> (\<exists>rq how msg. Request rq (Chat how msg) \<in> set hs \<and>
     get_request_principal (wb_auth web) (wb_headers web) rq = Inr p)"

definition owner_approved :: "('w, 'l) web \<Rightarrow> ('w, 'l) server \<Rightarrow> 'w happening list \<Rightarrow> string \<Rightarrow> string \<Rightarrow> bool" where
  "owner_approved web sr hs aid actor \<longleftrightarrow>
     (\<exists>xs rq how b ys p th ow. hs = xs @ Request rq (Approve how b) # ys \<and>
        get_request_principal (wb_auth web) (wb_headers web) rq = Inr p \<and> user_id p = actor \<and> p \<noteq> anonymous \<and>
        sys_threads (sr_system (run_service web sr xs)) (aq_thread b) = Some th \<and> th_next th = Approval \<and>
        st_principal (th_state th) = Some ow \<and> user_id ow = user_id p \<and> org_id ow = org_id p \<and> asked web xs ow \<and>
        aid \<in> approved_ids_of b th)"

lemma asked_append: "asked web hs p \<Longrightarrow> asked web (hs @ hs') p"
  by (auto simp: asked_def)

lemma owner_approved_append: "owner_approved web sr hs aid actor \<Longrightarrow> owner_approved web sr (hs @ hs') aid actor"
  unfolding owner_approved_def by (metis append_Cons append_assoc)

definition service_ok :: "('w, 'l) web \<Rightarrow> ('w, 'l) server \<Rightarrow> 'w happening list \<Rightarrow> bool" where
  "service_ok web sr0 hs \<longleftrightarrow>
     (let sr = run_service web sr0 hs in
        reachable (dp_env (wb_deps web)) (dp_registry (wb_deps web)) (sr_system sr) \<and>
        (\<forall>tid p. owner (sr_system sr) tid = Some p \<longrightarrow>
           (\<exists>k < sr_chats sr. tid = wb_fresh web k) \<and> (\<exists>ow. p = Some ow \<and> asked web hs ow)) \<and>
        (\<forall>(aid, actor) \<in> approvals (sys_log (sr_system sr)). owner_approved web sr0 hs aid actor))"

definition web_ok :: "('w, 'l) web \<Rightarrow> bool" where
  "web_ok web \<longleftrightarrow> plans_via_registry (dp_registry (wb_deps web)) (dp_plan (wb_deps web)) \<and>
     (\<forall>j k. wb_fresh web j = wb_fresh web k \<longrightarrow> j = k)"

lemma service_ok_keep:
  assumes ok: "service_ok web sr0 hs" and run: "run_service web sr0 (hs @ [h]) = sr'"
    and reach: "reachable (dp_env (wb_deps web)) (dp_registry (wb_deps web)) (sr_system sr')"
    and chats: "sr_chats (run_service web sr0 hs) \<le> sr_chats sr'"
    and own: "owner (sr_system sr') = owner (sr_system (run_service web sr0 hs))"
    and ap: "\<And>aid actor. (aid, actor) \<in> approvals (sys_log (sr_system sr')) \<Longrightarrow>
      (aid, actor) \<in> approvals (sys_log (sr_system (run_service web sr0 hs))) \<or> owner_approved web sr0 (hs @ [h]) aid actor"
  shows "service_ok web sr0 (hs @ [h])"
proof -
  let ?sr = "run_service web sr0 hs"
  have old: "\<And>tid p. owner (sr_system ?sr) tid = Some p \<Longrightarrow>
      (\<exists>k < sr_chats ?sr. tid = wb_fresh web k) \<and> (\<exists>ow. p = Some ow \<and> asked web hs ow)"
    "\<And>aid actor. (aid, actor) \<in> approvals (sys_log (sr_system ?sr)) \<Longrightarrow> owner_approved web sr0 hs aid actor"
    using ok by (auto simp: service_ok_def Let_def)
  have "(\<exists>k < sr_chats sr'. tid = wb_fresh web k) \<and> (\<exists>ow. p = Some ow \<and> asked web (hs @ [h]) ow)"
    if "owner (sr_system sr') tid = Some p" for tid p
    using old(1) [of tid p] that own chats asked_append by (metis order_less_le_trans)
  moreover have "owner_approved web sr0 (hs @ [h]) aid actor" if "(aid, actor) \<in> approvals (sys_log (sr_system sr'))" for aid actor
    using ap [OF that] old(2) owner_approved_append by blast
  ultimately show ?thesis unfolding service_ok_def run Let_def using reach by blast
qed

lemma chat_ok:
  assumes ok: "service_ok web sr0 hs" and web: "web_ok web"
    and p: "get_request_principal (wb_auth web) (wb_headers web) rq = Inr p"
    and sys: "sr_system sr1 = sr_system (run_service web sr0 hs)" "sr_chats sr1 = sr_chats (run_service web sr0 hs)"
    and run: "run_service web sr0 (hs @ [Request rq (Chat how msg)]) = snd (handle_call web p (Chat how msg) sr1)"
  shows "service_ok web sr0 (hs @ [Request rq (Chat how msg)])"
proof -
  let ?sr = "run_service web sr0 hs" and ?tid = "wb_fresh web (sr_chats (run_service web sr0 hs))" and ?d = "wb_deps web"
  let ?hs = "hs @ [Request rq (Chat how msg)]"
  obtain r s' where c: "chat (web_invoke ?d) ?tid msg p (sr_system ?sr) = (r, s')"
    by (cases "chat (web_invoke ?d) ?tid msg p (sr_system ?sr)")
  have sr': "run_service web sr0 ?hs = sr1\<lparr>sr_system := s', sr_chats := Suc (sr_chats ?sr)\<rparr>"
    using run c sys handle_chat [of web p how msg sr1] by simp
  have reach: "reachable (dp_env ?d) (dp_registry ?d) (sr_system ?sr)" using ok by (simp add: service_ok_def Let_def)
  have ap: "\<And>aid actor. (aid, actor) \<in> approvals (sys_log (sr_system ?sr)) \<Longrightarrow> owner_approved web sr0 ?hs aid actor"
    using ok owner_approved_append by (fastforce simp: service_ok_def Let_def)
  have own: "(\<exists>k < sr_chats ?sr. tid = wb_fresh web k) \<and> (\<exists>ow. q = Some ow \<and> asked web ?hs ow)"
    if "owner (sr_system ?sr) tid = Some q" for tid q
    using ok that asked_append unfolding service_ok_def Let_def by blast
  have "owner (sr_system ?sr) ?tid = None"
  proof (rule ccontr)
    assume "owner (sr_system ?sr) ?tid \<noteq> None"
    then obtain k where "k < sr_chats ?sr" "?tid = wb_fresh web k" using own by blast
    with web show False by (auto simp: web_ok_def)
  qed
  then have fresh: "sys_threads (sr_system ?sr) ?tid = None" by (simp add: owner_def)
  from c fresh show ?thesis
  proof (cases rule: chat_effect)
    case 1
    then show ?thesis
      by (intro service_ok_keep [OF ok sr']) (use reach in simp_all)
  next
    case (2 q)
    have e: "owner s' = (owner (sr_system ?sr))(?tid \<mapsto> Some p)" "approvals (sys_log s') = approvals (sys_log (sr_system ?sr))"
      using invoke_effect [OF 2] by simp_all
    have "reachable (dp_env ?d) (dp_registry ?d) s'"
      using invoke_graph_spec [OF _ 2] web reachable_steps [OF _ reach] by (simp add: web_ok_def)
    moreover have "(\<exists>k < Suc (sr_chats ?sr). tid = wb_fresh web k) \<and> (\<exists>ow. q = Some ow \<and> asked web ?hs ow)"
      if "owner s' tid = Some q" for tid q
    proof (cases "tid = ?tid")
      case True
      have "asked web ?hs p" using p by (auto simp: asked_def)
      with True that e(1) show ?thesis by auto
    next
      case False
      with that e(1) own [of tid q] show ?thesis by (auto intro: less_SucI)
    qed
    ultimately show ?thesis using ap e(2) unfolding service_ok_def sr' Let_def by auto
  qed
qed

lemma approve_ok:
  assumes ok: "service_ok web sr0 hs"
    and p: "get_request_principal (wb_auth web) (wb_headers web) rq = Inr p"
    and sys: "sr_system sr1 = sr_system (run_service web sr0 hs)" "sr_chats sr1 = sr_chats (run_service web sr0 hs)"
    and run: "run_service web sr0 (hs @ [Request rq (Approve how b)]) = snd (handle_call web p (Approve how b) sr1)"
  shows "service_ok web sr0 (hs @ [Request rq (Approve how b)])"
proof -
  let ?sr = "run_service web sr0 hs" and ?d = "wb_deps web"
  obtain r s' where c: "approve (web_resume ?d) sys_threads b p (sr_system ?sr) = (r, s')"
    by (cases "approve (web_resume ?d) sys_threads b p (sr_system ?sr)")
  have sr': "run_service web sr0 (hs @ [Request rq (Approve how b)]) = sr1\<lparr>sr_system := s'\<rparr>"
    using run c sys handle_approve [of web p how b sr1] by simp
  have reach: "reachable (dp_env ?d) (dp_registry ?d) (sr_system ?sr)" using ok by (simp add: service_ok_def Let_def)
  from c show ?thesis
  proof (cases rule: approve_effect)
    case refused
    then show ?thesis by (intro service_ok_keep [OF ok sr']) (use reach sys in simp_all)
  next
    case (resumed th ow q)
    have e: "owner s' = owner (sr_system ?sr)"
      "approvals (sys_log s') = approvals (sys_log (sr_system ?sr)) \<union> {(aid, user_id p) |aid. aid \<in> approved_ids_of b th}"
      using resume_effect [OF resumed(1,2,8)] by simp_all
    have "owner (sr_system ?sr) (aq_thread b) = Some (Some ow)" using resumed(1,3) by (simp add: owner_def)
    then have "asked web hs ow" using ok by (auto simp: service_ok_def Let_def)
    with resumed p have "owner_approved web sr0 (hs @ [Request rq (Approve how b)]) aid (user_id p)"
      if "aid \<in> approved_ids_of b th" for aid
      unfolding owner_approved_def using that by blast
    moreover have "reachable (dp_env ?d) (dp_registry ?d) s'"
      using resume_graph_spec [OF resumed(8,1,2)] reachable_steps [OF _ reach] by blast
    ultimately show ?thesis by (intro service_ok_keep [OF ok sr']) (use e sys in auto)
  qed
qed

lemma edit_ok:
  assumes ok: "service_ok web sr0 hs"
    and h: "happen web (run_service web sr0 hs) h = (run_service web sr0 hs)\<lparr>sr_system := s'\<rparr>"
    and st: "step (dp_env (wb_deps web)) (dp_registry (wb_deps web)) (sr_system (run_service web sr0 hs)) s'"
    and same: "sys_threads s' = sys_threads (sr_system (run_service web sr0 hs))"
      "sys_log s' = sys_log (sr_system (run_service web sr0 hs))"
  shows "service_ok web sr0 (hs @ [h])"
proof (rule service_ok_keep [OF ok])
  show "run_service web sr0 (hs @ [h]) = (run_service web sr0 hs)\<lparr>sr_system := s'\<rparr>" using h by simp
  have "reachable (dp_env (wb_deps web)) (dp_registry (wb_deps web)) (sr_system (run_service web sr0 hs))"
    using ok by (simp add: service_ok_def Let_def)
  with reachable.step st show "reachable (dp_env (wb_deps web)) (dp_registry (wb_deps web))
      (sr_system ((run_service web sr0 hs)\<lparr>sr_system := s'\<rparr>))" by simp blast
qed (use same in \<open>simp_all add: owner_def fun_eq_iff\<close>)

lemma happen_ok:
  assumes "service_ok web sr0 hs" "web_ok web"
  shows "service_ok web sr0 (hs @ [h])"
proof (cases h)
  case (Request rq c)
  let ?sr = "run_service web sr0 hs"
  have reach: "reachable (dp_env (wb_deps web)) (dp_registry (wb_deps web)) (sr_system ?sr)"
    using assms(1) by (simp add: service_ok_def Let_def)
  have same: ?thesis if "sr_system (happen web ?sr h) = sr_system ?sr" "sr_chats (happen web ?sr h) = sr_chats ?sr"
    by (rule service_ok_keep [OF assms(1), where sr' = "happen web ?sr h"]) (use that reach in simp_all)
  obtain r sr1 where a: "admit web rq (throttled c) ?sr = (r, sr1)" by (cases "admit web rq (throttled c) ?sr")
  have sys: "sr_system sr1 = sr_system ?sr" "sr_chats sr1 = sr_chats ?sr" using admit_spec [OF a] by simp_all
  show ?thesis
  proof (cases r)
    case (Inl e)
    with a Request sys show ?thesis by (intro same) (simp_all add: serve_def)
  next
    case (Inr p)
    have p: "get_request_principal (wb_auth web) (wb_headers web) rq = Inr p" using admit_spec [OF a] Inr by simp
    have run: "run_service web sr0 (hs @ [Request rq c]) = snd (handle_call web p c sr1)" if "c \<noteq> Health"
      using a Inr that by (simp add: serve_def)
    show ?thesis
    proof (cases c)
      case (Chat how msg)
      with chat_ok [OF assms p sys] run Request show ?thesis by simp
    next
      case (Approve how b)
      with approve_ok [OF assms(1) p sys] run Request show ?thesis by simp
    next
      case (Read tid)
      with a Inr Request sys show ?thesis by (intro same) (simp_all add: serve_def)
    next
      case Health
      with Request show ?thesis by (intro same) (simp_all add: serve_def)
    qed
  qed
next
  case (Policy_Edit pol)
  with edit_ok [OF assms(1) _ step.edit_policy] show ?thesis by simp
next
  case (Knowledge_Write k)
  with edit_ok [OF assms(1) _ step.edit_knowledge] show ?thesis by simp
next
  case (World_Change w)
  with edit_ok [OF assms(1) _ step.outside_world] show ?thesis by simp
qed

lemma run_ok:
  assumes "initial_system (sr_system sr0)" "web_ok web"
  shows "service_ok web sr0 hs"
proof (induction hs rule: rev_induct)
  case Nil
  from assms(1) show ?case
    by (auto simp: service_ok_def initial_system_def owner_def approvals_def events_def intro: reachable.init)
next
  case (snoc h hs)
  with happen_ok assms(2) show ?case by blast
qed

lemma approved_ids_of_iff:
  "aid \<in> approved_ids_of b th \<longleftrightarrow> (\<exists>a \<in> set (gated_actions (th_state th)). pa_id a = aid) \<and>
     (case aq_approve b of Some ok \<Rightarrow> ok | None \<Rightarrow> aid \<in> set (aq_approved b))"
  by (auto simp: approved_ids_of_def Let_def split: option.splits)

lemma owner_approved_unfold:
  assumes "owner_approved web sr hs aid actor"
  shows "\<exists>xs rq how b ys p th ow us chat_rq chat_how msg vs.
         hs = xs @ Request rq (Approve how b) # ys \<and> xs = us @ Request chat_rq (Chat chat_how msg) # vs \<and>
         get_request_principal (wb_auth web) (wb_headers web) rq = Inr p \<and> p \<noteq> anonymous \<and>
         get_request_principal (wb_auth web) (wb_headers web) chat_rq = Inr ow \<and>
         user_id ow = user_id p \<and> org_id ow = org_id p \<and>
         sys_threads (sr_system (run_service web sr xs)) (aq_thread b) = Some th \<and>
         th_next th = Approval \<and> st_principal (th_state th) = Some ow \<and>
         (\<exists>a \<in> set (gated_actions (th_state th)). pa_id a = aid) \<and>
         (case aq_approve b of Some ok \<Rightarrow> ok | None \<Rightarrow> aid \<in> set (aq_approved b))"
proof -
  from assms obtain xs rq how b ys p th ow where o: "hs = xs @ Request rq (Approve how b) # ys"
      "get_request_principal (wb_auth web) (wb_headers web) rq = Inr p" "p \<noteq> anonymous"
      "sys_threads (sr_system (run_service web sr xs)) (aq_thread b) = Some th" "th_next th = Approval"
      "st_principal (th_state th) = Some ow" "user_id ow = user_id p" "org_id ow = org_id p" "asked web xs ow"
      "aid \<in> approved_ids_of b th"
    unfolding owner_approved_def by blast
  from o(9) obtain us chat_rq chat_how msg vs where "xs = us @ Request chat_rq (Chat chat_how msg) # vs"
      "get_request_principal (wb_auth web) (wb_headers web) chat_rq = Inr ow"
    unfolding asked_def by (meson split_list)
  with o show ?thesis unfolding approved_ids_of_iff by blast
qed

section \<open>Properties\<close>

text \<open>C3: what the service as a whole guarantees. Start it with no threads and an empty log, and let any sequence of
  calls arrive, with any identities, well-formed or not, while policy, knowledge and the world change in between. If the
  log says that an action on a tool of a gated tier ran, then an earlier call was an approval request of an identified
  caller, admitted by the identity check, for a thread that was waiting at the approval gate with that action pending;
  the caller is, by user and organisation, the principal who had started that thread with a chat; and the
  request approves that action, by the blanket form or by its id. No plan, model answer, foreign caller or edit
  in between makes a sensitive action run.\<close>

theorem sensitive_actions_need_their_owner:
  assumes "registry_ok (dp_registry (wb_deps web))" "web_ok web" "initial_system (sr_system sr0)"
    and "e \<in> set (events (sys_log (sr_system (run_service web sr0 hs))))"
    and "ev_type e \<in> {EXECUTED, FAILED, REPLAY_SKIPPED}"
  shows "\<exists>name t. ev_tool e = Some name \<and> dict_get (dp_registry (wb_deps web)) name = Some t \<and>
    (t_tier t \<noteq> READ \<longrightarrow>
      (\<exists>xs rq how b ys p th ow us chat_rq chat_how msg vs.
         hs = xs @ Request rq (Approve how b) # ys \<and> xs = us @ Request chat_rq (Chat chat_how msg) # vs \<and>
         get_request_principal (wb_auth web) (wb_headers web) rq = Inr p \<and> p \<noteq> anonymous \<and>
         get_request_principal (wb_auth web) (wb_headers web) chat_rq = Inr ow \<and>
         user_id ow = user_id p \<and> org_id ow = org_id p \<and>
         sys_threads (sr_system (run_service web sr0 xs)) (aq_thread b) = Some th \<and>
         th_next th = Approval \<and> st_principal (th_state th) = Some ow \<and>
         (\<exists>a \<in> set (gated_actions (th_state th)). pa_id a = ev_action e) \<and>
         (case aq_approve b of Some ok \<Rightarrow> ok | None \<Rightarrow> ev_action e \<in> set (aq_approved b))))"
proof -
  let ?reg = "dp_registry (wb_deps web)" and ?s = "sr_system (run_service web sr0 hs)"
  have ok: "reachable (dp_env (wb_deps web)) ?reg ?s"
    "\<forall>(aid, actor) \<in> approvals (sys_log ?s). owner_approved web sr0 hs aid actor"
    using run_ok [OF assms(3,2), of hs] by (simp_all add: service_ok_def Let_def)
  have "justified ?reg (events (sys_log ?s))" using reachable_ok [OF ok(1)] by (simp add: system_ok_def)
  moreover obtain xs ys where e: "events (sys_log ?s) = xs @ e # ys" using assms(4) by (meson split_list)
  ultimately obtain a where a: "cleared xs a" "from_registry ?reg a" "ev_action e = pa_id a" "ev_tool e = Some (pa_tool a)"
    using assms(5) unfolding justified_def ran_def by blast
  obtain t where t: "dict_get ?reg (pa_tool a) = Some t" "pa_tier a = t_tier t"
    using from_registry_tier [OF assms(1) a(2)] by blast
  have "\<exists>actor. owner_approved web sr0 hs (ev_action e) actor" if gated: "t_tier t \<noteq> READ"
  proof -
    from a(1) gated t(2) obtain y where "y \<in> set xs" "ev_type y = APPROVED" "ev_action y = pa_id a"
      unfolding cleared_def by force
    then have "(ev_action e, ev_actor y) \<in> approvals (sys_log ?s)" unfolding approvals_def e a(3) by force
    with ok(2) show ?thesis by blast
  qed
  then have "\<exists>xs rq how b ys p th ow us chat_rq chat_how msg vs.
         hs = xs @ Request rq (Approve how b) # ys \<and> xs = us @ Request chat_rq (Chat chat_how msg) # vs \<and>
         get_request_principal (wb_auth web) (wb_headers web) rq = Inr p \<and> p \<noteq> anonymous \<and>
         get_request_principal (wb_auth web) (wb_headers web) chat_rq = Inr ow \<and>
         user_id ow = user_id p \<and> org_id ow = org_id p \<and>
         sys_threads (sr_system (run_service web sr0 xs)) (aq_thread b) = Some th \<and>
         th_next th = Approval \<and> st_principal (th_state th) = Some ow \<and>
         (\<exists>a \<in> set (gated_actions (th_state th)). pa_id a = ev_action e) \<and>
         (case aq_approve b of Some ok \<Rightarrow> ok | None \<Rightarrow> ev_action e \<in> set (aq_approved b))" if "t_tier t \<noteq> READ"
    using that owner_approved_unfold by blast
  with a(4) t(1) show ?thesis by blast
qed


definition demo_web :: "(email_message fake_sender, unit) web" where
  "demo_web = \<lparr>wb_deps = demo_deps, wb_auth = None,
     wb_headers = \<lparr>hn_user = ''X-Atlas-User-Id'', hn_roles = ''X-Atlas-Roles'', hn_org = ''X-Atlas-Org''\<rparr>,
     wb_digest = (\<lambda>s. s), wb_limiter = None, wb_fresh = (\<lambda>n. replicate n CHR ''x''),
     wb_chunks = (\<lambda>_ _ _. [])\<rparr>"

definition demo_http :: request where
  "demo_http = \<lparr>hr_headers = [(''x-atlas-user-id'', ''alice''), (''x-atlas-roles'', ''member''), (''x-atlas-org'', ''acme'')],
     hr_client = None\<rparr>"

definition demo_server :: "(email_message fake_sender, unit) server" where
  "demo_server = \<lparr>sr_system = demo_system, sr_limiter = (), sr_chats = 1\<rparr>"

definition demo_approval :: approve_request where
  "demo_approval = \<lparr>aq_thread = ''x'', aq_approve = None, aq_approved = [''act_1''], aq_rejected = []\<rparr>"

definition demo_calls :: "email_message fake_sender happening list" where
  "demo_calls = [Request demo_http (Chat Stream ''email bob''), Request demo_http (Approve Json demo_approval)]"

lemma demo_identity: "get_request_principal (wb_auth demo_web) (wb_headers demo_web) demo_http = Inr demo_member"
  by code_simp

lemma demo_admit: "admit demo_web demo_http t sr = (Inr demo_member, sr)"
  unfolding admit_def demo_identity by (simp add: enforce_rate_limit_def demo_web_def)

lemma demo_run_eval:
  "case run_service demo_web demo_server demo_calls of sr \<Rightarrow> map ev_type (events (sys_log (sr_system sr))) = [PROPOSED, APPROVED, EXECUTED]"
  by code_simp

theorem sensitive_actions_need_their_owner_witness:
  "\<exists>e xs rq how b ys. e \<in> set (events (sys_log (sr_system (run_service demo_web demo_server demo_calls)))) \<and> ev_type e = EXECUTED \<and>
     demo_calls = xs @ Request rq (Approve how b) # ys \<and> ev_action e \<in> set (aq_approved b)"
proof -
  let ?log = "events (sys_log (sr_system (run_service demo_web demo_server demo_calls)))"
  have "map ev_type ?log = [PROPOSED, APPROVED, EXECUTED]" using demo_run_eval by simp
  then have "EXECUTED \<in> ev_type ` set ?log" by (metis list.set_intros list.set_map)
  then obtain e where e: "e \<in> set ?log" "ev_type e = EXECUTED" by auto
  have reg: "dp_registry (wb_deps demo_web) = demo_registry" by (simp add: demo_web_def demo_deps_def)
  have "web_ok demo_web"
    by (auto simp: web_ok_def demo_web_def demo_deps_def demo_plan_def plans_via_registry_def result_bind_Inr_iff
        intro: propose_from_registry dest: arg_cong [where f = length])
  moreover have "initial_system (sr_system demo_server)" by (simp add: demo_server_def demo_system_def initial_system_def)
  ultimately obtain name t where t: "dict_get demo_registry name = Some t"
    "t_tier t \<noteq> READ \<longrightarrow> (\<exists>xs rq how b ys. demo_calls = xs @ Request rq (Approve how b) # ys \<and>
       (case aq_approve b of Some ok \<Rightarrow> ok | None \<Rightarrow> ev_action e \<in> set (aq_approved b)))"
    using sensitive_actions_need_their_owner [of demo_web demo_server e demo_calls] registry_ok_demo e unfolding reg by blast
  have "t_tier t = SEND" using t(1) by (auto simp: demo_registry_def send_email_tool_def split: if_splits)
  with t(2) obtain xs rq how b ys where b: "demo_calls = xs @ Request rq (Approve how b) # ys"
      "case aq_approve b of Some ok \<Rightarrow> ok | None \<Rightarrow> ev_action e \<in> set (aq_approved b)" by auto
  then have "b = demo_approval" by (auto simp: demo_calls_def Cons_eq_append_conv)
  with b(2) have "ev_action e \<in> set (aq_approved b)" by (simp add: demo_approval_def)
  with e b(1) show ?thesis by blast
qed

text \<open>A refused chat or approval has not run the graph.\<close>

lemma chat_refused:
  "chat invoke tid msg p s = (r, s') \<Longrightarrow> agent_answer r = Inl (x, n) \<Longrightarrow> \<forall>y. x \<noteq> Unhandled y \<Longrightarrow> s' = s"
  by (auto simp: chat_def agent_answer_def split: if_splits prod.splits sum.splits)

lemma approve_refused:
  "approve resume threads b p s = (r, s') \<Longrightarrow> agent_answer r = Inl (x, n) \<Longrightarrow> \<forall>y. x \<noteq> Unhandled y \<Longrightarrow> s' = s"
  by (auto simp: approve_def agent_answer_def split: option.splits prod.splits sum.splits)

lemma chat_stream_refused: "chat_stream web tid msg p s = (Inl x, s') \<Longrightarrow> s' = s"
  by (auto simp: chat_stream_def Let_def split: if_splits)

lemma approve_stream_refused: "approve_stream web b p s = (Inl x, s') \<Longrightarrow> s' = s"
  by (auto simp: approve_stream_def Let_def split: option.splits prod.splits sum.splits)

text \<open>C28: how calls are refused. Identity comes first: a call whose identity check fails gets that answer and touches
  neither the rate limiter nor the system. A caller over the budget gets 429 with the time to wait before the body, the
  thread or its owner is looked at. Whatever else is refused (an invalid body, an unknown thread, a foreign caller, a
  thread that does not wait) leaves the system exactly as it was; only a run of the graph that raises may leave
  its traces, and that answer is the unhandled one. A read changes nothing.\<close>

theorem refusals_leave_no_trace:
  "(get_request_principal (wb_auth web) (wb_headers web) rq = Inl e \<and> c \<noteq> Health \<longrightarrow> serve web rq c sr = (Inl (e, None), sr)) \<and>
   (get_request_principal (wb_auth web) (wb_headers web) rq = Inr p \<and> throttled c \<and> wb_limiter web = Some acquire_fn \<and>
      acquire_fn (rate_limit_key (wb_digest web) p rq) (sr_limiter sr) = (d, l) \<and> \<not> rd_allowed d \<longrightarrow>
      serve web rq c sr = (Inl (Http 429 ''Rate limit exceeded.'', Some \<lceil>rd_retry_after d\<rceil>), sr\<lparr>sr_limiter := l\<rparr>)) \<and>
   (serve web rq c sr = (Inl (x, n), sr') \<and> (\<forall>y. x \<noteq> Unhandled y) \<longrightarrow> sr_system sr' = sr_system sr) \<and>
   (serve web rq (Read tid) sr = (r, sr') \<longrightarrow> sr' = sr)"
proof (intro conjI impI)
  assume "get_request_principal (wb_auth web) (wb_headers web) rq = Inl e \<and> c \<noteq> Health"
  then show "serve web rq c sr = (Inl (e, None), sr)" by (simp add: serve_def admit_def)
next
  assume "get_request_principal (wb_auth web) (wb_headers web) rq = Inr p \<and> throttled c \<and> wb_limiter web = Some acquire_fn \<and>
      acquire_fn (rate_limit_key (wb_digest web) p rq) (sr_limiter sr) = (d, l) \<and> \<not> rd_allowed d"
  then show "serve web rq c sr = (Inl (Http 429 ''Rate limit exceeded.'', Some \<lceil>rd_retry_after d\<rceil>), sr\<lparr>sr_limiter := l\<rparr>)"
    by (auto simp: serve_def admit_def enforce_rate_limit_def throttled_def)
next
  assume s: "serve web rq c sr = (Inl (x, n), sr') \<and> (\<forall>y. x \<noteq> Unhandled y)"
  obtain q sr1 where a: "admit web rq (throttled c) sr = (q, sr1)" by (cases "admit web rq (throttled c) sr")
  have same: "sr_system sr1 = sr_system sr" using admit_spec [OF a] by simp
  show "sr_system sr' = sr_system sr"
  proof (cases q)
    case (Inl e')
    with s a same show ?thesis by (auto simp: serve_def split: if_splits)
  next
    case (Inr p')
    with s a have h: "handle_call web p' c sr1 = (Inl (x, n), sr')" by (auto simp: serve_def split: if_splits)
    show ?thesis
    proof (cases c)
      case (Chat how msg)
      with h s have "snd (chat (web_invoke (wb_deps web)) (wb_fresh web (sr_chats sr1)) msg p' (sr_system sr1)) = sr_system sr1"
        using chat_stream_state [of web "wb_fresh web (sr_chats sr1)" msg p' "sr_system sr1"]
        by (cases how) (auto dest: chat_refused chat_stream_refused split: prod.splits)
      with h Chat handle_chat [of web p' how msg sr1] same show ?thesis by simp
    next
      case (Approve how b)
      with h s have "snd (approve (web_resume (wb_deps web)) sys_threads b p' (sr_system sr1)) = sr_system sr1"
        using approve_stream_state [of web b p' "sr_system sr1"]
        by (cases how) (auto dest: approve_refused approve_stream_refused split: prod.splits)
      with h Approve handle_approve [of web p' how b sr1] same show ?thesis by simp
    qed (use h same in auto)
  qed
next
  assume "serve web rq (Read tid) sr = (r, sr')"
  then show "sr' = sr" by (auto simp: serve_def admit_def throttled_def split: sum.splits)
qed

theorem refusals_leave_no_trace_witness:
  "\<exists>n sr'. serve demo_web demo_http (Approve Json demo_approval) demo_server = (Inl (Http 404 ''Thread not found.'', n), sr') \<and>
     sr_system sr' = sr_system demo_server"
proof -
  have a: "admit demo_web demo_http (throttled (Approve Json demo_approval)) demo_server = (Inr demo_member, demo_server)"
    by (rule demo_admit)
  have "serve demo_web demo_http (Approve Json demo_approval) demo_server =
      (Inl (Http 404 ''Thread not found.'', None), demo_server)"
    unfolding serve_def a by (simp add: approve_def validate_decisions_def gate_check_def demo_approval_def demo_server_def
        demo_system_def agent_answer_def)
  with refusals_leave_no_trace [of demo_web demo_http "Http 401 []" "Approve Json demo_approval" demo_server demo_member
      "\<lambda>_ l. (\<lparr>rd_allowed = True, rd_retry_after = 0\<rparr>, l)" "\<lparr>rd_allowed = True, rd_retry_after = 0\<rparr>" "()"
      "Http 404 ''Thread not found.''" None demo_server "[]" "Inr Healthy"]
  show ?thesis by blast
qed


end
