(* ===== verification/Adapter.thy ===== *)
theory Adapter
  imports Tools Egress
begin

text \<open>
  \<^verbatim>\<open>src/src/atlas/adapter_engine.py\<close> and \<open>_apply_adapter_engine\<close> of
  \<^verbatim>\<open>src/src/atlas/orchestration/graph.py\<close>: tools built from declarative schemas.

  A schema is a record with the fields of \<open>ToolSchema\<close>. Reading a file into such a record (JSON and the
  field types of pydantic) is the parameter \<open>decode\<close>; the validators that the source writes itself are
  definitions. The lax conversions of pydantic for \<open>int\<close> and \<open>bool\<close> arguments are the parameter \<open>lax\<close>,
  the text of a \<open>ValidationError\<close> is \<open>verr\<close>, and \<open>httpx.URL\<close> is \<open>parse_url\<close>.
\<close>

section \<open>Schemas\<close>

datatype arg_type = ArgStr | ArgInt | ArgBool

record arg_spec =
  as_name :: string
  as_type :: arg_type
  as_required :: bool
  as_min :: "int option"
  as_max :: "int option"
  as_description :: string

text \<open>A field that was not set is \<open>None\<close> (\<open>model_fields_set\<close>); a set \<open>arg\<close> may still be null.\<close>

record payload_field =
  pf_arg :: "string option option"
  pf_value :: "pyval option"

record response_field =
  rf_path :: "string option option"
  rf_value :: "pyval option"

record tool_schema =
  ts_name :: string
  ts_description :: string
  ts_version :: string
  ts_tier :: risk_tier
  ts_permission :: "string option"
  ts_resource_arg :: "string option"
  ts_provider :: oauth_provider
  ts_scopes :: "string list"
  ts_endpoint :: string
  ts_args :: "arg_spec list"
  ts_payload :: "payload_field dict"
  ts_response :: "response_field dict"
  ts_ok_field :: "string option"

definition schema_error :: "string \<Rightarrow> exn" where
  "schema_error msg = Exn ''ToolSchemaError'' msg"

definition quoted :: "string \<Rightarrow> string" where
  "quoted s = [CHR 0x27] @ s @ [CHR 0x27]"

text \<open>\<open>[a-z][a-z0-9_]*\<close>, matched in full.\<close>

definition safe_arg_name :: "string \<Rightarrow> bool" where
  "safe_arg_name s =
     (case s of
        [] \<Rightarrow> False
      | c # r \<Rightarrow> (97 \<le> cp c \<and> cp c \<le> 122) \<and>
          list_all (\<lambda>d. (97 \<le> cp d \<and> cp d \<le> 122) \<or> is_digit d \<or> d = CHR ''_'') r)"

definition safe_identifier :: "string \<Rightarrow> string result" where
  "safe_identifier v =
     (if \<not> safe_arg_name v then Inl (schema_error (''arg name must be a lowercase identifier: '' @ repr_str v))
      else if startswith v ''model_'' \<or> startswith v ''__''
      then Inl (schema_error (''arg name collides with a reserved namespace: '' @ repr_str v))
      else Inr v)"

definition payload_exactly_one :: "payload_field \<Rightarrow> payload_field result" where
  "payload_exactly_one f =
     (if (pf_arg f \<noteq> None) = (pf_value f \<noteq> None)
      then Inl (schema_error (''payload field must set exactly one of '' @ quoted ''arg'' @ '' or '' @ quoted ''value''))
      else if pf_arg f = Some None
      then Inl (schema_error (''payload field '' @ quoted ''arg'' @ '' must not be null''))
      else Inr f)"

definition response_exactly_one :: "response_field \<Rightarrow> response_field result" where
  "response_exactly_one f =
     (if (rf_path f \<noteq> None) = (rf_value f \<noteq> None)
      then Inl (schema_error (''response field must set exactly one of '' @ quoted ''path'' @ '' or '' @ quoted ''value''))
      else if rf_path f = Some None
      then Inl (schema_error (''response field '' @ quoted ''path'' @ '' must not be null''))
      else Inr f)"

definition field_arg :: "payload_field \<Rightarrow> string option" where
  "field_arg f = (case pf_arg f of None \<Rightarrow> None | Some a \<Rightarrow> a)"

definition undeclared_arg :: "tool_schema \<Rightarrow> (string \<times> payload_field) option" where
  "undeclared_arg s =
     find (\<lambda>(key, f). case field_arg f of None \<Rightarrow> False | Some a \<Rightarrow> a \<notin> set (map as_name (ts_args s))) (ts_payload s)"

definition payload_args_declared :: "tool_schema \<Rightarrow> tool_schema result" where
  "payload_args_declared s =
     (case undeclared_arg s of
        Some (key, f) \<Rightarrow>
          Inl (schema_error (''payload field '' @ quoted key @ '' references undeclared arg '' @ quoted (the (field_arg f))))
      | None \<Rightarrow>
          (case ts_resource_arg s of
             None \<Rightarrow> Inr s
           | Some a \<Rightarrow>
               (case find (\<lambda>spec. as_name spec = a) (ts_args s) of
                  None \<Rightarrow>
                    Inl (schema_error (''resource_permission_arg '' @ quoted a @ '' references undeclared arg''))
                | Some spec \<Rightarrow>
                    if as_type spec \<noteq> ArgStr \<or> \<not> as_required spec
                    then Inl (schema_error (''resource_permission_arg '' @ repr_str a
                           @ '' must name a declared required str arg''))
                    else Inr s)))"

definition errors_of :: "string \<Rightarrow> 'a result \<Rightarrow> (string \<times> string) list" where
  "errors_of loc r = (case r of Inl e \<Rightarrow> [(loc, exc_msg e)] | Inr _ \<Rightarrow> [])"

definition schema_field_errors :: "tool_schema \<Rightarrow> (string \<times> string) list" where
  "schema_field_errors s =
     (if ts_name s = [] then [(''name'', ''string_too_short'')] else []) @
     (if ts_endpoint s = [] then [(''endpoint'', ''string_too_short'')] else []) @
     concat (map (\<lambda>a. if as_name a = [] then [(''args'', ''string_too_short'')]
       else errors_of ''args'' (safe_identifier (as_name a))) (ts_args s)) @
     concat (map (\<lambda>(k, f). errors_of ''payload'' (payload_exactly_one f)) (ts_payload s)) @
     concat (map (\<lambda>(k, f). errors_of ''response'' (response_exactly_one f)) (ts_response s))"

definition validate_schema :: "verr \<Rightarrow> tool_schema \<Rightarrow> tool_schema result" where
  "validate_schema verr s =
     (if schema_field_errors s \<noteq> [] then Inl (Exn ''ValidationError'' (verr ''ToolSchema'' (schema_field_errors s)))
      else (case payload_args_declared s of
              Inl e \<Rightarrow> Inl (Exn ''ValidationError'' (verr ''ToolSchema'' [([], exc_msg e)]))
            | Inr s \<Rightarrow> Inr s))"

section \<open>Loading\<close>

text \<open>A directory is \<open>None\<close> when it is missing, otherwise the list of its JSON files, each with the parts
  of its path and its text.\<close>

type_synonym schema_dir = "(string list \<times> string) list option"

definition load_schema :: "verr \<Rightarrow> (string \<Rightarrow> tool_schema result) \<Rightarrow> string \<Rightarrow> tool_schema result" where
  "load_schema verr decode text = result_bind (decode text) (validate_schema verr)"

definition iter_schema_paths :: "schema_dir \<Rightarrow> (string list \<times> string) list" where
  "iter_schema_paths dir = (case dir of None \<Rightarrow> [] | Some fs \<Rightarrow> sort_key fst fs)"

fun map_result :: "('a \<Rightarrow> 'b result) \<Rightarrow> 'a list \<Rightarrow> 'b list result" where
  "map_result f [] = Inr []"
| "map_result f (x # xs) = result_bind (f x) (\<lambda>y. result_bind (map_result f xs) (\<lambda>ys. Inr (y # ys)))"

definition load_schema_dir :: "verr \<Rightarrow> (string \<Rightarrow> tool_schema result) \<Rightarrow> string \<Rightarrow> schema_dir
    \<Rightarrow> tool_schema list result" where
  "load_schema_dir verr decode dirname dir =
     (case dir of
        None \<Rightarrow> Inl (schema_error (''schema directory does not exist: '' @ dirname))
      | Some _ \<Rightarrow>
          (let paths = iter_schema_paths dir
           in if paths = [] then Inl (schema_error (''schema directory contains no *.json schemas: '' @ dirname))
              else map_result (\<lambda>(path, text). load_schema verr decode text) paths))"

definition schema_route :: "(string \<Rightarrow> url result) \<Rightarrow> tool_schema \<Rightarrow> egress_route result" where
  "schema_route parse_url s =
     result_bind (parse_url (ts_endpoint s)) (\<lambda>u.
       Inr \<lparr>er_method = ALLOWED_METHOD, er_host = lower (u_host u), er_port = port_or_default (u_port u),
            er_path = u_path u\<rparr>)"

definition build_egress_policy :: "(string \<Rightarrow> url result) \<Rightarrow> tool_schema list \<Rightarrow> string list \<Rightarrow> egress_policy result" where
  "build_egress_policy parse_url schemas allowed_hosts =
     result_bind (map_result (schema_route parse_url) schemas) (\<lambda>routes. Inr (mk_egress_policy allowed_hosts routes))"

section \<open>Arguments, payload and response\<close>

definition check_length :: "arg_spec \<Rightarrow> string \<Rightarrow> string + pyval" where
  "check_length spec s =
     (if (case as_min spec of None \<Rightarrow> False | Some n \<Rightarrow> int (length s) < n) then Inl ''string_too_short''
      else if (case as_max spec of None \<Rightarrow> False | Some n \<Rightarrow> n < int (length s)) then Inl ''string_too_long''
      else Inr (PStr s))"

definition validate_arg :: "(arg_type \<Rightarrow> pyval \<Rightarrow> string + pyval) \<Rightarrow> arg_spec \<Rightarrow> pydict \<Rightarrow> string + pyval" where
  "validate_arg lax spec args =
     (case dict_get args (as_name spec) of
        None \<Rightarrow> if as_required spec then Inl ''missing'' else Inr PNone
      | Some v \<Rightarrow>
          if v = PNone \<and> \<not> as_required spec then Inr PNone
          else (case as_type spec of
                  ArgStr \<Rightarrow> (case v of PStr s \<Rightarrow> check_length spec s | _ \<Rightarrow> Inl ''string_type'')
                | _ \<Rightarrow> lax (as_type spec) v))"

text \<open>The fields of the generated model: a repeated name keeps its place and takes the last definition.\<close>

definition args_fields :: "tool_schema \<Rightarrow> arg_spec dict" where
  "args_fields s = foldl (\<lambda>d spec. dict_set (as_name spec) spec d) [] (ts_args s)"

definition build_args_model :: "verr \<Rightarrow> (arg_type \<Rightarrow> pyval \<Rightarrow> string + pyval) \<Rightarrow> tool_schema \<Rightarrow> pydict \<Rightarrow> margs result" where
  "build_args_model verr lax s args =
     (let checked = map (\<lambda>(name, spec). (name, validate_arg lax spec args)) (args_fields s);
          errs = concat (map (\<lambda>(name, r). case r of Inl e \<Rightarrow> [(name, e)] | Inr _ \<Rightarrow> []) checked)
      in if errs \<noteq> [] then Inl (Exn ''ValidationError'' (verr (ts_name s @ ''_args'') errs))
         else Inr \<lparr>m_class = ts_name s @ ''_args'',
                   m_fields = concat (map (\<lambda>(name, r). case r of Inl _ \<Rightarrow> [] | Inr v \<Rightarrow> [(name, v)]) checked)\<rparr>)"

definition getattr :: "margs \<Rightarrow> string \<Rightarrow> pyval result" where
  "getattr m a =
     (case dict_get (m_fields m) a of
        None \<Rightarrow> Inl (Exn ''AttributeError'' (repr_str (m_class m) @ '' object has no attribute '' @ repr_str a))
      | Some v \<Rightarrow> Inr v)"

definition build_payload :: "tool_schema \<Rightarrow> margs \<Rightarrow> pydict result" where
  "build_payload s m =
     map_result (\<lambda>(key, f). case field_arg f of
         Some a \<Rightarrow> result_bind (getattr m a) (\<lambda>v. Inr (key, v))
       | None \<Rightarrow> Inr (key, case pf_value f of None \<Rightarrow> PNone | Some v \<Rightarrow> v)) (ts_payload s)"

definition shape_response :: "tool_schema \<Rightarrow> pydict \<Rightarrow> pydict result" where
  "shape_response s data =
     map_result (\<lambda>(key, f). case (case rf_path f of None \<Rightarrow> None | Some p \<Rightarrow> p) of
         Some path \<Rightarrow>
           (case dict_get data path of
              None \<Rightarrow> Inl (Exn ''RuntimeError'' (''provider response missing required field: '' @ repr_str path))
            | Some v \<Rightarrow> Inr (key, v))
       | None \<Rightarrow> Inr (key, case rf_value f of None \<Rightarrow> PNone | Some v \<Rightarrow> v)) (ts_response s)"

section \<open>The tool and the engine\<close>

definition schema_resource :: "tool_schema \<Rightarrow> margs \<Rightarrow> string option result" where
  "schema_resource s m =
     (case ts_resource_arg s of
        None \<Rightarrow> Inr None
      | Some a \<Rightarrow>
          result_bind (expect_class (ts_name s @ ''_args'') m) (\<lambda>_.
            result_bind (getattr m a) (\<lambda>v.
              Inr (Some (if a = ''channel'' then slack_channel_resource_segment (py_str v)
                         else a @ '':'' @ py_str v)))))"

definition call_outcome :: "tool_schema \<Rightarrow> pydict \<Rightarrow> pyval result" where
  "call_outcome s data =
     (if (case ts_ok_field s of None \<Rightarrow> False | Some k \<Rightarrow> \<not> truthy (get_default data k PNone))
      then (let e = get_default data ''error'' PNone
            in Inl (Exn ''RuntimeError''
                 (if truthy e then py_str e else provider_value (ts_provider s) @ '' API error'')))
      else result_bind (shape_response s data) (\<lambda>d. Inr (PDict d)))"

definition schema_run :: "'w resolver option \<Rightarrow> 'w transport option \<Rightarrow> tool_schema \<Rightarrow> margs \<Rightarrow> principal \<Rightarrow> 'w
    \<Rightarrow> pyval result \<times> 'w" where
  "schema_run resolver transport s m p w =
     (case expect_class (ts_name s @ ''_args'') m of
        Inl e \<Rightarrow> (Inl e, w)
      | Inr _ \<Rightarrow>
          (case (resolver, transport) of
             (Some get_token, Some post_json) \<Rightarrow>
               (case get_token p (ts_provider s) (set (ts_scopes s)) w of
                  (Inl e, w1) \<Rightarrow> (Inl e, w1)
                | (Inr token, w1) \<Rightarrow>
                    (case build_payload s m of
                       Inl e \<Rightarrow> (Inl e, w1)
                     | Inr payload \<Rightarrow>
                         (case post_json (ts_endpoint s) payload token w1 of
                            (Inl e, w2) \<Rightarrow> (Inl e, w2)
                          | (Inr data, w2) \<Rightarrow> (call_outcome s data, w2))))
           | _ \<Rightarrow> (Inl (Exn ''RuntimeError'' (ts_name s @ '' not configured'')), w)))"

definition schema_tool :: "verr \<Rightarrow> (arg_type \<Rightarrow> pyval \<Rightarrow> string + pyval) \<Rightarrow> 'w resolver option \<Rightarrow> 'w transport option
    \<Rightarrow> url \<Rightarrow> tool_schema \<Rightarrow> 'w tool" where
  "schema_tool verr lax resolver transport u s =
     \<lparr>t_name = ts_name s, t_description = ts_description s, t_tier = ts_tier s, t_permission = ts_permission s,
      t_validate = build_args_model verr lax s, t_resource = schema_resource s,
      t_metadata = [(''schema'', ts_name s), (''schema_version'', ts_version s),
        (''destination_host'', lower (u_host u)), (''provider'', provider_value (ts_provider s))],
      t_run = schema_run resolver transport s\<rparr>"

definition READ_TIER_ALLOWLIST :: "string list" where
  "READ_TIER_ALLOWLIST = []"

definition validate_security :: "(string \<Rightarrow> url result) \<Rightarrow> string list \<Rightarrow> string list \<Rightarrow> tool_schema \<Rightarrow> unit result" where
  "validate_security parse_url allowlist read_tier_allowlist s =
     (if ts_tier s = READ \<and> ts_name s \<notin> set read_tier_allowlist
      then Inl (schema_error (''schema '' @ quoted (ts_name s) @ '' may not declare auto-run READ tier (not code-allowlisted)''))
      else if ts_tier s \<noteq> READ \<and> ts_permission s \<in> {None, Some []}
      then Inl (schema_error (''schema '' @ quoted (ts_name s) @ '' is a side-effecting tool ('' @ tier_value (ts_tier s)
             @ '') and must declare a required_permission''))
      else assert_host_allowed parse_url (ts_endpoint s) allowlist)"

definition build_tool :: "verr \<Rightarrow> (arg_type \<Rightarrow> pyval \<Rightarrow> string + pyval) \<Rightarrow> (string \<Rightarrow> url result) \<Rightarrow> 'w resolver option
    \<Rightarrow> 'w transport option \<Rightarrow> string list \<Rightarrow> string list \<Rightarrow> tool_schema \<Rightarrow> 'w tool result" where
  "build_tool verr lax parse_url resolver transport allowlist read_tier_allowlist s =
     result_bind (validate_security parse_url allowlist read_tier_allowlist s) (\<lambda>_.
       result_bind (parse_url (ts_endpoint s)) (\<lambda>u. Inr (schema_tool verr lax resolver transport u s)))"

fun register_schemas :: "(tool_schema \<Rightarrow> 'w tool result) \<Rightarrow> tool_schema list \<Rightarrow> 'w registry \<Rightarrow> 'w registry result" where
  "register_schemas build [] reg = Inr reg"
| "register_schemas build (s # ss) reg =
     result_bind (build s) (\<lambda>t. result_bind (register t True reg) (register_schemas build ss))"

text \<open>\<open>_apply_adapter_engine\<close>; \<open>nw\<close> is the network, \<open>proxy_url\<close> and \<open>proxy_auth\<close> the proxy settings.\<close>

definition apply_adapter_engine :: "verr \<Rightarrow> (arg_type \<Rightarrow> pyval \<Rightarrow> string + pyval) \<Rightarrow> (string \<Rightarrow> url result)
    \<Rightarrow> (string \<Rightarrow> tool_schema result) \<Rightarrow> string \<Rightarrow> schema_dir \<Rightarrow> string list \<Rightarrow> string \<Rightarrow> (string \<times> string) option
    \<Rightarrow> 'w network \<Rightarrow> 'w resolver option \<Rightarrow> 'w registry \<Rightarrow> 'w registry result" where
  "apply_adapter_engine verr lax parse_url decode dirname dir allowlist proxy_url proxy_auth nw resolver reg =
     result_bind (load_schema_dir verr decode dirname dir) (\<lambda>schemas.
       result_bind (build_egress_policy parse_url schemas allowlist) (\<lambda>pol.
         result_bind (make_adapter_transport parse_url proxy_url proxy_auth pol nw) (\<lambda>transport.
           register_schemas
             (build_tool verr lax parse_url resolver (Some transport) allowlist READ_TIER_ALLOWLIST) schemas reg)))"

section \<open>Lemmas\<close>

lemma map_result_Inr: "map_result f xs = Inr ys \<longleftrightarrow> list_all2 (\<lambda>x y. f x = Inr y) xs ys"
proof (induction xs arbitrary: ys)
  case (Cons x xs)
  then show ?case by (cases ys) (auto simp: result_bind_Inr_iff)
qed auto

lemma validate_security_Inr:
  "validate_security parse_url allowlist readable s = Inr () \<longleftrightarrow>
   (ts_tier s = READ \<longrightarrow> ts_name s \<in> set readable) \<and>
   (ts_tier s \<noteq> READ \<longrightarrow> ts_permission s \<notin> {None, Some []}) \<and>
   (\<exists>u. parse_url (ts_endpoint s) = Inr u \<and> u_scheme u = ''https'' \<and> u_userinfo u = [] \<and> u_host u \<noteq> [] \<and>
      lower (u_host u) \<in> set allowlist)"
  by (auto simp: validate_security_def assert_host_allowed_def result_bind_Inr_iff check_host_Inr)

lemma build_tool_Inr:
  "build_tool verr lax parse_url resolver transport allowlist readable s = Inr t \<longleftrightarrow>
   validate_security parse_url allowlist readable s = Inr () \<and>
   (\<exists>u. parse_url (ts_endpoint s) = Inr u \<and> t = schema_tool verr lax resolver transport u s)"
  by (auto simp: build_tool_def result_bind_Inr_iff)

lemma built_name: "build_tool verr lax parse_url resolver transport allowlist readable s = Inr t \<Longrightarrow> t_name t = ts_name s"
  by (auto simp: build_tool_Inr schema_tool_def)

text \<open>The endpoint of a schema that builds passes the policy derived from the schemas: what the build
  accepts the transport does not refuse.\<close>

lemma built_endpoint_allowed:
  assumes "build_egress_policy parse_url schemas allowlist = Inr pol" "s \<in> set schemas"
    and "validate_security parse_url allowlist readable s = Inr ()"
  shows "\<exists>u. prepare_validated parse_url pol (ts_endpoint s) = Inr u"
proof -
  from assms(3) obtain u where u: "parse_url (ts_endpoint s) = Inr u" "u_scheme u = ''https''" "u_userinfo u = []"
      "u_host u \<noteq> []" "lower (u_host u) \<in> set allowlist"
    unfolding validate_security_Inr by blast
  from assms(1) obtain routes where r: "list_all2 (\<lambda>s r. schema_route parse_url s = Inr r) schemas routes"
      "pol = mk_egress_policy allowlist routes"
    by (auto simp: build_egress_policy_def result_bind_Inr_iff map_result_Inr)
  obtain i where "i < length schemas" "schemas ! i = s" using assms(2) by (meson in_set_conv_nth)
  with r(1) have "routes ! i \<in> set routes" "schema_route parse_url s = Inr (routes ! i)"
    by (auto simp: list_all2_conv_all_nth)
  with u(1) have "route_of u \<in> set routes" by (simp add: schema_route_def route_of_def)
  moreover have "lower (u_host u) \<in> lower ` set allowlist" using u(5) by (metis image_eqI lower_lower)
  ultimately show ?thesis using u r(2) by (auto simp: prepare_validated_iff url_allowed_def mk_egress_policy_def)
qed

lemma register_True: "register t True reg = Inr (dict_set (t_name t) t reg)"
  by (simp add: register_def)

lemma registry_ok_set: "registry_ok reg \<Longrightarrow> registry_ok (dict_set (t_name t) t reg)"
  by (auto simp: registry_ok_def split: if_splits)

text \<open>What is registered after the loop: every entry is an old one or the tool of a schema, and every
  schema name holds a schema tool.\<close>

lemma register_schemas_Inr:
  assumes "register_schemas build ss reg = Inr reg'" "registry_ok reg"
    and "\<And>s t. build s = Inr t \<Longrightarrow> t_name t = ts_name s"
  shows "registry_ok reg' \<and>
    (\<forall>n. n \<notin> ts_name ` set ss \<longrightarrow> dict_get reg' n = dict_get reg n) \<and>
    (\<forall>n \<in> ts_name ` set ss. \<exists>s \<in> set ss. \<exists>t. ts_name s = n \<and> build s = Inr t \<and> dict_get reg' n = Some t) \<and>
    (\<forall>s \<in> set ss. \<exists>t. build s = Inr t)"
  using assms(1,2)
proof (induction ss arbitrary: reg)
  case (Cons s ss)
  from Cons.prems(1) obtain t where t: "build s = Inr t"
      "register_schemas build ss (dict_set (t_name t) t reg) = Inr reg'"
    by (auto simp: result_bind_Inr_iff register_True)
  from Cons.IH [OF t(2) registry_ok_set [OF Cons.prems(2)]] have
    ih: "registry_ok reg'" "\<forall>n. n \<notin> ts_name ` set ss \<longrightarrow> dict_get reg' n = dict_get (dict_set (t_name t) t reg) n"
      "\<forall>n \<in> ts_name ` set ss. \<exists>s \<in> set ss. \<exists>t. ts_name s = n \<and> build s = Inr t \<and> dict_get reg' n = Some t"
      "\<forall>s \<in> set ss. \<exists>t. build s = Inr t" by blast+
  have n: "t_name t = ts_name s" using assms(3) t(1) by blast
  have "\<exists>r \<in> set (s # ss). \<exists>u. ts_name r = ts_name s \<and> build r = Inr u \<and> dict_get reg' (ts_name s) = Some u"
    using ih(2,3) n t(1) by (cases "ts_name s \<in> ts_name ` set ss") auto
  with ih n t(1) show ?case by (auto split: if_splits)
qed simp

section \<open>The packaged schema\<close>

definition str_arg :: "string \<Rightarrow> arg_spec" where
  "str_arg n = \<lparr>as_name = n, as_type = ArgStr, as_required = True, as_min = Some 1, as_max = None, as_description = []\<rparr>"

definition slack_delete_message :: tool_schema where
  "slack_delete_message =
     \<lparr>ts_name = ''slack_delete_message'',
      ts_description = ''Delete a previously posted Slack message. Irreversible external action.'',
      ts_version = ''1'', ts_tier = DELETE, ts_permission = Some ''tool:slack:delete_message'',
      ts_resource_arg = Some ''channel'', ts_provider = SLACK, ts_scopes = [''chat:write''],
      ts_endpoint = ''https://slack.com/api/chat.delete'',
      ts_args = [str_arg ''channel'', str_arg ''ts''],
      ts_payload = [(''channel'', \<lparr>pf_arg = Some (Some ''channel''), pf_value = None\<rparr>),
        (''ts'', \<lparr>pf_arg = Some (Some ''ts''), pf_value = None\<rparr>)],
      ts_response = [(''channel'', \<lparr>rf_path = Some (Some ''channel''), rf_value = None\<rparr>),
        (''ts'', \<lparr>rf_path = Some (Some ''ts''), rf_value = None\<rparr>),
        (''provider'', \<lparr>rf_path = None, rf_value = Some (PStr ''slack'')\<rparr>)],
      ts_ok_field = Some ''ok''\<rparr>"

section \<open>Properties\<close>

text \<open>C27: a schema cannot make a tool run without approval. When the adapter engine has been applied
  to a registry, every name that a loaded schema declares holds a tool of a gated tier with a
  non-empty permission, no other entry has changed, the registry is still well formed, and the endpoint
  of every schema passes the egress policy that the schemas induce.\<close>

theorem schema_tools_are_gated:
  assumes "apply_adapter_engine verr lax parse_url decode dirname dir allowlist proxy_url proxy_auth nw resolver reg = Inr reg'"
    and "registry_ok reg"
  shows "registry_ok reg' \<and>
    (\<exists>schemas pol. load_schema_dir verr decode dirname dir = Inr schemas \<and> schemas \<noteq> [] \<and>
      build_egress_policy parse_url schemas allowlist = Inr pol \<and>
      (\<forall>s \<in> set schemas. (\<exists>u. prepare_validated parse_url pol (ts_endpoint s) = Inr u) \<and>
         (\<exists>t. dict_get reg' (ts_name s) = Some t \<and> requires_approval (TierEnum (t_tier t)) \<and>
            t_permission t \<notin> {None, Some []})) \<and>
      (\<forall>n. n \<notin> ts_name ` set schemas \<longrightarrow> dict_get reg' n = dict_get reg n))"
proof -
  from assms(1) obtain schemas pol transport where a: "load_schema_dir verr decode dirname dir = Inr schemas"
      "build_egress_policy parse_url schemas allowlist = Inr pol"
      "register_schemas (build_tool verr lax parse_url resolver (Some transport) allowlist READ_TIER_ALLOWLIST) schemas reg = Inr reg'"
    by (auto simp: apply_adapter_engine_def result_bind_Inr_iff)
  let ?b = "build_tool verr lax parse_url resolver (Some transport) allowlist READ_TIER_ALLOWLIST"
  note r = register_schemas_Inr [OF a(3) assms(2),
      OF built_name [of verr lax parse_url resolver "Some transport" allowlist READ_TIER_ALLOWLIST]]
  have ne: "schemas \<noteq> []"
    using a(1) by (auto simp: load_schema_dir_def Let_def map_result_Inr split: option.splits if_splits)
  have g: "requires_approval (TierEnum (t_tier t)) \<and> t_permission t \<notin> {None, Some []}"
    if "?b s = Inr t" for s t
    using that by (auto simp: build_tool_Inr validate_security_Inr schema_tool_def READ_TIER_ALLOWLIST_def)
  have e: "\<exists>u. prepare_validated parse_url pol (ts_endpoint s) = Inr u" if "s \<in> set schemas" for s
    using built_endpoint_allowed [OF a(2) that] r that by (meson build_tool_Inr)
  have t: "\<exists>t. dict_get reg' (ts_name s) = Some t \<and> requires_approval (TierEnum (t_tier t)) \<and>
      t_permission t \<notin> {None, Some []}" if "s \<in> set schemas" for s
  proof -
    from r that obtain q t where "?b q = Inr t" "dict_get reg' (ts_name s) = Some t" by blast
    with g show ?thesis by blast
  qed
  have "\<forall>n. n \<notin> ts_name ` set schemas \<longrightarrow> dict_get reg' n = dict_get reg n" and "registry_ok reg'"
    using r by auto
  moreover have "\<forall>s \<in> set schemas. (\<exists>u. prepare_validated parse_url pol (ts_endpoint s) = Inr u) \<and>
         (\<exists>t. dict_get reg' (ts_name s) = Some t \<and> requires_approval (TierEnum (t_tier t)) \<and>
            t_permission t \<notin> {None, Some []})" using e t by simp
  ultimately show ?thesis using a(1,2) ne by (intro conjI exI [of _ schemas] exI [of _ pol])
qed

theorem schema_tools_are_gated_witness:
  "\<exists>reg' t. apply_adapter_engine (\<lambda>_ _. []) (\<lambda>_ _. Inl []) demo_parse (\<lambda>_. Inr slack_delete_message) ''d''
      (Some [([''slack'', ''slack_delete_message.json''], [])]) [''slack.com''] [] None (demo_network ''8.8.8.8'') None [] = Inr reg' \<and>
     dict_get reg' ''slack_delete_message'' = Some t \<and> requires_approval (TierEnum (t_tier t))"
proof -
  let ?x = "apply_adapter_engine (\<lambda>_ _. []) (\<lambda>_ _. Inl []) demo_parse (\<lambda>_. Inr slack_delete_message) ''d''
      (Some [([''slack'', ''slack_delete_message.json''], [])]) [''slack.com''] [] None (demo_network ''8.8.8.8'') None []"
  have ok: "is_ok ?x" by code_simp
  have l: "load_schema_dir (\<lambda>_ _. []) (\<lambda>_. Inr slack_delete_message) ''d''
      (Some [([''slack'', ''slack_delete_message.json''], [])]) = Inr [slack_delete_message]" by code_simp
  from ok obtain reg' where r: "?x = Inr reg'" by (cases ?x) auto
  from schema_tools_are_gated [OF r] l obtain t where "dict_get reg' (ts_name slack_delete_message) = Some t"
      "requires_approval (TierEnum (t_tier t))" by auto
  with r show ?thesis by (auto simp: slack_delete_message_def)
qed

end
