(* ===== verification/Base64.thy ===== *)
theory Base64
  imports Prelude
begin

text \<open>
  \<open>urlsafe_b64encode\<close> and \<open>urlsafe_b64decode\<close> of Python's \<open>base64\<close>, on bytes (characters below 256), as
  \<^verbatim>\<open>src/src/atlas/interface/oauth_state.py\<close> and the Vault path encoding use them. Decoding is the lenient
  one of \<open>binascii\<close>: characters outside the alphabet are skipped, and a complete padding ends the input.
\<close>

definition b64_char :: "nat \<Rightarrow> char" where
  "b64_char n = char_of (if n < 26 then 65 + n else if n < 52 then 71 + n else if n < 62 then n - 4
     else if n = 62 then 45 else 95)"

text \<open>The urlsafe decoder maps \<open>-\<close> and \<open>_\<close> to \<open>+\<close> and \<open>/\<close> first, so that it reads both alphabets.\<close>

definition b64_value :: "char \<Rightarrow> nat option" where
  "b64_value c = (let n = cp c in
     if 65 \<le> n \<and> n \<le> 90 then Some (n - 65) else if 97 \<le> n \<and> n \<le> 122 then Some (n - 71)
     else if 48 \<le> n \<and> n \<le> 57 then Some (n + 4) else if n = 45 \<or> n = 43 then Some 62
     else if n = 95 \<or> n = 47 then Some 63 else None)"

fun b64encode :: "string \<Rightarrow> string" where
  "b64encode [] = []"
| "b64encode [a] = [b64_char (cp a div 4), b64_char (cp a mod 4 * 16), CHR ''='', CHR ''='']"
| "b64encode [a, b] =
     [b64_char (cp a div 4), b64_char (cp a mod 4 * 16 + cp b div 16), b64_char (cp b mod 16 * 4), CHR ''='']"
| "b64encode (a # b # c # s) =
     b64_char (cp a div 4) # b64_char (cp a mod 4 * 16 + cp b div 16) # b64_char (cp b mod 16 * 4 + cp c div 64)
       # b64_char (cp c mod 64) # b64encode s"

text \<open>The loop of \<open>a2b_base64\<close>: the position in the quad, the number of pads, the bits left over, and the
  output so far.\<close>

fun a2b_loop :: "string \<Rightarrow> nat \<Rightarrow> nat \<Rightarrow> nat \<Rightarrow> string \<Rightarrow> string result" where
  "a2b_loop [] quad_pos pads left out =
     (if quad_pos = 0 then Inr out
      else if quad_pos = 1
      then Inl (Exn ''Error'' ''Invalid base64-encoded string: number of data characters cannot be 1 more than a multiple of 4'')
      else Inl (Exn ''Error'' ''Incorrect padding''))"
| "a2b_loop (c # s) quad_pos pads left out =
     (if c = CHR ''=''
      then (if 2 \<le> quad_pos \<and> 4 \<le> quad_pos + Suc pads then Inr out
            else a2b_loop s quad_pos (if 2 \<le> quad_pos then Suc pads else pads) left out)
      else case b64_value c of
             None \<Rightarrow> a2b_loop s quad_pos pads left out
           | Some v \<Rightarrow>
               if quad_pos = 0 then a2b_loop s 1 0 v out
               else if quad_pos = 1 then a2b_loop s 2 0 (v mod 16) (out @ [char_of (left * 4 + v div 16)])
               else if quad_pos = 2 then a2b_loop s 3 0 (v mod 4) (out @ [char_of (left * 16 + v div 4)])
               else a2b_loop s 0 0 0 (out @ [char_of (left * 64 + v)]))"

definition b64decode :: "string \<Rightarrow> string result" where
  "b64decode s = a2b_loop s 0 0 0 []"

section \<open>Round trip\<close>

lemma b64_value_char [simp]: "n < 64 \<Longrightarrow> b64_value (b64_char n) = Some n"
  by (auto simp: b64_value_def b64_char_def Let_def)

lemma b64_char_alphabet: "n < 64 \<Longrightarrow> b64_char n \<noteq> CHR ''='' \<and> b64_char n \<noteq> CHR ''.'' \<and> cp (b64_char n) < 128"
proof -
  assume n: "n < 64"
  have "b64_value (CHR ''='') = None" "b64_value (CHR ''.'') = None" by (simp_all add: b64_value_def)
  then have "b64_char n \<noteq> CHR ''=''" "b64_char n \<noteq> CHR ''.''" using b64_value_char [OF n] by (metis option.distinct(1))+
  then show ?thesis using n by (auto simp: b64_char_def)
qed

lemma bits:
  fixes a b :: nat
  assumes "a < 256" "b < 256"
  shows "a div 4 < 64" "a div 16 < 16" "a div 64 < 4" "a mod 4 * 16 + b div 16 < 64" "a mod 16 * 4 + b div 64 < 64"
    "a mod 4 * 16 < 64" "a mod 16 * 4 < 64"
proof -
  show d: "a div 4 < 64" "a div 16 < 16" "a div 64 < 4" using assms by (simp_all add: less_mult_imp_div_less)
  have "b div 16 < 16" "b div 64 < 4" using assms by (simp_all add: less_mult_imp_div_less)
  moreover have "a mod 4 < 4" "a mod 16 < 16" by simp_all
  ultimately show "a mod 4 * 16 + b div 16 < 64" "a mod 16 * 4 + b div 64 < 64"
    "a mod 4 * 16 < 64" "a mod 16 * 4 < 64" by linarith+
qed

lemmas byte_bits [simp] = bits [OF cp_less_256 cp_less_256]

lemma byte_join:
  "cp a div 4 * 4 + (cp a mod 4 * 16 + cp b div 16) div 16 = cp a"
  "(cp a mod 4 * 16 + cp b div 16) mod 16 * 16 + (cp b mod 16 * 4 + cp c div 64) div 4 = cp b"
  "(cp b mod 16 * 4 + cp c div 64) mod 4 * 64 + cp c mod 64 = cp c"
  "(cp a mod 4 * 16 + cp b div 16) mod 16 * 16 + (cp b mod 16 * 4) div 4 = cp b"
proof -
  have "(x * 16 + cp b div 16) div 16 = x" "(x * 16 + cp b div 16) mod 16 = cp b div 16"
    "(x * 4 + cp c div 64) div 4 = x" "(x * 4 + cp c div 64) mod 4 = cp c div 64" for x
    using byte_bits(2) [of b] byte_bits(3) [of c] by (simp_all add: div_add1_eq [of "x * 16"] div_add1_eq [of "x * 4"])
  then show "cp a div 4 * 4 + (cp a mod 4 * 16 + cp b div 16) div 16 = cp a"
    "(cp a mod 4 * 16 + cp b div 16) mod 16 * 16 + (cp b mod 16 * 4 + cp c div 64) div 4 = cp b"
    "(cp b mod 16 * 4 + cp c div 64) mod 4 * 64 + cp c mod 64 = cp c"
    "(cp a mod 4 * 16 + cp b div 16) mod 16 * 16 + (cp b mod 16 * 4) div 4 = cp b"
    by simp_all
qed

lemma a2b_b64encode: "a2b_loop (b64encode s) 0 0 0 out = Inr (out @ s)"
proof (induction s arbitrary: out rule: b64encode.induct)
  case (3 a b)
  then show ?case using byte_join(1) [of a b] byte_join(4) [of a b]
    by (simp only: b64encode.simps a2b_loop.simps) (simp add: b64_char_alphabet)
next
  case (4 a b c s)
  then show ?case using byte_join(1) [of a b] byte_join(2) [of a b c] byte_join(3) [of b c]
    by (simp only: b64encode.simps a2b_loop.simps) (simp add: b64_char_alphabet)
qed (simp_all add: b64_char_alphabet)

lemma b64_roundtrip [simp]: "b64decode (b64encode s) = Inr s"
  by (simp add: b64decode_def a2b_b64encode)

lemma b64encode_chars: "c \<in> set (b64encode s) \<Longrightarrow> c \<noteq> CHR ''.'' \<and> cp c < 128"
  by (induction s rule: b64encode.induct) (auto simp: b64_char_alphabet)

end
