(* ===== verification/OAuth.thy ===== *)
theory OAuth
  imports Interface Config Base64
begin

text \<open>
  Connecting a user's Google or Slack account: the provider clients of \<^verbatim>\<open>src/src/atlas/integrations/oauth.py\<close>, the
  email binding of \<^verbatim>\<open>oauth_binding.py\<close>, the signed state and the pending cookie
  (\<^verbatim>\<open>src/src/atlas/interface/oauth_state.py\<close>, \<^verbatim>\<open>oauth_pending.py\<close>) and the handlers of \<^verbatim>\<open>oauth_routes.py\<close>.

  HMAC-SHA256, \<open>json.loads\<close>, the OAuth library (Authlib), PyJWT, HTTP, the clock and the random nonce are
  parameters; the vault is given by its operations. The range of datetimes is not modelled. A handler
  threads the world of the providers and the vault.
\<close>

section \<open>Parameters and small helpers\<close>

record oauth_client =
  oc_id :: string
  oc_secret :: string
  oc_redirect :: string

text \<open>The parameters: the MAC as hexadecimal text, the JSON parser on bytes (all its errors are value errors), building an authorization URL, the
  code exchange and the refresh of the OAuth library, the verification of a Google id token with
  the exceptions of PyJWT, and HTTP GET with query parameters and headers.\<close>

record 'w oauth_env =
  oe_mac :: "string \<Rightarrow> string \<Rightarrow> string"
  oe_loads :: "string \<Rightarrow> pyval result"
  oe_authorize :: "oauth_client \<Rightarrow> string \<Rightarrow> string dict \<Rightarrow> string"
  oe_fetch_token :: "oauth_client \<Rightarrow> string \<Rightarrow> string \<Rightarrow> 'w \<Rightarrow> pydict result \<times> 'w"
  oe_refresh_token :: "oauth_client \<Rightarrow> string \<Rightarrow> string \<Rightarrow> pydict result"
  oe_id_token :: "string \<Rightarrow> string \<Rightarrow> pydict result"
  oe_is_jwt_error :: "exn \<Rightarrow> bool"
  oe_http_get :: "string \<Rightarrow> string dict \<Rightarrow> string dict \<Rightarrow> 'w \<Rightarrow> http_response result \<times> 'w"

definition state_error :: "string \<Rightarrow> exn" where
  "state_error msg = Exn ''OAuthStateError'' msg"

definition binding_error :: "string \<Rightarrow> exn" where
  "binding_error msg = Exn ''OAuthBindingError'' msg"

text \<open>\<open>int(v)\<close> of a decoded value.\<close>

definition int_of_str :: "string \<Rightarrow> int option" where
  "int_of_str s =
     (let t = strip s;
          neg = startswith t ''-'';
          body = (if neg \<or> startswith t ''+'' then drop 1 t else t);
          parts = split_on (CHR ''_'') body
      in if list_all (\<lambda>w. w \<noteq> [] \<and> list_all is_digit w) parts
         then Some ((if neg then -1 else 1) * int (digits_val (concat parts)))
         else None)"

definition py_int :: "pyval \<Rightarrow> int result" where
  "py_int v = (case v of
     PInt i \<Rightarrow> Inr i
   | PBool b \<Rightarrow> Inr (if b then 1 else 0)
   | PStr s \<Rightarrow> (case int_of_str s of
         Some i \<Rightarrow> Inr i
       | None \<Rightarrow> Inl (Exn ''ValueError'' (''invalid literal for int() with base 10: '' @ repr_str s)))
   | _ \<Rightarrow> Inl (Exn ''TypeError'' (''int() argument must be a string, a bytes-like object or a real number, not ''
            @ repr_str (type_name v))))"

text \<open>\<open>hmac.compare_digest\<close> on two strings, which must be ASCII.\<close>

definition compare_digest :: "string \<Rightarrow> string \<Rightarrow> bool result" where
  "compare_digest a b =
     (if list_all (\<lambda>c. cp c < 128) (a @ b) then Inr (a = b)
      else Inl (Exn ''TypeError'' ''comparing strings with non-ASCII characters is not supported''))"

text \<open>\<open>json.dumps(v, sort_keys=True)\<close> with the default separators.\<close>

fun json_dumps :: "pyval \<Rightarrow> string" and json_dumps_elems :: "pyval list \<Rightarrow> string"
  and json_dumps_items :: "(string \<times> pyval) list \<Rightarrow> string" where
  "json_dumps PNone = ''null''"
| "json_dumps (PBool b) = (if b then ''true'' else ''false'')"
| "json_dumps (PInt i) = int_str i"
| "json_dumps (PStr s) = json_quote_ascii s"
| "json_dumps (PList xs) = ''['' @ json_dumps_elems xs @ '']''"
| "json_dumps (PDict d) = ''{'' @ json_dumps_items d @ ''}''"
| "json_dumps_elems [] = []"
| "json_dumps_elems (x # xs) = json_dumps x @ (if xs = [] then [] else '', '' @ json_dumps_elems xs)"
| "json_dumps_items [] = []"
| "json_dumps_items ((k, v) # d) =
     json_quote_ascii k @ '': '' @ json_dumps v @ (if d = [] then [] else '', '' @ json_dumps_items d)"

abbreviation get :: "pydict \<Rightarrow> string \<Rightarrow> pyval" where
  "get d k \<equiv> get_default d k PNone"

text \<open>\<open>d.get(k) or {}\<close>, used as a dictionary.\<close>

definition get_or_empty :: "pydict \<Rightarrow> string \<Rightarrow> pydict result" where
  "get_or_empty d k = (if truthy (get d k) then as_dict (get d k) else Inr [])"

section \<open>Signed state\<close>

definition INSECURE_DEV_STATE_KEY :: string where
  "INSECURE_DEV_STATE_KEY = ''atlas-dev-oauth-state-insecure-flag-only''"

definition oauth_state_key :: "settings \<Rightarrow> string result" where
  "oauth_state_key s =
     (case oauth_state_secret s of
        Some secret \<Rightarrow>
          if strip secret \<noteq> [] then Inr (utf8 (strip secret))
          else if oauth_allow_insecure_state s then Inr INSECURE_DEV_STATE_KEY
          else Inl (state_error ''ATLAS_OAUTH_STATE_SECRET is not configured'')
      | None \<Rightarrow>
          if oauth_allow_insecure_state s then Inr INSECURE_DEV_STATE_KEY
          else Inl (state_error ''ATLAS_OAUTH_STATE_SECRET is not configured''))"

definition normalize_email :: "string \<Rightarrow> string" where
  "normalize_email email = lower (strip email)"

definition state_payload :: "principal \<Rightarrow> oauth_provider \<Rightarrow> string \<Rightarrow> string \<Rightarrow> int \<Rightarrow> pyval" where
  "state_payload p provider binding_email nonce deadline = PDict
     [(''user_id'', PStr (user_id p)), (''org_id'', opt_val (org_id p)), (''provider'', PStr (provider_value provider)),
      (''binding_email'', PStr (normalize_email binding_email)), (''nonce'', PStr nonce), (''exp'', PInt deadline)]"

definition issue_oauth_state :: "'w oauth_env \<Rightarrow> settings \<Rightarrow> principal \<Rightarrow> oauth_provider \<Rightarrow> string \<Rightarrow> string \<Rightarrow> int \<Rightarrow> int
    \<Rightarrow> string result" where
  "issue_oauth_state env s p provider binding_email nonce now ttl_seconds =
     (let body = b64encode (json_dumps (canon (state_payload p provider binding_email nonce (now + ttl_seconds))))
      in result_bind (oauth_state_key s) (\<lambda>key. Inr (body @ ''.'' @ oe_mac env key (utf8 body))))"

definition consume_oauth_state :: "'w oauth_env \<Rightarrow> settings \<Rightarrow> int \<Rightarrow> string \<Rightarrow> pydict result" where
  "consume_oauth_state env s now state =
     (case rsplit1 (CHR ''.'') state of
        None \<Rightarrow> Inl (state_error ''malformed state'')
      | Some (body, sig) \<Rightarrow>
          result_bind (oauth_state_key s) (\<lambda>key.
          result_bind (compare_digest (oe_mac env key (utf8 body)) sig) (\<lambda>same.
            if \<not> same then Inl (state_error ''invalid state signature'')
            else (case result_bind (b64decode (utf8 body)) (oe_loads env) of
                    Inl _ \<Rightarrow> Inl (state_error ''invalid state payload'')
                  | Inr v \<Rightarrow>
                      result_bind (as_dict v) (\<lambda>payload.
                      result_bind (py_int (get_default payload ''exp'' (PInt 0))) (\<lambda>deadline.
                        if deadline < now then Inl (state_error ''expired state'') else Inr payload))))))"

definition principal_from_payload :: "pydict \<Rightarrow> principal result" where
  "principal_from_payload payload =
     (case get payload ''user_id'' of
        PStr uid \<Rightarrow>
          if strip uid = [] then Inl (state_error ''state missing user_id'')
          else (case get payload ''org_id'' of
                  PStr oid \<Rightarrow>
                    if strip oid = [] then Inl (state_error ''org_id required'')
                    else Inr \<lparr>user_id = uid, roles = [], org_id = Some oid\<rparr>
                | _ \<Rightarrow> Inl (state_error ''org_id required''))
      | _ \<Rightarrow> Inl (state_error ''state missing user_id''))"

definition names_principal :: "pydict \<Rightarrow> principal \<Rightarrow> bool" where
  "names_principal payload p = (get payload ''user_id'' = PStr (user_id p) \<and> get payload ''org_id'' = opt_val (org_id p))"

definition principal_from_state :: "pydict \<Rightarrow> principal \<Rightarrow> principal result" where
  "principal_from_state payload caller =
     (if caller = anonymous then Inl (state_error ''authentication required'')
      else if \<not> names_principal payload caller then Inl (state_error ''state principal mismatch'')
      else if org_id caller = None \<or> org_id caller = Some [] then Inl (state_error ''org_id required'')
      else Inr caller)"

section \<open>The pending cookie\<close>

definition OAUTH_PENDING_COOKIE :: string where
  "OAUTH_PENDING_COOKIE = ''atlas_oauth_pending''"

definition sign_pending_nonce :: "'w oauth_env \<Rightarrow> settings \<Rightarrow> string \<Rightarrow> string result" where
  "sign_pending_nonce env s nonce = result_bind (oauth_state_key s) (\<lambda>key. Inr (oe_mac env key (utf8 nonce)))"

definition verify_oauth_pending_cookie :: "'w oauth_env \<Rightarrow> settings \<Rightarrow> string \<Rightarrow> pydict \<Rightarrow> bool result" where
  "verify_oauth_pending_cookie env s cookie payload =
     (case get payload ''nonce'' of
        PStr (c # n) \<Rightarrow> result_bind (sign_pending_nonce env s (c # n)) (\<lambda>expected. compare_digest expected cookie)
      | _ \<Rightarrow> Inr False)"

record cookie_attrs =
  ck_httponly :: bool
  ck_samesite :: string
  ck_secure :: bool
  ck_max_age :: int

definition pending_cookie_kwargs :: "bool \<Rightarrow> cookie_attrs" where
  "pending_cookie_kwargs secure = \<lparr>ck_httponly = True, ck_samesite = ''lax'', ck_secure = secure, ck_max_age = 600\<rparr>"

section \<open>Provider clients\<close>

definition GOOGLE_OAUTH_SCOPES :: "string list" where
  "GOOGLE_OAUTH_SCOPES = [''openid'', ''email'', GOOGLE_GMAIL_SEND, GOOGLE_CALENDAR_EVENTS]"

definition SLACK_OAUTH_USER_SCOPES :: "string list" where
  "SLACK_OAUTH_USER_SCOPES = [SLACK_USER_CHAT_WRITE, ''users:read.email'']"

definition GOOGLE_AUTH_URL :: string where
  "GOOGLE_AUTH_URL = ''https://accounts.google.com/o/oauth2/v2/auth''"

definition GOOGLE_ACCESS_URL :: string where
  "GOOGLE_ACCESS_URL = ''https://oauth2.googleapis.com/token''"

definition SLACK_AUTH_URL :: string where
  "SLACK_AUTH_URL = ''https://slack.com/oauth/v2/authorize''"

definition SLACK_ACCESS_URL :: string where
  "SLACK_ACCESS_URL = ''https://slack.com/api/oauth.v2.access''"

text \<open>\<open>now\<close> in microseconds here.\<close>

definition expires_at_from_token :: "int \<Rightarrow> pydict \<Rightarrow> expiry option result" where
  "expires_at_from_token now token =
     (case get token ''expires_in'' of
        PNone \<Rightarrow> Inr None
      | v \<Rightarrow> result_bind (py_int v) (\<lambda>n. Inr (Some (Aware (now + n * 1000000)))))"

text \<open>The validation of an optional text field of \<open>StoredCredential\<close>.\<close>

definition opt_text :: "pyval \<Rightarrow> string option result" where
  "opt_text v = (case v of
     PNone \<Rightarrow> Inr None | PStr s \<Rightarrow> Inr (Some s)
   | _ \<Rightarrow> Inl (Exn ''ValidationError'' ''Input should be a valid string''))"

definition stored_from_google_token :: "int \<Rightarrow> pydict \<Rightarrow> string list \<Rightarrow> stored_credential result" where
  "stored_from_google_token now token fallback_scopes =
     result_bind (case get token ''scope'' of
         PStr s \<Rightarrow> Inr (split_ws s)
       | v \<Rightarrow> if truthy v then Inl (Exn ''AttributeError'' (repr_str (type_name v) @ '' object has no attribute ''
                  @ repr_str ''split''))
             else Inr []) (\<lambda>scopes0.
     let scopes = (if scopes0 = [] \<and> fallback_scopes \<noteq> [] then fallback_scopes else scopes0) in
     result_bind (case dict_get token ''access_token'' of
         None \<Rightarrow> Inl (Exn ''KeyError'' (repr_str ''access_token'')) | Some v \<Rightarrow> Inr (py_str v)) (\<lambda>access.
     result_bind (expires_at_from_token now token) (\<lambda>expires.
     result_bind (opt_text (get token ''refresh_token'')) (\<lambda>refresh.
       Inr \<lparr>sc_provider = GOOGLE, sc_scopes = scopes, sc_access_token = access, sc_refresh_token = refresh,
            sc_expires_at = expires,
            sc_token_type = py_str (if truthy (get token ''token_type'') then get token ''token_type'' else PStr ''Bearer''),
            sc_metadata = []\<rparr>))))"

definition stored_from_slack_token :: "int \<Rightarrow> pydict \<Rightarrow> stored_credential result" where
  "stored_from_slack_token now token =
     result_bind (get_or_empty token ''authed_user'') (\<lambda>authed_user.
     let access = (if truthy (get authed_user ''access_token'') then get authed_user ''access_token''
                   else get token ''access_token'')
     in if \<not> truthy access then Inl (Exn ''RuntimeError'' ''Slack OAuth response missing user access token'')
        else
     result_bind (get_or_empty token ''team'') (\<lambda>team.
     let metadata = (if truthy (get team ''id'') then [(''team_id'', py_str (get team ''id''))] else [])
           @ (if truthy (get authed_user ''id'') then [(''user_id'', py_str (get authed_user ''id''))] else []);
         refresh0 = (if truthy (get authed_user ''refresh_token'') then get authed_user ''refresh_token''
                     else get token ''refresh_token'')
     in
     result_bind (expires_at_from_token now authed_user) (\<lambda>e1.
     result_bind (case e1 of Some e \<Rightarrow> Inr (Some e) | None \<Rightarrow> expires_at_from_token now token) (\<lambda>expires.
     result_bind (opt_text refresh0) (\<lambda>refresh.
       Inr \<lparr>sc_provider = SLACK, sc_scopes = SLACK_OAUTH_USER_SCOPES, sc_access_token = py_str access,
            sc_refresh_token = refresh, sc_expires_at = expires, sc_token_type = ''Bearer'', sc_metadata = metadata\<rparr>)))))"

record oauth_exchange =
  ox_credential :: stored_credential
  ox_response :: pydict

definition google_authorization_url :: "'w oauth_env \<Rightarrow> oauth_client \<Rightarrow> string \<Rightarrow> string" where
  "google_authorization_url env c state =
     oe_authorize env c GOOGLE_AUTH_URL
       [(''scope'', join '' '' GOOGLE_OAUTH_SCOPES), (''state'', state), (''access_type'', ''offline''), (''prompt'', ''consent'')]"

definition slack_authorization_url :: "'w oauth_env \<Rightarrow> oauth_client \<Rightarrow> string \<Rightarrow> string" where
  "slack_authorization_url env c state =
     oe_authorize env c SLACK_AUTH_URL [(''state'', state), (''user_scope'', join '','' SLACK_OAUTH_USER_SCOPES)]"

definition google_exchange_code :: "'w oauth_env \<Rightarrow> int \<Rightarrow> oauth_client \<Rightarrow> string \<Rightarrow> 'w \<Rightarrow> oauth_exchange result \<times> 'w" where
  "google_exchange_code env now c code w =
     (case oe_fetch_token env c GOOGLE_ACCESS_URL code w of
        (Inl e, w') \<Rightarrow> (Inl e, w')
      | (Inr token, w') \<Rightarrow>
          (result_bind (stored_from_google_token now token []) (\<lambda>cr. Inr \<lparr>ox_credential = cr, ox_response = token\<rparr>), w'))"

text \<open>\<open>if not token.get("ok", True): raise RuntimeError(token.get("error", msg))\<close>.\<close>

definition slack_checked :: "string \<Rightarrow> pydict \<Rightarrow> unit result" where
  "slack_checked msg token =
     (if truthy (get_default token ''ok'' (PBool True)) then Inr ()
      else Inl (Exn ''RuntimeError'' (py_str (get_default token ''error'' (PStr msg)))))"

definition slack_exchange_code :: "'w oauth_env \<Rightarrow> int \<Rightarrow> oauth_client \<Rightarrow> string \<Rightarrow> 'w \<Rightarrow> oauth_exchange result \<times> 'w" where
  "slack_exchange_code env now c code w =
     (case oe_fetch_token env c SLACK_ACCESS_URL code w of
        (Inl e, w') \<Rightarrow> (Inl e, w')
      | (Inr token, w') \<Rightarrow>
          (result_bind (slack_checked ''Slack OAuth failed'' token) (\<lambda>_.
           result_bind (stored_from_slack_token now token) (\<lambda>cr. Inr \<lparr>ox_credential = cr, ox_response = token\<rparr>)), w'))"

definition google_refresh :: "'w oauth_env \<Rightarrow> int \<Rightarrow> oauth_client \<Rightarrow> string \<Rightarrow> string list \<Rightarrow> stored_credential result" where
  "google_refresh env now c refresh_token prior_scopes =
     result_bind (oe_refresh_token env c GOOGLE_ACCESS_URL refresh_token) (\<lambda>token.
       stored_from_google_token now
         (if get token ''refresh_token'' = PNone then dict_set ''refresh_token'' (PStr refresh_token) token else token)
         prior_scopes)"

definition slack_refresh :: "'w oauth_env \<Rightarrow> int \<Rightarrow> oauth_client \<Rightarrow> string \<Rightarrow> stored_credential result" where
  "slack_refresh env now c refresh_token =
     result_bind (oe_refresh_token env c SLACK_ACCESS_URL refresh_token) (\<lambda>token.
     result_bind (slack_checked ''Slack token refresh failed'' token) (\<lambda>_.
     result_bind (stored_from_slack_token now token) (\<lambda>cr.
       Inr (if sc_refresh_token cr = None then cr\<lparr>sc_refresh_token := Some refresh_token\<rparr> else cr))))"

definition build_client :: "bool \<Rightarrow> string option \<Rightarrow> string option \<Rightarrow> string option \<Rightarrow> oauth_client option" where
  "build_client configured cid secret redirect =
     (if \<not> configured then None
      else case (cid, secret, redirect) of
             (Some i, Some x, Some r) \<Rightarrow> Some \<lparr>oc_id = i, oc_secret = x, oc_redirect = r\<rparr>
           | _ \<Rightarrow> None)"

definition build_google_oauth_client :: "settings \<Rightarrow> oauth_client option" where
  "build_google_oauth_client s = build_client (oauth_google_configured s) (google_oauth_client_id s)
     (google_oauth_client_secret s) (google_oauth_redirect_uri s)"

definition build_slack_oauth_client :: "settings \<Rightarrow> oauth_client option" where
  "build_slack_oauth_client s = build_client (oauth_slack_configured s) (slack_oauth_client_id s)
     (slack_oauth_client_secret s) (slack_oauth_redirect_uri s)"

definition build_credential_resolver :: "'w oauth_env \<Rightarrow> int \<Rightarrow> settings \<Rightarrow> refreshers" where
  "build_credential_resolver env now s =
     \<lparr>refresh_google = map_option (google_refresh env now) (build_google_oauth_client s),
      refresh_slack = map_option (slack_refresh env now) (build_slack_oauth_client s)\<rparr>"

section \<open>Email binding\<close>

definition resolve_binding_email :: "oidc option \<Rightarrow> settings \<Rightarrow> request \<Rightarrow> string result" where
  "resolve_binding_email authenticator s rq =
     (let from_header =
            (let raw = strip (header rq (api_email_header s))
             in if raw = [] then Inl (binding_error ''email claim required for OAuth connect'')
                else Inr (normalize_email raw))
      in case (bearer_token rq, authenticator) of
           (Some token, Some a) \<Rightarrow>
             (case email_from_token a token of
                Inl e \<Rightarrow>
                  Inl (if exc_class e = ''AuthDependencyError'' then binding_error ''authentication service unavailable''
                       else if exc_class e = ''AuthError'' then binding_error ''invalid or expired token''
                       else e)
              | Inr None \<Rightarrow> Inl (binding_error ''email claim required for OAuth connect'')
              | Inr (Some email) \<Rightarrow>
                  if email = [] then Inl (binding_error ''email claim required for OAuth connect'')
                  else Inr (normalize_email email))
         | _ \<Rightarrow> from_header)"

definition require_binding_email :: "pydict \<Rightarrow> string result" where
  "require_binding_email payload =
     (case get payload ''binding_email'' of
        PStr raw \<Rightarrow> if strip raw = [] then Inl (binding_error ''state missing binding_email'') else Inr (normalize_email raw)
      | _ \<Rightarrow> Inl (binding_error ''state missing binding_email''))"

definition assert_emails_match :: "string \<Rightarrow> string \<Rightarrow> unit result" where
  "assert_emails_match expected actual =
     (if normalize_email expected \<noteq> normalize_email actual
      then Inl (binding_error ''provider account does not match connected Atlas user'')
      else Inr ())"

definition GOOGLE_ISSUERS :: "string list" where
  "GOOGLE_ISSUERS = [''accounts.google.com'', ''https://accounts.google.com'']"

definition verify_google_id_token :: "'w oauth_env \<Rightarrow> string \<Rightarrow> string \<Rightarrow> pydict result" where
  "verify_google_id_token env id_token client_id =
     (case oe_id_token env id_token client_id of
        Inl e \<Rightarrow> Inl (if oe_is_jwt_error env e then binding_error ''invalid Google id_token'' else e)
      | Inr claims \<Rightarrow>
          (case get claims ''iss'' of
             PStr iss \<Rightarrow> if iss \<in> set GOOGLE_ISSUERS then Inr claims else Inl (binding_error ''invalid Google id_token'')
           | PList _ \<Rightarrow> Inl (Exn ''TypeError'' (''unhashable type: '' @ repr_str ''list''))
           | PDict _ \<Rightarrow> Inl (Exn ''TypeError'' (''unhashable type: '' @ repr_str ''dict''))
           | _ \<Rightarrow> Inl (binding_error ''invalid Google id_token'')))"

definition google_provider_email :: "'w oauth_env \<Rightarrow> oauth_client \<Rightarrow> pydict \<Rightarrow> (string \<times> string dict) result" where
  "google_provider_email env c token_response =
     (if \<not> truthy (get token_response ''id_token'') then Inl (binding_error ''Google OAuth response missing id_token'')
      else result_bind (verify_google_id_token env (py_str (get token_response ''id_token'')) (oc_id c)) (\<lambda>claims.
        if \<not> truthy (get claims ''email'') then Inl (binding_error ''Google id_token missing email claim'')
        else let email = normalize_email (py_str (get claims ''email''))
             in Inr (email, (''provider_email'', email) #
                  (if truthy (get claims ''sub'') then [(''google_sub'', py_str (get claims ''sub''))] else []))))"

definition SLACK_USERS_INFO_URL :: string where
  "SLACK_USERS_INFO_URL = ''https://slack.com/api/users.info''"

definition slack_profile :: "pydict \<Rightarrow> (string \<times> string dict) result" where
  "slack_profile data =
     (if \<not> truthy (get data ''ok'')
      then Inl (binding_error (py_str (get_default data ''error'' (PStr ''Slack users.info lookup failed''))))
      else
        result_bind (get_or_empty data ''user'') (\<lambda>user.
        result_bind (get_or_empty user ''profile'') (\<lambda>profile.
          if \<not> truthy (get profile ''email'') then Inl (binding_error ''Slack user profile missing email'')
          else let email = normalize_email (py_str (get profile ''email'')) in
        result_bind (get_or_empty data ''team'') (\<lambda>team.
          Inr (email, (''provider_email'', email) #
            (if truthy (get user ''id'') then [(''user_id'', py_str (get user ''id''))] else [])
            @ (if truthy (get team ''id'') then [(''team_id'', py_str (get team ''id''))] else []))))))"

definition slack_provider_email :: "'w oauth_env \<Rightarrow> string \<Rightarrow> string \<Rightarrow> 'w \<Rightarrow> (string \<times> string dict) result \<times> 'w" where
  "slack_provider_email env access_token uid w =
     (case oe_http_get env SLACK_USERS_INFO_URL [(''user'', uid)] (bearer access_token) w of
        (Inl e, w') \<Rightarrow> (Inl e, w')
      | (Inr rs, w') \<Rightarrow> (result_bind (json_of_success rs) slack_profile, w'))"

text \<open>The Slack user id: from the stored metadata, else from the token response.\<close>

definition slack_user_id :: "stored_credential \<Rightarrow> pydict \<Rightarrow> string result" where
  "slack_user_id cr token_response =
     (case dict_get (sc_metadata cr) ''user_id'' of
        Some (c # s) \<Rightarrow> Inr (c # s)
      | _ \<Rightarrow>
          result_bind (get_or_empty token_response ''authed_user'') (\<lambda>authed_user.
            if truthy (get authed_user ''id'') \<and> py_str (get authed_user ''id'') \<noteq> []
            then Inr (py_str (get authed_user ''id''))
            else Inl (binding_error ''Slack OAuth response missing user id'')))"

definition provider_email :: "'w oauth_env \<Rightarrow> oauth_provider \<Rightarrow> stored_credential \<Rightarrow> pydict \<Rightarrow> oauth_client option \<Rightarrow> 'w
    \<Rightarrow> (string \<times> string dict) result \<times> 'w" where
  "provider_email env provider cr token_response google_client w =
     (case provider of
        GOOGLE \<Rightarrow>
          (case google_client of
             None \<Rightarrow> (Inl (binding_error ''Google OAuth client not configured''), w)
           | Some c \<Rightarrow> (google_provider_email env c token_response, w))
      | SLACK \<Rightarrow>
          (case slack_user_id cr token_response of
             Inl e \<Rightarrow> (Inl e, w)
           | Inr uid \<Rightarrow> slack_provider_email env (sc_access_token cr) uid w))"

definition assert_provider_email_binding :: "'w oauth_env \<Rightarrow> oauth_provider \<Rightarrow> string \<Rightarrow> stored_credential \<Rightarrow> pydict
    \<Rightarrow> oauth_client option \<Rightarrow> 'w \<Rightarrow> stored_credential result \<times> 'w" where
  "assert_provider_email_binding env provider binding_email cr token_response google_client w =
     (case provider_email env provider cr token_response google_client w of
        (Inl e, w') \<Rightarrow> (Inl e, w')
      | (Inr (email, metadata), w') \<Rightarrow>
          (result_bind (assert_emails_match binding_email email) (\<lambda>_.
             Inr (cr\<lparr>sc_metadata := dict_merge (sc_metadata cr) metadata\<rparr>)), w'))"

section \<open>Handlers\<close>

record oauth_request =
  or_request :: request
  or_cookie :: "string option"
  or_hostname :: "string option"

text \<open>What the handlers get from the application: settings, authenticator, header names; and the operations of
  the vault, when there is one.\<close>

record oauth_app =
  oa_settings :: settings
  oa_authenticator :: "oidc option"
  oa_headers :: header_names

record 'v vault_ops =
  vo_put :: "principal \<Rightarrow> oauth_provider \<Rightarrow> stored_credential \<Rightarrow> 'v \<Rightarrow> 'v result"
  vo_delete :: "principal \<Rightarrow> oauth_provider \<Rightarrow> 'v \<Rightarrow> 'v result"
  vo_list :: "principal \<Rightarrow> 'v \<Rightarrow> oauth_provider list result"

datatype pending = Set_Pending string cookie_attrs | Clear_Pending

datatype oauth_answer = Json_Url string pending | Redirect_To string pending

definition require_vault :: "'v vault_ops option \<Rightarrow> 'v vault_ops reply" where
  "require_vault v = (case v of None \<Rightarrow> Inl (Http 503 ''Credential vault not configured.'') | Some x \<Rightarrow> Inr x)"

definition parse_provider :: "string \<Rightarrow> oauth_provider reply" where
  "parse_provider name =
     (case provider_of_value (lower name) of
        None \<Rightarrow> Inl (Http 404 (''Unknown provider: '' @ name)) | Some p \<Rightarrow> Inr p)"

definition request_is_secure :: "oauth_request \<Rightarrow> bool" where
  "request_is_secure rq = (lower (case or_hostname rq of None \<Rightarrow> [] | Some h \<Rightarrow> h) \<notin> {''127.0.0.1'', ''localhost''})"

definition vault_error :: "exn \<Rightarrow> http_exc" where
  "vault_error e =
     (if exc_class e = ''CredentialAccessError''
      then (if str_in ''temporarily unavailable'' (exc_msg e) then Http 503 (exc_msg e) else Http 403 (exc_msg e))
      else Unhandled e)"

text \<open>\<open>except OAuthStateError\<close> (and \<open>OAuthBindingError\<close>): 400 with the message.\<close>

definition bad_request :: "string set \<Rightarrow> 'a result \<Rightarrow> 'a reply" where
  "bad_request classes r =
     (case r of
        Inl e \<Rightarrow> Inl (if exc_class e \<in> classes then Http 400 (exc_msg e) else Unhandled e)
      | Inr x \<Rightarrow> Inr x)"

definition nonce_from_state :: "'w oauth_env \<Rightarrow> string \<Rightarrow> string result" where
  "nonce_from_state env state =
     (let body = (case rsplit1 (CHR ''.'') state of None \<Rightarrow> state | Some (b, _) \<Rightarrow> b)
      in result_bind (result_bind (b64decode (utf8 body)) (oe_loads env)) (\<lambda>v.
         result_bind (as_dict v) (\<lambda>payload.
           case get payload ''nonce'' of
             PStr (c # n) \<Rightarrow> Inr (c # n)
           | _ \<Rightarrow> Inl (state_error ''state missing nonce''))))"

definition authorization_url :: "'w oauth_env \<Rightarrow> settings \<Rightarrow> oauth_provider \<Rightarrow> string \<Rightarrow> string reply" where
  "authorization_url env s provider state =
     (case provider of
        GOOGLE \<Rightarrow> (case build_google_oauth_client s of
            None \<Rightarrow> Inl (Http 503 ''Google OAuth not configured.'') | Some c \<Rightarrow> Inr (google_authorization_url env c state))
      | SLACK \<Rightarrow> (case build_slack_oauth_client s of
            None \<Rightarrow> Inl (Http 503 ''Slack OAuth not configured.'') | Some c \<Rightarrow> Inr (slack_authorization_url env c state)))"

definition attach_pending_cookie :: "'w oauth_env \<Rightarrow> settings \<Rightarrow> string \<Rightarrow> bool \<Rightarrow> pending result" where
  "attach_pending_cookie env s state secure =
     result_bind (nonce_from_state env state) (\<lambda>nonce.
     result_bind (sign_pending_nonce env s nonce) (\<lambda>v. Inr (Set_Pending v (pending_cookie_kwargs secure))))"

definition CALLBACK_AUTH_HINT :: "string \<Rightarrow> string" where
  "CALLBACK_AUTH_HINT provider = ''Complete OAuth via authenticated POST /oauth/'' @ provider @ ''/callback ''
     @ ''or restart connect to receive a pending cookie.''"

text \<open>An exception that the function does not catch stays an exception: its caller may catch it.\<close>

definition resolve_callback_principal :: "'w oauth_env \<Rightarrow> oauth_app \<Rightarrow> oauth_request \<Rightarrow> pydict \<Rightarrow> string \<Rightarrow> principal reply" where
  "resolve_callback_principal env app rq payload provider =
     (let unhandled = (\<lambda>r :: principal result. case r of Inl e \<Rightarrow> Inl (Unhandled e) | Inr p \<Rightarrow> Inr p);
          hint = Inl (Http 401 (CALLBACK_AUTH_HINT provider))
      in case (bearer_token (or_request rq), oa_authenticator app) of
           (Some token, Some a) \<Rightarrow>
             (case principal_from_token a token of
                Inl e \<Rightarrow>
                  Inl (if exc_class e = ''AuthDependencyError'' then Http 503 ''Authentication service temporarily unavailable.''
                       else if exc_class e = ''AuthError'' then Http 401 ''Invalid or expired token.''
                       else Unhandled e)
              | Inr caller \<Rightarrow> unhandled (principal_from_state payload caller))
         | _ \<Rightarrow>
             (case (case or_cookie rq of
                      None \<Rightarrow> Inr False
                    | Some c \<Rightarrow> if c = [] then Inr False
                               else verify_oauth_pending_cookie env (oa_settings app) c payload) of
                Inl e \<Rightarrow> Inl (Unhandled e)
              | Inr True \<Rightarrow> unhandled (principal_from_payload payload)
              | Inr False \<Rightarrow>
                  if oa_authenticator app \<noteq> None then hint
                  else let caller = principal_from_headers (oa_headers app) (or_request rq)
                       in if caller \<noteq> anonymous then unhandled (principal_from_state payload caller) else hint))"

definition exchange_code :: "'w oauth_env \<Rightarrow> int \<Rightarrow> settings \<Rightarrow> oauth_provider \<Rightarrow> string \<Rightarrow> 'w \<Rightarrow> oauth_exchange reply \<times> 'w" where
  "exchange_code env now s provider code w =
     (case provider of
        GOOGLE \<Rightarrow> (case build_google_oauth_client s of
            None \<Rightarrow> (Inl (Http 503 ''Google OAuth not configured.''), w)
          | Some c \<Rightarrow> apfst (bad_request {}) (google_exchange_code env now c code w))
      | SLACK \<Rightarrow> (case build_slack_oauth_client s of
            None \<Rightarrow> (Inl (Http 503 ''Slack OAuth not configured.''), w)
          | Some c \<Rightarrow> apfst (bad_request {}) (slack_exchange_code env now c code w)))"

text \<open>The checks of \<open>_complete_oauth_callback\<close> before the exchange: they give the binding email.\<close>

definition callback_email :: "'w oauth_env \<Rightarrow> settings \<Rightarrow> int \<Rightarrow> oauth_provider \<Rightarrow> string \<Rightarrow> principal \<Rightarrow> string reply" where
  "callback_email env s now provider state bound =
     bad_request {''OAuthStateError'', ''OAuthBindingError''}
       (result_bind (consume_oauth_state env s now state) (\<lambda>payload.
          if get payload ''provider'' \<noteq> PStr (provider_value provider) then Inl (state_error ''provider mismatch'')
          else if \<not> names_principal payload bound then Inl (state_error ''state principal mismatch'')
          else require_binding_email payload))"

definition complete_oauth_callback :: "'w oauth_env \<Rightarrow> settings \<Rightarrow> 'v vault_ops \<Rightarrow> int \<Rightarrow> int \<Rightarrow> oauth_provider \<Rightarrow> string \<Rightarrow> string
    \<Rightarrow> principal \<Rightarrow> 'w \<Rightarrow> 'v \<Rightarrow> string reply \<times> 'w \<times> 'v" where
  "complete_oauth_callback env s vault now micros provider code state bound w v =
     (case callback_email env s now provider state bound of
        Inl e \<Rightarrow> (Inl e, w, v)
      | Inr binding_email \<Rightarrow>
          (case exchange_code env micros s provider code w of
             (Inl e, w1) \<Rightarrow> (Inl e, w1, v)
           | (Inr ex, w1) \<Rightarrow>
               (case assert_provider_email_binding env provider binding_email (ox_credential ex) (ox_response ex)
                   (if provider = GOOGLE then build_google_oauth_client s else None) w1 of
                  (Inl e, w2) \<Rightarrow>
                    (Inl (if exc_class e = ''OAuthBindingError'' then Http 400 (exc_msg e) else Unhandled e), w2, v)
                | (Inr cr, w2) \<Rightarrow>
                    (case vo_put vault bound provider cr v of
                       Inl e \<Rightarrow> (Inl (vault_error e), w2, v)
                     | Inr v' \<Rightarrow>
                         (Inr (case oauth_success_url s of Some (c # u) \<Rightarrow> c # u | _ \<Rightarrow> ''/oauth/connections''), w2, v')))))"

definition list_connections :: "'v vault_ops option \<Rightarrow> principal \<Rightarrow> 'v \<Rightarrow> string list reply" where
  "list_connections vault p v =
     reply_bind (require_vault vault) (\<lambda>ops.
       case vo_list ops p v of Inl e \<Rightarrow> Inl (vault_error e) | Inr ps \<Rightarrow> Inr (map provider_value ps))"

definition oauth_connect :: "'w oauth_env \<Rightarrow> oauth_app \<Rightarrow> string \<Rightarrow> oauth_request \<Rightarrow> principal \<Rightarrow> string \<Rightarrow> int \<Rightarrow> oauth_answer reply" where
  "oauth_connect env app provider rq p nonce now =
     reply_bind (parse_provider provider) (\<lambda>prov.
       if org_id p = None then Inl (Http 400 ''org_id is required for OAuth connect.'')
       else
         reply_bind (bad_request {''OAuthBindingError''}
             (resolve_binding_email (oa_authenticator app) (oa_settings app) (or_request rq))) (\<lambda>email.
         reply_bind (bad_request {} (issue_oauth_state env (oa_settings app) p prov email nonce now 600)) (\<lambda>state.
         reply_bind (authorization_url env (oa_settings app) prov state) (\<lambda>url.
         reply_bind (bad_request {} (attach_pending_cookie env (oa_settings app) state (request_is_secure rq))) (\<lambda>cookie.
           Inr (if str_in ''application/json'' (header (or_request rq) ''accept'') then Json_Url url cookie
                else Redirect_To url cookie))))))"

text \<open>The two clock readings: of the route and of the completion.\<close>

definition oauth_callback_get :: "'w oauth_env \<Rightarrow> oauth_app \<Rightarrow> 'v vault_ops option \<Rightarrow> string \<Rightarrow> oauth_request \<Rightarrow> string \<Rightarrow> string
    \<Rightarrow> int \<Rightarrow> int \<Rightarrow> int \<Rightarrow> 'w \<Rightarrow> 'v \<Rightarrow> oauth_answer reply \<times> 'w \<times> 'v" where
  "oauth_callback_get env app vault provider rq code state now1 now2 micros w v =
     (case reply_bind (require_vault vault) (\<lambda>ops.
           reply_bind (parse_provider provider) (\<lambda>prov.
           reply_bind (bad_request {''OAuthStateError''} (consume_oauth_state env (oa_settings app) now1 state)) (\<lambda>payload.
           reply_bind (resolve_callback_principal env app rq payload provider) (\<lambda>bound.
             Inr (ops, prov, bound))))) of
        Inl e \<Rightarrow> (Inl e, w, v)
      | Inr (ops, prov, bound) \<Rightarrow>
          (case complete_oauth_callback env (oa_settings app) ops now2 micros prov code state bound w v of
             (Inl e, w', v') \<Rightarrow> (Inl e, w', v')
           | (Inr success, w', v') \<Rightarrow> (Inr (Redirect_To success Clear_Pending), w', v')))"

definition oauth_callback_post :: "'w oauth_env \<Rightarrow> oauth_app \<Rightarrow> 'v vault_ops option \<Rightarrow> string \<Rightarrow> string \<Rightarrow> string \<Rightarrow> principal
    \<Rightarrow> int \<Rightarrow> int \<Rightarrow> int \<Rightarrow> 'w \<Rightarrow> 'v \<Rightarrow> oauth_answer reply \<times> 'w \<times> 'v" where
  "oauth_callback_post env app vault provider code state p now1 now2 micros w v =
     (case reply_bind (require_vault vault) (\<lambda>ops.
           reply_bind (parse_provider provider) (\<lambda>prov.
           reply_bind (bad_request {''OAuthStateError''}
               (result_bind (consume_oauth_state env (oa_settings app) now1 state) (\<lambda>payload.
                  principal_from_state payload p))) (\<lambda>bound.
             Inr (ops, prov, bound)))) of
        Inl e \<Rightarrow> (Inl e, w, v)
      | Inr (ops, prov, bound) \<Rightarrow>
          (case complete_oauth_callback env (oa_settings app) ops now2 micros prov code state bound w v of
             (Inl e, w', v') \<Rightarrow> (Inl e, w', v')
           | (Inr success, w', v') \<Rightarrow> (Inr (Redirect_To success Clear_Pending), w', v')))"

definition oauth_revoke :: "'v vault_ops option \<Rightarrow> string \<Rightarrow> principal \<Rightarrow> 'v \<Rightarrow> string reply \<times> 'v" where
  "oauth_revoke vault provider p v =
     (case reply_bind (require_vault vault) (\<lambda>ops. reply_bind (parse_provider provider) (\<lambda>prov. Inr (ops, prov))) of
        Inl e \<Rightarrow> (Inl e, v)
      | Inr (ops, prov) \<Rightarrow>
          (case vo_delete ops p prov v of
             Inl e \<Rightarrow> (Inl (vault_error e), v)
           | Inr v' \<Rightarrow> (Inr (provider_value prov), v')))"

section \<open>Reading back a state\<close>

lemma dict_get_sort_key:
  assumes "dict_ok (d :: 'a dict)" shows "dict_get (sort_key fst d) k = dict_get d k"
proof -
  have d: "distinct (map fst d)" using assms by (simp add: dict_ok_def dict_keys_def)
  then have "distinct (map fst (sort_key fst d))"
    by (metis mset_map mset_sort mset_eq_imp_distinct_iff)
  then show ?thesis using map_of_inject_set [OF _ d, of "sort_key fst d"] by simp
qed

lemma canon_opt_val [simp]: "canon (opt_val x) = opt_val x"
  by (simp add: opt_val_def split: option.split)

lemma canon_state_payload:
  "\<exists>d. canon (state_payload p provider email nonce t) = PDict d \<and>
     get d ''user_id'' = PStr (user_id p) \<and> get d ''org_id'' = opt_val (org_id p) \<and>
     get d ''provider'' = PStr (provider_value provider) \<and> get d ''binding_email'' = PStr (normalize_email email) \<and>
     get d ''nonce'' = PStr nonce \<and> get_default d ''exp'' (PInt 0) = PInt t"
proof -
  have "dict_ok [(''user_id'', PStr (user_id p)), (''org_id'', opt_val (org_id p)), (''provider'', PStr (provider_value provider)),
      (''binding_email'', PStr (normalize_email email)), (''nonce'', PStr nonce), (''exp'', PInt t)]"
    by (simp add: dict_ok_def dict_keys_def)
  note g = dict_get_sort_key [OF this]
  show ?thesis by (simp add: state_payload_def get_default_def g del: sort_key_simps)
qed

definition hex_mac :: "'w oauth_env \<Rightarrow> bool" where
  "hex_mac env \<longleftrightarrow> (\<forall>key m. list_all (\<lambda>c. is_digit c \<or> c \<in> set ''abcdef'') (oe_mac env key m))"

lemma hex_macD: "hex_mac env \<Longrightarrow> list_all (\<lambda>c. cp c < 128) (oe_mac env key m) \<and> CHR ''.'' \<notin> set (oe_mac env key m)"
proof -
  assume "hex_mac env"
  then have h: "is_digit c \<or> c \<in> set ''abcdef''" if "c \<in> set (oe_mac env key m)" for c
    using that unfolding hex_mac_def list_all_iff by blast
  have "cp c < 128 \<and> c \<noteq> CHR ''.''" if "is_digit c \<or> c \<in> set ''abcdef''" for c
    using that by (auto simp: is_digit_def)
  with h show ?thesis unfolding list_all_iff by blast
qed

text \<open>A state that is accepted was signed with the key, decodes to the payload and is not expired.\<close>

definition accepted_state :: "'w oauth_env \<Rightarrow> settings \<Rightarrow> int \<Rightarrow> string \<Rightarrow> pydict \<Rightarrow> bool" where
  "accepted_state env s now state payload \<longleftrightarrow>
     (\<exists>key body sig bytes t. oauth_state_key s = Inr key \<and> rsplit1 (CHR ''.'') state = Some (body, sig) \<and>
        sig = oe_mac env key (utf8 body) \<and> b64decode (utf8 body) = Inr bytes \<and> oe_loads env bytes = Inr (PDict payload) \<and>
        py_int (get_default payload ''exp'' (PInt 0)) = Inr t \<and> now \<le> t)"

lemma consume_accepted: "consume_oauth_state env s now state = Inr payload \<Longrightarrow> accepted_state env s now state payload"
  unfolding consume_oauth_state_def accepted_state_def
  by (auto simp: result_bind_Inr_iff compare_digest_def as_dict_def not_less
      split: option.splits if_splits sum.splits pyval.splits)

lemma issue_consume:
  assumes "issue_oauth_state env s p provider email nonce now ttl = Inr state" "hex_mac env"
    and "oe_loads env (json_dumps (canon (state_payload p provider email nonce (now + ttl)))) =
      Inr (canon (state_payload p provider email nonce (now + ttl)))"
  obtains d key where "canon (state_payload p provider email nonce (now + ttl)) = PDict d" "oauth_state_key s = Inr key"
    "consume_oauth_state env s t state = (if now + ttl < t then Inl (state_error ''expired state'') else Inr d)"
    "nonce \<noteq> [] \<Longrightarrow> nonce_from_state env state = Inr nonce"
proof -
  let ?body = "b64encode (json_dumps (canon (state_payload p provider email nonce (now + ttl))))"
  obtain key where k: "oauth_state_key s = Inr key" "state = ?body @ ''.'' @ oe_mac env key (utf8 ?body)"
    using assms(1) by (auto simp: issue_oauth_state_def result_bind_Inr_iff Let_def)
  have sig: "list_all (\<lambda>c. cp c < 128) (oe_mac env key (utf8 ?body))" "CHR ''.'' \<notin> set (oe_mac env key (utf8 ?body))"
    using hex_macD [OF assms(2)] by blast+
  have u: "utf8 ?body = ?body" using b64encode_chars by (intro utf8_ascii) blast
  have r: "rsplit1 (CHR ''.'') state = Some (?body, oe_mac env key (utf8 ?body))" using sig(2) k(2) by simp
  obtain d where d: "canon (state_payload p provider email nonce (now + ttl)) = PDict d"
    "get d ''nonce'' = PStr nonce" "get_default d ''exp'' (PInt 0) = PInt (now + ttl)"
    using canon_state_payload [of p provider email nonce "now + ttl"] by blast
  have l: "result_bind (b64decode (utf8 ?body)) (oe_loads env) = Inr (PDict d)"
    by (simp only: u b64_roundtrip result_bind_simps assms(3)) (rule d(1) [THEN arg_cong])
  have "consume_oauth_state env s t state = (if now + ttl < t then Inl (state_error ''expired state'') else Inr d)"
    using sig(1) by (simp add: consume_oauth_state_def r k(1) compare_digest_def l as_dict_def d(3) py_int_def)
  moreover have "nonce_from_state env state = Inr nonce" if "nonce \<noteq> []"
    using that by (simp add: nonce_from_state_def r l as_dict_def d(2) Let_def split: list.split)
  ultimately show ?thesis using that d(1) k(1) by blast
qed

section \<open>What a completed callback has checked\<close>

definition bound_credential :: "'w oauth_env \<Rightarrow> settings \<Rightarrow> int \<Rightarrow> int \<Rightarrow> oauth_provider \<Rightarrow> string \<Rightarrow> string \<Rightarrow> principal
    \<Rightarrow> 'w \<Rightarrow> 'w \<Rightarrow> stored_credential \<Rightarrow> bool" where
  "bound_credential env s now micros prov code state bound w w' cr \<longleftrightarrow>
     (\<exists>payload email ex w1 pe metadata.
        accepted_state env s now state payload \<and> get payload ''provider'' = PStr (provider_value prov) \<and>
        names_principal payload bound \<and> require_binding_email payload = Inr email \<and>
        exchange_code env micros s prov code w = (Inr ex, w1) \<and>
        provider_email env prov (ox_credential ex) (ox_response ex)
          (if prov = GOOGLE then build_google_oauth_client s else None) w1 = (Inr (pe, metadata), w') \<and>
        normalize_email pe = normalize_email email \<and>
        cr = (ox_credential ex)\<lparr>sc_metadata := dict_merge (sc_metadata (ox_credential ex)) metadata\<rparr>)"

lemma bad_request_Inr: "bad_request cs r = Inr x \<longleftrightarrow> r = Inr x"
  by (simp add: bad_request_def split: sum.splits)

lemma callback_email_Inr:
  assumes "callback_email env s now prov state bound = Inr email"
  obtains payload where "accepted_state env s now state payload" "get payload ''provider'' = PStr (provider_value prov)"
    "names_principal payload bound" "require_binding_email payload = Inr email"
  using assms unfolding callback_email_def bad_request_Inr
  by (auto simp: result_bind_Inr_iff split: if_splits dest: consume_accepted)

lemma binding_Inr:
  "assert_provider_email_binding env prov email cr resp gc w = (Inr cr', w') \<longleftrightarrow>
   (\<exists>pe metadata. provider_email env prov cr resp gc w = (Inr (pe, metadata), w') \<and>
      normalize_email email = normalize_email pe \<and> cr' = cr\<lparr>sc_metadata := dict_merge (sc_metadata cr) metadata\<rparr>)"
  by (auto simp: assert_provider_email_binding_def assert_emails_match_def result_bind_Inr_iff
      split: prod.splits sum.splits)

lemma complete_Inr:
  assumes "complete_oauth_callback env s vault now micros prov code state bound w v = (Inr x, w', v')"
  obtains cr where "bound_credential env s now micros prov code state bound w w' cr" "vo_put vault bound prov cr v = Inr v'"
proof -
  obtain email where e: "callback_email env s now prov state bound = Inr email"
    using assms by (cases "callback_email env s now prov state bound") (auto simp: complete_oauth_callback_def)
  obtain ex w1 where x: "exchange_code env micros s prov code w = (Inr ex, w1)"
    using assms e by (cases "exchange_code env micros s prov code w"; cases "fst (exchange_code env micros s prov code w)")
      (auto simp: complete_oauth_callback_def)
  let ?b = "assert_provider_email_binding env prov email (ox_credential ex) (ox_response ex)
      (if prov = GOOGLE then build_google_oauth_client s else None) w1"
  obtain cr w2 where b: "?b = (Inr cr, w2)"
    using assms e x by (cases ?b; cases "fst ?b") (auto simp: complete_oauth_callback_def)
  have p: "vo_put vault bound prov cr v = Inr v'" "w2 = w'"
    using assms e x b by (cases "vo_put vault bound prov cr v"; simp add: complete_oauth_callback_def)+
  obtain payload where a: "accepted_state env s now state payload" "get payload ''provider'' = PStr (provider_value prov)"
    "names_principal payload bound" "require_binding_email payload = Inr email" using callback_email_Inr [OF e] by blast
  obtain pe metadata where m: "provider_email env prov (ox_credential ex) (ox_response ex)
      (if prov = GOOGLE then build_google_oauth_client s else None) w1 = (Inr (pe, metadata), w2)"
    "normalize_email email = normalize_email pe"
    "cr = (ox_credential ex)\<lparr>sc_metadata := dict_merge (sc_metadata (ox_credential ex)) metadata\<rparr>"
    using b unfolding binding_Inr by blast
  have "bound_credential env s now micros prov code state bound w w' cr"
    unfolding bound_credential_def
    by (intro exI [of _ payload] exI [of _ email] exI [of _ ex] exI [of _ w1] exI [of _ pe] exI [of _ metadata])
      (use a m x p(2) in simp)
  then show ?thesis using p(1) by (rule that)
qed

lemma complete_Inl:
  assumes "complete_oauth_callback env s vault now micros prov code state bound w v = (Inl e, w', v')"
  shows "v' = v"
  using assms by (auto simp: complete_oauth_callback_def split: sum.splits prod.splits)

definition authenticated_as :: "'w oauth_env \<Rightarrow> oauth_app \<Rightarrow> oauth_request \<Rightarrow> pydict \<Rightarrow> principal \<Rightarrow> bool" where
  "authenticated_as env app rq payload bound \<longleftrightarrow>
     (\<exists>a token. oa_authenticator app = Some a \<and> bearer_token (or_request rq) = Some token \<and>
        principal_from_token a token = Inr bound) \<or>
     (\<exists>key nonce. oauth_state_key (oa_settings app) = Inr key \<and> get payload ''nonce'' = PStr nonce \<and> nonce \<noteq> [] \<and>
        or_cookie rq = Some (oe_mac env key (utf8 nonce))) \<or>
     (oa_authenticator app = None \<and> bound = principal_from_headers (oa_headers app) (or_request rq) \<and> bound \<noteq> anonymous)"

lemma principal_from_state_Inr: "principal_from_state payload caller = Inr p \<Longrightarrow> p = caller \<and> p \<noteq> anonymous \<and> names_principal payload p"
  by (auto simp: principal_from_state_def split: if_splits)

lemma verify_cookie_True:
  assumes "verify_oauth_pending_cookie env s c payload = Inr True"
  shows "\<exists>key nonce. oauth_state_key s = Inr key \<and> get payload ''nonce'' = PStr nonce \<and> nonce \<noteq> [] \<and>
    c = oe_mac env key (utf8 nonce)"
  using assms by (auto simp: verify_oauth_pending_cookie_def sign_pending_nonce_def result_bind_Inr_iff compare_digest_def
      split: pyval.splits list.splits if_splits)

lemma resolve_callback_principal_Inr:
  assumes "resolve_callback_principal env app rq payload provider = Inr bound"
  shows "authenticated_as env app rq payload bound"
  using assms unfolding resolve_callback_principal_def authenticated_as_def Let_def
  by (auto split: option.splits sum.splits if_splits bool.splits
      dest!: principal_from_state_Inr verify_cookie_True)

section \<open>Properties\<close>

definition mem_ops :: "mem_vault vault_ops" where
  "mem_ops = \<lparr>vo_put = mem_vault_put, vo_delete = mem_vault_delete, vo_list = mem_vault_list_connected\<rparr>"

text \<open>A state that was issued is accepted until it expires and not after; it names the principal, the
  provider and the email it was issued for, and the cookie that connect sets with it is the one that the
  callback expects. The MAC is hexadecimal text, and the JSON parser reads back what was written.\<close>

theorem oauth_state_roundtrip:
  assumes "issue_oauth_state env s p provider email nonce now ttl = Inr state" "hex_mac env" "nonce \<noteq> []"
    and "oe_loads env (json_dumps (canon (state_payload p provider email nonce (now + ttl)))) =
      Inr (canon (state_payload p provider email nonce (now + ttl)))"
  shows "(now + ttl < t \<longrightarrow> consume_oauth_state env s t state = Inl (state_error ''expired state'')) \<and>
    (t \<le> now + ttl \<longrightarrow>
      (\<exists>payload cookie.
         consume_oauth_state env s t state = Inr payload \<and> names_principal payload p \<and>
         get payload ''provider'' = PStr (provider_value provider) \<and>
         (strip email \<noteq> [] \<longrightarrow> require_binding_email payload = Inr (normalize_email email)) \<and>
         attach_pending_cookie env s state secure = Inr (Set_Pending cookie (pending_cookie_kwargs secure)) \<and>
         verify_oauth_pending_cookie env s cookie payload = Inr True))"
proof -
  obtain d key where d: "canon (state_payload p provider email nonce (now + ttl)) = PDict d" "oauth_state_key s = Inr key"
    "consume_oauth_state env s t state = (if now + ttl < t then Inl (state_error ''expired state'') else Inr d)"
    "nonce_from_state env state = Inr nonce"
    using issue_consume [OF assms(1,2,4), of t] assms(3) by metis
  have g: "get d ''user_id'' = PStr (user_id p)" "get d ''org_id'' = opt_val (org_id p)"
    "get d ''provider'' = PStr (provider_value provider)" "get d ''binding_email'' = PStr (normalize_email email)"
    "get d ''nonce'' = PStr nonce"
    using canon_state_payload [of p provider email nonce "now + ttl"] d(1) by auto
  have h: "list_all (\<lambda>c. cp c < 128) (oe_mac env key (utf8 nonce))" using hex_macD [OF assms(2)] by blast
  have "attach_pending_cookie env s state secure =
      Inr (Set_Pending (oe_mac env key (utf8 nonce)) (pending_cookie_kwargs secure))"
    by (simp add: attach_pending_cookie_def d sign_pending_nonce_def)
  moreover have "verify_oauth_pending_cookie env s (oe_mac env key (utf8 nonce)) d = Inr True"
    using h assms(3) by (cases nonce) (auto simp: verify_oauth_pending_cookie_def g sign_pending_nonce_def d compare_digest_def)
  moreover have "strip email \<noteq> [] \<longrightarrow> require_binding_email d = Inr (normalize_email email)"
    by (simp add: require_binding_email_def g normalize_email_def strip_lower)
  ultimately show ?thesis using d(3) g by (auto simp: names_principal_def)
qed

definition demo_oauth_settings :: settings where
  "demo_oauth_settings = default_settings\<lparr>oauth_state_secret := Some ''k'', slack_oauth_client_id := Some ''id'',
     slack_oauth_client_secret := Some ''x'', slack_oauth_redirect_uri := Some ''https://a/cb''\<rparr>"

definition demo_payload :: pyval where
  "demo_payload = state_payload demo_owner SLACK ''Bob@Acme.io'' ''n1'' 1600"

text \<open>A provider that knows one code and one account; the MAC writes its key and the length of its input.\<close>

definition demo_oauth :: "nat oauth_env" where
  "demo_oauth = \<lparr>oe_mac = \<lambda>key m. nat_str (length key) @ nat_str (length m),
     oe_loads = \<lambda>b. if b = json_dumps (canon demo_payload) then Inr (canon demo_payload) else Inl (Exn ''JSONDecodeError'' []),
     oe_authorize = \<lambda>c url params. url,
     oe_fetch_token = \<lambda>c url code w. (Inr [(''ok'', PBool True),
       (''authed_user'', PDict [(''id'', PStr ''U1''), (''access_token'', PStr code)])], Suc w),
     oe_refresh_token = \<lambda>c url token. Inl (Exn ''OAuthError'' []),
     oe_id_token = \<lambda>token cid. Inl (Exn ''PyJWTError'' []), oe_is_jwt_error = \<lambda>e. True,
     oe_http_get = \<lambda>url params headers w. (Inr \<lparr>rs_status = 200, rs_json = Inr (PDict [(''ok'', PBool True),
       (''user'', PDict [(''id'', PStr ''U1''), (''profile'', PDict [(''email'', PStr ''bob@acme.io'')])])]),
       rs_status_error = []\<rparr>, Suc w)\<rparr>"

lemma demo_hex_mac: "hex_mac demo_oauth"
  using nat_str_digits by (auto simp: hex_mac_def demo_oauth_def list_all_iff)

definition demo_oauth_state :: string where
  "demo_oauth_state = (case issue_oauth_state demo_oauth demo_oauth_settings demo_owner SLACK ''Bob@Acme.io'' ''n1'' 1000 600 of
     Inr x \<Rightarrow> x | Inl _ \<Rightarrow> [])"

lemma demo_issue:
  "issue_oauth_state demo_oauth demo_oauth_settings demo_owner SLACK ''Bob@Acme.io'' ''n1'' 1000 600 = Inr demo_oauth_state"
proof -
  have "is_ok (issue_oauth_state demo_oauth demo_oauth_settings demo_owner SLACK ''Bob@Acme.io'' ''n1'' 1000 600)"
    by (simp add: issue_oauth_state_def oauth_state_key_def demo_oauth_settings_def strip_no_space is_space_def Let_def)
  then show ?thesis by (auto simp: demo_oauth_state_def is_ok_def split: sum.splits)
qed

lemma demo_loads:
  "oe_loads demo_oauth (json_dumps (canon (state_payload demo_owner SLACK ''Bob@Acme.io'' ''n1'' (1000 + 600)))) =
   Inr (canon (state_payload demo_owner SLACK ''Bob@Acme.io'' ''n1'' (1000 + 600)))"
  by (simp add: demo_oauth_def demo_payload_def)

theorem oauth_state_roundtrip_witness:
  "consume_oauth_state demo_oauth demo_oauth_settings 1601 demo_oauth_state = Inl (state_error ''expired state'') \<and>
   (\<exists>payload. consume_oauth_state demo_oauth demo_oauth_settings 1600 demo_oauth_state = Inr payload \<and>
      names_principal payload demo_owner)"
  using oauth_state_roundtrip [OF demo_issue demo_hex_mac _ demo_loads, of 1601]
    oauth_state_roundtrip [OF demo_issue demo_hex_mac _ demo_loads, of 1600] by auto

text \<open>C38: a callback stores a token only for the user it belongs to. When a callback completes: the state carries a
  valid signature, is not expired and names the provider and the bound principal; that principal is the
  verified caller, or the one whose pending cookie the browser shows, or (without token verification)
  the header identity; the account that the provider reports has the email that was fixed at connect;
  and the vault holds the new credential for that principal and is otherwise unchanged. A callback that
  fails leaves the vault as it was.\<close>

theorem callback_stores_bound_credential:
  "(oauth_callback_get env app (Some mem_ops) provider rq code state now1 now2 micros w v = (Inl e, w', v') \<longrightarrow> v' = v) \<and>
   (oauth_callback_get env app (Some mem_ops) provider rq code state now1 now2 micros w v = (Inr ans, w', v') \<longrightarrow>
     (\<exists>prov bound cr payload. provider_of_value (lower provider) = Some prov \<and>
        accepted_state env (oa_settings app) now1 state payload \<and> authenticated_as env app rq payload bound \<and>
        bound_credential env (oa_settings app) now2 micros prov code state bound w w' cr \<and>
        mem_vault_get bound prov v' = Inr (Some cr) \<and>
        (\<forall>q b. (org_id q, user_id q, b) \<noteq> (org_id bound, user_id bound, prov) \<longrightarrow> mem_vault_get q b v' = mem_vault_get q b v))) \<and>
   (oauth_callback_post env app (Some mem_ops) provider code state p now1 now2 micros w v = (Inl e, w', v') \<longrightarrow> v' = v) \<and>
   (oauth_callback_post env app (Some mem_ops) provider code state p now1 now2 micros w v = (Inr ans, w', v') \<longrightarrow>
     (\<exists>prov cr. provider_of_value (lower provider) = Some prov \<and> p \<noteq> anonymous \<and>
        bound_credential env (oa_settings app) now2 micros prov code state p w w' cr \<and>
        mem_vault_get p prov v' = Inr (Some cr) \<and>
        (\<forall>q b. (org_id q, user_id q, b) \<noteq> (org_id p, user_id p, prov) \<longrightarrow> mem_vault_get q b v' = mem_vault_get q b v)))"
proof -
  have prov: "parse_provider provider = Inr prov \<longleftrightarrow> provider_of_value (lower provider) = Some prov" for prov
    by (simp add: parse_provider_def split: option.split)
  have vault: "mem_vault_get bound prov v' = Inr (Some cr)"
      "(org_id q, user_id q, b) \<noteq> (org_id bound, user_id bound, prov) \<Longrightarrow> mem_vault_get q b v' = mem_vault_get q b v"
    if "vo_put mem_ops bound prov cr v = Inr v'" for bound prov cr q b
    using that mem_vault.get_put [of bound prov cr v v'] mem_vault.get_put_other [of bound prov cr v v' q b]
    by (simp_all add: mem_ops_def)
  have get: "case r of Inl e \<Rightarrow> v' = v | Inr ans \<Rightarrow> \<exists>prov bound payload cr. parse_provider provider = Inr prov \<and>
        consume_oauth_state env (oa_settings app) now1 state = Inr payload \<and>
        resolve_callback_principal env app rq payload provider = Inr bound \<and>
        bound_credential env (oa_settings app) now2 micros prov code state bound w w' cr \<and>
        vo_put mem_ops bound prov cr v = Inr v'"
    if "oauth_callback_get env app (Some mem_ops) provider rq code state now1 now2 micros w v = (r, w', v')" for r
    using that unfolding oauth_callback_get_def require_vault_def
    by (auto simp: reply_bind_Inr_iff bad_request_Inr split: sum.splits prod.splits
        dest: complete_Inl elim!: complete_Inr)
  have post: "case r of Inl e \<Rightarrow> v' = v | Inr ans \<Rightarrow> \<exists>prov payload cr. parse_provider provider = Inr prov \<and>
        principal_from_state payload p = Inr p \<and>
        bound_credential env (oa_settings app) now2 micros prov code state p w w' cr \<and>
        vo_put mem_ops p prov cr v = Inr v'"
    if "oauth_callback_post env app (Some mem_ops) provider code state p now1 now2 micros w v = (r, w', v')" for r
    using that unfolding oauth_callback_post_def require_vault_def
    by (auto simp: reply_bind_Inr_iff bad_request_Inr result_bind_Inr_iff split: sum.splits prod.splits
        dest: complete_Inl principal_from_state_Inr elim!: complete_Inr)
  show ?thesis
  proof (intro conjI impI)
    assume a: "oauth_callback_get env app (Some mem_ops) provider rq code state now1 now2 micros w v = (Inr ans, w', v')"
    then obtain prov bound payload cr where h: "parse_provider provider = Inr prov"
      "consume_oauth_state env (oa_settings app) now1 state = Inr payload"
      "resolve_callback_principal env app rq payload provider = Inr bound"
      "bound_credential env (oa_settings app) now2 micros prov code state bound w w' cr"
      "vo_put mem_ops bound prov cr v = Inr v'" using get [OF a] by auto
    show "\<exists>prov bound cr payload. provider_of_value (lower provider) = Some prov \<and>
        accepted_state env (oa_settings app) now1 state payload \<and> authenticated_as env app rq payload bound \<and>
        bound_credential env (oa_settings app) now2 micros prov code state bound w w' cr \<and>
        mem_vault_get bound prov v' = Inr (Some cr) \<and>
        (\<forall>q b. (org_id q, user_id q, b) \<noteq> (org_id bound, user_id bound, prov) \<longrightarrow> mem_vault_get q b v' = mem_vault_get q b v)"
      using h(1) [unfolded prov] consume_accepted [OF h(2)] resolve_callback_principal_Inr [OF h(3)] h(4) vault [OF h(5)]
      by blast
  next
    assume a: "oauth_callback_post env app (Some mem_ops) provider code state p now1 now2 micros w v = (Inr ans, w', v')"
    then obtain prov payload cr where h: "parse_provider provider = Inr prov" "principal_from_state payload p = Inr p"
      "bound_credential env (oa_settings app) now2 micros prov code state p w w' cr"
      "vo_put mem_ops p prov cr v = Inr v'" using post [OF a] by auto
    show "\<exists>prov cr. provider_of_value (lower provider) = Some prov \<and> p \<noteq> anonymous \<and>
        bound_credential env (oa_settings app) now2 micros prov code state p w w' cr \<and>
        mem_vault_get p prov v' = Inr (Some cr) \<and>
        (\<forall>q b. (org_id q, user_id q, b) \<noteq> (org_id p, user_id p, prov) \<longrightarrow> mem_vault_get q b v' = mem_vault_get q b v)"
      using h(1) [unfolded prov] principal_from_state_Inr [OF h(2)] h(3) vault [OF h(4)] by blast
  qed (use get post in force)+
qed

definition demo_app :: oauth_app where
  "demo_app = \<lparr>oa_settings = demo_oauth_settings, oa_authenticator = None,
     oa_headers = \<lparr>hn_user = ''X-Atlas-User-Id'', hn_roles = ''X-Atlas-Roles'', hn_org = ''X-Atlas-Org''\<rparr>\<rparr>"

lemma demo_consume:
  "\<exists>d. consume_oauth_state demo_oauth demo_oauth_settings 1500 demo_oauth_state = Inr d \<and> names_principal d demo_owner \<and>
     get d ''provider'' = PStr (provider_value SLACK) \<and> require_binding_email d = Inr ''bob@acme.io''"
proof -
  obtain d key where "canon (state_payload demo_owner SLACK ''Bob@Acme.io'' ''n1'' (1000 + 600)) = PDict d"
    "oauth_state_key demo_oauth_settings = Inr key"
    "consume_oauth_state demo_oauth demo_oauth_settings 1500 demo_oauth_state =
       (if 1000 + 600 < (1500 :: int) then Inl (state_error ''expired state'') else Inr d)"
    by (rule issue_consume [OF demo_issue demo_hex_mac demo_loads, of 1500]) (rule that)
  moreover have "normalize_email ''Bob@Acme.io'' = ''bob@acme.io''" "strip ''bob@acme.io'' = ''bob@acme.io''"
    "normalize_email ''bob@acme.io'' = ''bob@acme.io''" by code_simp+
  ultimately show ?thesis
    using canon_state_payload [of demo_owner SLACK "''Bob@Acme.io''" "''n1''" "1000 + 600"]
    by (auto simp: names_principal_def require_binding_email_def)
qed

definition demo_stored :: stored_credential where
  "demo_stored = \<lparr>sc_provider = SLACK, sc_scopes = SLACK_OAUTH_USER_SCOPES, sc_access_token = ''tok'', sc_refresh_token = None,
     sc_expires_at = None, sc_token_type = ''Bearer'',
     sc_metadata = [(''user_id'', ''U1''), (''provider_email'', ''bob@acme.io'')]\<rparr>"

lemma demo_complete:
  "complete_oauth_callback demo_oauth demo_oauth_settings mem_ops 1500 0 SLACK ''tok'' demo_oauth_state demo_owner 0 [] =
     (Inr ''/oauth/connections'', 2, [((the (org_id demo_owner), user_id demo_owner, SLACK), demo_stored)])"
proof -
  have e: "callback_email demo_oauth demo_oauth_settings 1500 SLACK demo_oauth_state demo_owner = Inr ''bob@acme.io''"
    using demo_consume by (auto simp: callback_email_def bad_request_def)
  have t: "strip ''id'' = ''id''" "strip ''x'' = ''x''" "strip ''https://a/cb'' = ''https://a/cb''"
    "normalize_email ''bob@acme.io'' = ''bob@acme.io''" by code_simp+
  have c: "build_slack_oauth_client demo_oauth_settings = Some \<lparr>oc_id = ''id'', oc_secret = ''x'', oc_redirect = ''https://a/cb''\<rparr>"
    by (simp add: build_slack_oauth_client_def build_client_def oauth_slack_configured_def demo_oauth_settings_def
        nonempty_str_def nonempty_secret_def t)
  note vals = get_default_def truthy_def as_dict_def get_or_empty_def py_str_def
  have x: "exchange_code demo_oauth 0 demo_oauth_settings SLACK ''tok'' 0 =
      (Inr \<lparr>ox_credential = demo_stored\<lparr>sc_metadata := [(''user_id'', ''U1'')]\<rparr>, ox_response = [(''ok'', PBool True),
         (''authed_user'', PDict [(''id'', PStr ''U1''), (''access_token'', PStr ''tok'')])]\<rparr>, 1)"
    by (simp add: exchange_code_def c slack_exchange_code_def demo_oauth_def bad_request_def slack_checked_def
        stored_from_slack_token_def expires_at_from_token_def opt_text_def demo_stored_def vals)
  have b: "assert_provider_email_binding demo_oauth SLACK ''bob@acme.io'' (demo_stored\<lparr>sc_metadata := [(''user_id'', ''U1'')]\<rparr>)
      resp None 1 = (Inr demo_stored, 2)" for resp
    by (simp add: assert_provider_email_binding_def provider_email_def slack_user_id_def slack_provider_email_def demo_oauth_def
        json_of_success_def slack_profile_def assert_emails_match_def t vals demo_stored_def Let_def)
  have p: "mem_vault_put demo_owner SLACK demo_stored [] =
      Inr [((the (org_id demo_owner), user_id demo_owner, SLACK), demo_stored)]"
  proof -
    have "require_org_id demo_owner = Inr ''acme''" by code_simp
    then show ?thesis by (simp add: mem_vault_put_def vault_key_def demo_owner_def)
  qed
  have "oauth_success_url demo_oauth_settings = None" by (simp add: demo_oauth_settings_def default_settings_def)
  then show ?thesis by (simp add: complete_oauth_callback_def e x b [unfolded One_nat_def] mem_ops_def p)
qed

theorem callback_stores_bound_credential_witness:
  "\<exists>w' v'. oauth_callback_post demo_oauth demo_app (Some mem_ops) ''slack'' ''tok'' demo_oauth_state demo_owner 1500 1500 0 0 []
      = (Inr (Redirect_To ''/oauth/connections'' Clear_Pending), w', v') \<and>
    (\<exists>cr. mem_vault_get demo_owner SLACK v' = Inr (Some cr) \<and>
       bound_credential demo_oauth demo_oauth_settings 1500 0 SLACK ''tok'' demo_oauth_state demo_owner 0 w' cr)"
proof -
  have p: "provider_of_value (lower ''slack'') = Some SLACK" "parse_provider ''slack'' = Inr SLACK"
    "demo_owner \<noteq> anonymous" "org_id demo_owner \<noteq> None" "org_id demo_owner \<noteq> Some []" by code_simp+
  let ?v = "[((the (org_id demo_owner), user_id demo_owner, SLACK), demo_stored)]"
  have h: "oauth_callback_post demo_oauth demo_app (Some mem_ops) ''slack'' ''tok'' demo_oauth_state demo_owner 1500 1500 0 0 []
      = (Inr (Redirect_To ''/oauth/connections'' Clear_Pending), 2, ?v)"
    using demo_consume demo_complete p
    by (auto simp: oauth_callback_post_def require_vault_def demo_app_def bad_request_def principal_from_state_def)
  obtain prov cr where c: "provider_of_value (lower ''slack'') = Some prov"
    "bound_credential demo_oauth (oa_settings demo_app) 1500 0 prov ''tok'' demo_oauth_state demo_owner 0 2 cr"
    "mem_vault_get demo_owner prov ?v = Inr (Some cr)"
    using callback_stores_bound_credential [THEN conjunct2, THEN conjunct2, THEN conjunct2, THEN mp, OF h]
    by (elim exE conjE) (rule that)
  have "oa_settings demo_app = demo_oauth_settings" by (simp add: demo_app_def)
  then show ?thesis using h c p(1) by (intro exI [of _ 2] exI [of _ ?v] conjI exI [of _ cr]) simp_all
qed

text \<open>C39: how a foreign state is refused. A caller whose verified token names another principal than the state
  gets 400 from the POST callback; from the GET callback the same refusal escapes as an unhandled
  exception, an internal server error. Neither changes the vault or talks to the provider.\<close>

theorem foreign_state_refusal:
  assumes "parse_provider provider = Inr prov" "consume_oauth_state env (oa_settings app) now1 state = Inr payload"
    and "oa_authenticator app = Some a" "bearer_token (or_request rq) = Some token" "principal_from_token a token = Inr p"
    and "\<not> names_principal payload p"
  shows "oauth_callback_post env app (Some vault) provider code state p now1 now2 micros w v =
      (Inl (Http 400 ''state principal mismatch''), w, v) \<and>
    oauth_callback_get env app (Some vault) provider rq code state now1 now2 micros w v =
      (Inl (Unhandled (state_error ''state principal mismatch'')), w, v)"
proof -
  have "p \<noteq> anonymous" using token_identified [OF assms(5)] by (auto simp: identified_def)
  then have "principal_from_state payload p = Inl (state_error ''state principal mismatch'')"
    using assms(6) by (simp add: principal_from_state_def)
  then show ?thesis using assms(1-5)
    by (simp add: oauth_callback_post_def oauth_callback_get_def require_vault_def bad_request_def state_error_def
        resolve_callback_principal_def)
qed

definition demo_bearer_request :: oauth_request where
  "demo_bearer_request = \<lparr>or_request = \<lparr>hr_headers = [(''authorization'', ''Bearer t'')], hr_client = None\<rparr>,
     or_cookie = None, or_hostname = None\<rparr>"

theorem foreign_state_refusal_witness:
  "fst (oauth_callback_get demo_oauth (demo_app\<lparr>oa_authenticator := Some demo_oidc\<rparr>) (Some mem_ops) ''slack''
     demo_bearer_request ''tok'' demo_oauth_state 1500 1500 0 0 []) = Inl (Unhandled (state_error ''state principal mismatch''))"
proof -
  let ?alice = "\<lparr>user_id = ''alice'', roles = [], org_id = None\<rparr>"
  have "parse_provider ''slack'' = Inr SLACK" by code_simp
  moreover obtain payload where c: "consume_oauth_state demo_oauth demo_oauth_settings 1500 demo_oauth_state = Inr payload"
    "names_principal payload demo_owner" using demo_consume by blast
  moreover have "\<not> names_principal payload ?alice"
    using c(2) by (auto simp: names_principal_def demo_owner_def opt_val_def)
  moreover have "bearer_token (or_request demo_bearer_request) = Some ''t''" by code_simp
  moreover have "principal_from_token demo_oidc ''t'' = Inr ?alice" by code_simp
  ultimately show ?thesis
    using foreign_state_refusal [of "''slack''" SLACK demo_oauth "demo_app\<lparr>oa_authenticator := Some demo_oidc\<rparr>" 1500
        demo_oauth_state payload demo_oidc demo_bearer_request "''t''" ?alice mem_ops "''tok''" 1500 0 0 "[]"]
    by (simp add: demo_app_def)
qed

end
