(* ===== verification/Vault.thy ===== *)
theory Vault
  imports OAuth
begin

text \<open>
  \<^verbatim>\<open>src/src/atlas/persistence/hashicorp_vault.py\<close> with the path encoding of
  \<^verbatim>\<open>src/src/atlas/governance/credentials.py\<close>: the durable credential vault over a key-value store.

  The key-value engine (hvac and the Vault server) and the datetime text are parameters: the operations
  of the record \<open>kv\<close>, each of which may raise. \<open>kv_laws\<close> states what is documented of the engine: a read
  returns what was last written under the path, and a write or a delete leaves other paths alone.
\<close>

section \<open>Paths\<close>

definition strip_slash :: "string \<Rightarrow> string" where
  "strip_slash s = rev (dropWhile (\<lambda>c. c = CHR ''/'') (rev (dropWhile (\<lambda>c. c = CHR ''/'') s)))"

definition rstrip_pad :: "string \<Rightarrow> string" where
  "rstrip_pad s = rev (dropWhile (\<lambda>c. c = CHR ''='') (rev s))"

definition vault_path_segment :: "string \<Rightarrow> string result" where
  "vault_path_segment s =
     (let cleaned = strip s
      in if cleaned = [] then Inl (access_error ''empty path segment'')
         else Inr (rstrip_pad (b64encode (utf8 cleaned))))"

definition credential_secret_path :: "string \<Rightarrow> string \<Rightarrow> string \<Rightarrow> oauth_provider \<Rightarrow> string result" where
  "credential_secret_path mount oid uid provider =
     result_bind (vault_path_segment oid) (\<lambda>org.
     result_bind (vault_path_segment uid) (\<lambda>user.
       Inr (strip_slash mount @ ''/atlas/credentials/'' @ org @ ''/'' @ user @ ''/'' @ provider_value provider)))"

definition removeprefix :: "string \<Rightarrow> string \<Rightarrow> string" where
  "removeprefix p s = (if startswith s p then drop (length p) s else s)"

definition relative_path :: "string \<Rightarrow> string \<Rightarrow> string \<Rightarrow> oauth_provider \<Rightarrow> string result" where
  "relative_path mount oid uid provider =
     result_bind (credential_secret_path mount oid uid provider) (\<lambda>full. Inr (removeprefix (mount @ ''/'') full))"

section \<open>Stored form\<close>

record 'k kv =
  kv_write :: "string \<Rightarrow> string \<Rightarrow> pydict \<Rightarrow> 'k \<Rightarrow> 'k result"
  kv_read :: "string \<Rightarrow> string \<Rightarrow> 'k \<Rightarrow> pydict result"
  kv_delete :: "string \<Rightarrow> string \<Rightarrow> 'k \<Rightarrow> 'k result"
  kv_list :: "string \<Rightarrow> string \<Rightarrow> 'k \<Rightarrow> pydict result"
  kv_is_vault_error :: "exn \<Rightarrow> bool"
  kv_iso :: "expiry \<Rightarrow> string"
  kv_fromiso :: "string \<Rightarrow> expiry result"

definition replace_Z :: "string \<Rightarrow> string" where
  "replace_Z s = concat (map (\<lambda>c. if c = CHR ''Z'' then ''+00:00'' else [c]) s)"

definition parse_expires_at :: "'k kv \<Rightarrow> pyval \<Rightarrow> expiry option result" where
  "parse_expires_at kv raw =
     (if \<not> truthy raw then Inr None
      else case raw of
        PStr s \<Rightarrow>
          result_bind (kv_fromiso kv (replace_Z s)) (\<lambda>e. Inr (Some (case e of Naive t \<Rightarrow> Aware t | Aware t \<Rightarrow> Aware t)))
      | v \<Rightarrow> Inl (Exn ''AttributeError'' (repr_str (type_name v) @ '' object has no attribute '' @ repr_str ''replace'')))"

definition serialize_credential :: "'k kv \<Rightarrow> stored_credential \<Rightarrow> pydict" where
  "serialize_credential kv c =
     [(''access_token'', PStr (sc_access_token c)), (''refresh_token'', opt_val (sc_refresh_token c)),
      (''token_type'', PStr (sc_token_type c)), (''scopes'', PList (map PStr (sc_scopes c))),
      (''expires_at'', case sc_expires_at c of None \<Rightarrow> PNone | Some e \<Rightarrow> PStr (kv_iso kv e)),
      (''metadata'', PDict (map (\<lambda>(k, v). (k, PStr v)) (sc_metadata c)))]"

text \<open>\<open>(str(s) for s in v)\<close> over a decoded value.\<close>

definition iter_strs :: "pyval \<Rightarrow> string list result" where
  "iter_strs v = (case v of
     PList xs \<Rightarrow> Inr (map py_str xs)
   | PStr s \<Rightarrow> Inr (map (\<lambda>c. [c]) s)
   | PDict d \<Rightarrow> Inr (map fst d)
   | _ \<Rightarrow> Inl (Exn ''TypeError'' (repr_str (type_name v) @ '' object is not iterable'')))"

definition deserialize_credential :: "'k kv \<Rightarrow> oauth_provider \<Rightarrow> pydict \<Rightarrow> stored_credential result" where
  "deserialize_credential kv provider payload =
     result_bind (if truthy (get payload ''scopes'') then iter_strs (get payload ''scopes'') else Inr []) (\<lambda>scopes.
     result_bind (case dict_get payload ''access_token'' of
         None \<Rightarrow> Inl (Exn ''KeyError'' (repr_str ''access_token'')) | Some v \<Rightarrow> Inr (py_str v)) (\<lambda>access.
     result_bind (parse_expires_at kv (get payload ''expires_at'')) (\<lambda>expires.
     result_bind (if truthy (get payload ''metadata'')
         then (case get payload ''metadata'' of
                 PDict d \<Rightarrow> Inr (map (\<lambda>(k, v). (k, py_str v)) d)
               | v \<Rightarrow> Inl (Exn ''AttributeError'' (repr_str (type_name v) @ '' object has no attribute '' @ repr_str ''items'')))
         else Inr []) (\<lambda>metadata.
     result_bind (opt_text (get payload ''refresh_token'')) (\<lambda>refresh.
       Inr \<lparr>sc_provider = provider, sc_scopes = scopes, sc_access_token = access, sc_refresh_token = refresh,
            sc_expires_at = expires,
            sc_token_type = py_str (if truthy (get payload ''token_type'') then get payload ''token_type'' else PStr ''Bearer''),
            sc_metadata = metadata\<rparr>)))))"

section \<open>The vault\<close>

definition hc_mount :: "settings \<Rightarrow> string" where
  "hc_mount s = (if strip_slash (vault_mount s) = [] then ''secret'' else strip_slash (vault_mount s))"

text \<open>\<open>_build_client\<close>: the token of the client. \<open>login\<close> is the AppRole login, \<open>authenticated\<close> the check of the
  server.\<close>

definition hc_build_client :: "(string \<Rightarrow> string \<Rightarrow> string result) \<Rightarrow> (string \<Rightarrow> bool) \<Rightarrow> settings \<Rightarrow> string result" where
  "hc_build_client login authenticated s =
     (if \<not> str_set (vault_addr s) then Inl (access_error ''VAULT_ADDR is required for HashiCorpCredentialVault'')
      else result_bind (case vault_token s of
             Some token \<Rightarrow> Inr token
           | None \<Rightarrow>
               (case (vault_role_id s, vault_secret_id s) of
                  (Some (c # role), Some secret) \<Rightarrow> login (c # role) secret
                | _ \<Rightarrow> Inl (access_error ''Vault authentication not configured''))) (\<lambda>token.
        if authenticated token then Inr token else Inl (access_error ''Vault authentication failed'')))"

text \<open>\<open>setup\<close>: enables the engine when the mount is missing; errors of Vault are ignored.\<close>

definition hc_setup :: "(exn \<Rightarrow> bool) \<Rightarrow> ('k \<Rightarrow> pydict result) \<Rightarrow> (string \<Rightarrow> 'k \<Rightarrow> 'k result) \<Rightarrow> string \<Rightarrow> 'k \<Rightarrow> 'k result" where
  "hc_setup is_vault_error list_mounts enable mount k =
     (case result_bind (list_mounts k) (\<lambda>mounts.
           result_bind (as_dict (get_default mounts ''data'' (PDict []))) (\<lambda>data.
             if dict_get data (mount @ ''/'') = None then enable mount k else Inr k)) of
        Inl e \<Rightarrow> if is_vault_error e then Inr k else Inl e
      | Inr k' \<Rightarrow> Inr k')"

definition vault_unavailable :: "'k kv \<Rightarrow> exn \<Rightarrow> exn" where
  "vault_unavailable kv e = (if kv_is_vault_error kv e then access_error ''credential store temporarily unavailable'' else e)"

definition hc_owner :: "principal \<Rightarrow> string result" where
  "hc_owner p = result_bind (require_org_id p) (\<lambda>oid.
     result_bind (assert_principal_scope p oid (user_id p)) (\<lambda>_. Inr oid))"

definition hc_put :: "'k kv \<Rightarrow> string \<Rightarrow> principal \<Rightarrow> oauth_provider \<Rightarrow> stored_credential \<Rightarrow> 'k \<Rightarrow> 'k result" where
  "hc_put kv mount p provider c k =
     result_bind (hc_owner p) (\<lambda>oid.
     result_bind (relative_path mount oid (user_id p) provider) (\<lambda>path.
       case kv_write kv mount path (serialize_credential kv c) k of
         Inl e \<Rightarrow> Inl (vault_unavailable kv e) | Inr k' \<Rightarrow> Inr k'))"

definition hc_get :: "'k kv \<Rightarrow> string \<Rightarrow> principal \<Rightarrow> oauth_provider \<Rightarrow> 'k \<Rightarrow> stored_credential option result" where
  "hc_get kv mount p provider k =
     result_bind (hc_owner p) (\<lambda>oid.
     result_bind (relative_path mount oid (user_id p) provider) (\<lambda>path.
       case kv_read kv mount path k of
         Inl e \<Rightarrow> if exc_class e = ''InvalidPath'' then Inr None else Inl (vault_unavailable kv e)
       | Inr response \<Rightarrow>
           result_bind (as_dict (get_default response ''data'' (PDict []))) (\<lambda>outer.
             case get outer ''data'' of
               PDict data \<Rightarrow> result_bind (deserialize_credential kv provider data) (\<lambda>c. Inr (Some c))
             | _ \<Rightarrow> Inr None)))"

definition hc_delete :: "'k kv \<Rightarrow> string \<Rightarrow> principal \<Rightarrow> oauth_provider \<Rightarrow> 'k \<Rightarrow> 'k result" where
  "hc_delete kv mount p provider k =
     result_bind (hc_owner p) (\<lambda>oid.
     result_bind (relative_path mount oid (user_id p) provider) (\<lambda>path.
       case kv_delete kv mount path k of
         Inl e \<Rightarrow> if exc_class e = ''InvalidPath'' then Inr k else Inl (vault_unavailable kv e)
       | Inr k' \<Rightarrow> Inr k'))"

definition hc_list_connected :: "'k kv \<Rightarrow> string \<Rightarrow> principal \<Rightarrow> 'k \<Rightarrow> oauth_provider list result" where
  "hc_list_connected kv mount p k =
     result_bind (hc_owner p) (\<lambda>oid.
     result_bind (vault_path_segment oid) (\<lambda>org.
     result_bind (vault_path_segment (user_id p)) (\<lambda>user.
       case kv_list kv mount (''atlas/credentials/'' @ org @ ''/'' @ user) k of
         Inl e \<Rightarrow> if exc_class e = ''InvalidPath'' then Inr [] else Inl (vault_unavailable kv e)
       | Inr response \<Rightarrow>
           result_bind (as_dict (get_default response ''data'' (PDict []))) (\<lambda>data.
           result_bind (if truthy (get data ''keys'') then iter_strs (get data ''keys'') else Inr []) (\<lambda>keys.
             Inr (sort_key provider_value (List.map_filter (\<lambda>key. provider_of_value (strip_slash key)) keys)))))))"

section \<open>Paths separate principals\<close>

lemma rstrip_pad_Cons: "c \<noteq> CHR ''='' \<Longrightarrow> rstrip_pad (c # s) = c # rstrip_pad s"
proof -
  assume c: "c \<noteq> CHR ''=''"
  have "dropWhile P (xs @ [c]) = dropWhile P xs @ [c]" if "\<not> P c" for P and xs :: string
    using that by (induction xs) auto
  then show ?thesis using c by (simp add: rstrip_pad_def)
qed

lemma rstrip_pad_pads [simp]: "rstrip_pad [] = []" "rstrip_pad ''='' = []" "rstrip_pad ''=='' = []"
  by (simp_all add: rstrip_pad_def)

text \<open>The padding can be dropped: the lenient decoder reads the text back with any two pads after it.\<close>

lemma decode_unpadded: "a2b_loop (rstrip_pad (b64encode s) @ ''=='') 0 0 0 out = Inr (out @ s)"
proof (induction s arbitrary: out rule: b64encode.induct)
  case (3 a b)
  then show ?case using byte_join(1) [of a b] byte_join(4) [of a b]
    by (simp only: b64encode.simps) (simp add: b64_char_alphabet rstrip_pad_Cons)
next
  case (4 a b c s)
  then show ?case using byte_join(1) [of a b] byte_join(2) [of a b c] byte_join(3) [of b c]
    by (simp only: b64encode.simps) (simp add: b64_char_alphabet rstrip_pad_Cons)
qed (simp_all add: b64_char_alphabet rstrip_pad_Cons)

lemma unpadded_inject: "rstrip_pad (b64encode s) = rstrip_pad (b64encode t) \<longleftrightarrow> s = t"
  by (metis append_Nil decode_unpadded sum.inject(2))

lemma b64_char_slash: "n < 64 \<Longrightarrow> b64_char n \<noteq> CHR ''/''"
proof
  assume n: "n < 64" and e: "b64_char n = CHR ''/''"
  have "cp (b64_char n) = (if n < 26 then 65 + n else if n < 52 then 71 + n else if n < 62 then n - 4
     else if n = 62 then 45 else 95)" using n by (simp add: b64_char_def)
  then show False using n e by (auto split: if_splits)
qed

lemma segment_no_slash: "vault_path_segment s = Inr x \<Longrightarrow> CHR ''/'' \<notin> set x"
proof -
  assume "vault_path_segment s = Inr x"
  then have x: "x = rstrip_pad (b64encode (utf8 (strip s)))" by (auto simp: vault_path_segment_def Let_def split: if_splits)
  have "c \<noteq> CHR ''/''" if "c \<in> set (b64encode t)" for c t
    using that by (induction t rule: b64encode.induct) (auto simp: b64_char_slash b64_char_slash [THEN not_sym])
  moreover have "set (rstrip_pad t) \<subseteq> set t" for t
    unfolding rstrip_pad_def by (metis set_dropWhileD set_rev subsetI)
  ultimately show ?thesis unfolding x by blast
qed

lemma segment_inject:
  "vault_path_segment s = Inr x \<Longrightarrow> vault_path_segment t = Inr y \<Longrightarrow> x = y \<longleftrightarrow> strip s = strip t"
  by (auto simp: vault_path_segment_def Let_def unpadded_inject utf8_inject split: if_splits)

lemma split_at_inject:
  "c \<notin> set a \<Longrightarrow> c \<notin> set b \<Longrightarrow> a @ c # x = b @ c # y \<longleftrightarrow> a = b \<and> x = y"
proof (induction a arbitrary: b)
  case Nil
  then show ?case by (cases b) auto
next
  case (Cons d a)
  then show ?case by (cases b) auto
qed

lemma strip_slash_idem: "strip_slash (strip_slash s) = strip_slash s"
  by (simp add: strip_slash_def dropWhile_rev_dropWhile_idem dropWhile_idem_same)

lemma strip_slash_mount [simp]: "strip_slash (hc_mount s) = hc_mount s"
proof (cases "strip_slash (vault_mount s) = []")
  case True
  have "strip_slash ''secret'' = ''secret''" by code_simp
  with True show ?thesis by (simp only: hc_mount_def simp_thms if_True refl)
next
  case False
  then show ?thesis by (simp only: hc_mount_def if_False strip_slash_idem)
qed

lemma relative_path_Inr:
  "relative_path (hc_mount s) oid uid a = Inr path \<longleftrightarrow>
   (\<exists>org user. vault_path_segment oid = Inr org \<and> vault_path_segment uid = Inr user \<and>
      path = ''atlas/credentials/'' @ org @ ''/'' @ user @ ''/'' @ provider_value a)"
proof -
  have "relative_path (hc_mount s) oid uid a =
      result_bind (vault_path_segment oid) (\<lambda>org. result_bind (vault_path_segment uid) (\<lambda>user.
        Inr (''atlas/credentials/'' @ org @ ''/'' @ user @ ''/'' @ provider_value a)))"
    by (cases "vault_path_segment oid"; cases "vault_path_segment uid")
      (simp_all add: relative_path_def credential_secret_path_def removeprefix_def)
  then show ?thesis unfolding result_bind_Inr_iff by (simp only: result_bind_Inr_iff sum.inject) blast
qed

lemma provider_value_inject [simp]: "provider_value a = provider_value b \<longleftrightarrow> a = b"
  by (cases a; cases b) auto

lemma relative_path_inject:
  assumes "relative_path (hc_mount s) oid uid a = Inr path" "relative_path (hc_mount s) oid' uid' b = Inr path'"
  shows "path = path' \<longleftrightarrow> strip oid = strip oid' \<and> strip uid = strip uid' \<and> a = b"
proof -
  obtain org user org' user' where h: "vault_path_segment oid = Inr org" "vault_path_segment uid = Inr user"
    "vault_path_segment oid' = Inr org'" "vault_path_segment uid' = Inr user'"
    "path = ''atlas/credentials/'' @ org @ ''/'' @ user @ ''/'' @ provider_value a"
    "path' = ''atlas/credentials/'' @ org' @ ''/'' @ user' @ ''/'' @ provider_value b"
    using assms unfolding relative_path_Inr by blast
  have "path = path' \<longleftrightarrow> org @ CHR ''/'' # user @ CHR ''/'' # provider_value a = org' @ CHR ''/'' # user' @ CHR ''/'' # provider_value b"
    by (simp add: h(5,6))
  also have "\<dots> \<longleftrightarrow> org = org' \<and> user = user' \<and> a = b"
    using segment_no_slash [OF h(1)] segment_no_slash [OF h(2)] segment_no_slash [OF h(3)] segment_no_slash [OF h(4)]
    by (simp add: split_at_inject)
  finally show ?thesis using segment_inject [OF h(1,3)] segment_inject [OF h(2,4)] by simp
qed

section \<open>Stored credentials come back\<close>

text \<open>What a read gives of a written credential: the provider of the path, an aware expiry, and \<open>Bearer\<close> for
  an empty token type.\<close>

definition as_read :: "oauth_provider \<Rightarrow> stored_credential \<Rightarrow> stored_credential" where
  "as_read a c = c\<lparr>sc_provider := a,
     sc_expires_at := map_option (\<lambda>e. case e of Naive t \<Rightarrow> Aware t | Aware t \<Rightarrow> Aware t) (sc_expires_at c),
     sc_token_type := (if sc_token_type c = [] then ''Bearer'' else sc_token_type c)\<rparr>"

definition iso_law :: "'k kv \<Rightarrow> bool" where
  "iso_law kv \<longleftrightarrow> (\<forall>e. kv_iso kv e \<noteq> [] \<and> kv_fromiso kv (replace_Z (kv_iso kv e)) = Inr e)"

lemma deserialize_serialize:
  assumes "iso_law kv"
  shows "deserialize_credential kv a (serialize_credential kv c) = Inr (as_read a c)"
proof -
  have e: "parse_expires_at kv (case sc_expires_at c of None \<Rightarrow> PNone | Some e \<Rightarrow> PStr (kv_iso kv e)) =
      Inr (map_option (\<lambda>e. case e of Naive t \<Rightarrow> Aware t | Aware t \<Rightarrow> Aware t) (sc_expires_at c))"
    using assms by (cases "sc_expires_at c") (simp_all add: parse_expires_at_def truthy_def iso_law_def)
  have m: "map (\<lambda>(k, v). (k, py_str v)) (map (\<lambda>(k, v). (k, PStr v)) d) = d" for d
    by (induction d) (auto simp: py_str_def)
  have t: "opt_text (opt_val x) = Inr x" for x by (simp add: opt_text_def opt_val_def split: option.split)
  have p: "py_str (PStr x) = x" for x by (simp add: py_str_def)
  have sc: "(if truthy (PList (map PStr xs)) then iter_strs (PList (map PStr xs)) else Inr []) = Inr xs" for xs
    by (simp add: truthy_def iter_strs_def comp_def p)
  have md: "(if truthy (PDict (map (\<lambda>(k, v). (k, PStr v)) d)) then Inr (map (\<lambda>(k, v). (k, py_str v)) (map (\<lambda>(k, v). (k, PStr v)) d))
      else Inr []) = Inr d" for d :: "string dict"
    unfolding m by (simp add: truthy_def)
  have ty: "py_str (if truthy (PStr x) then PStr x else PStr ''Bearer'') = (if x = [] then ''Bearer'' else x)" for x
    by (simp add: truthy_def p)
  let ?d = "serialize_credential kv c"
  have g: "get ?d ''scopes'' = PList (map PStr (sc_scopes c))" "dict_get ?d ''access_token'' = Some (PStr (sc_access_token c))"
    "get ?d ''expires_at'' = (case sc_expires_at c of None \<Rightarrow> PNone | Some e \<Rightarrow> PStr (kv_iso kv e))"
    "get ?d ''metadata'' = PDict (map (\<lambda>(k, v). (k, PStr v)) (sc_metadata c))"
    "get ?d ''refresh_token'' = opt_val (sc_refresh_token c)" "get ?d ''token_type'' = PStr (sc_token_type c)"
    by (simp_all add: serialize_credential_def get_default_def)
  show ?thesis
    unfolding deserialize_credential_def
    by (simp only: g sc e md t ty p result_bind_simps option.case pyval.case) (cases c; simp add: as_read_def)
qed

text \<open>The documented behaviour of the key-value engine at one mount.\<close>

definition kv_laws :: "'k kv \<Rightarrow> string \<Rightarrow> bool" where
  "kv_laws kv m \<longleftrightarrow>
     (\<forall>path d k k'. kv_write kv m path d k = Inr k' \<longrightarrow>
        (\<exists>response inner. kv_read kv m path k' = Inr response \<and> get_default response ''data'' (PDict []) = PDict inner \<and>
           get inner ''data'' = PDict d) \<and>
        (\<forall>path'. path' \<noteq> path \<longrightarrow> kv_read kv m path' k' = kv_read kv m path' k)) \<and>
     (\<forall>path k k'. kv_delete kv m path k = Inr k' \<longrightarrow>
        (\<exists>e. kv_read kv m path k' = Inl e \<and> exc_class e = ''InvalidPath'') \<and>
        (\<forall>path'. path' \<noteq> path \<longrightarrow> kv_read kv m path' k' = kv_read kv m path' k))"

lemma case_wrap_Inr: "(case r of Inl e \<Rightarrow> Inl (f e) | Inr x \<Rightarrow> Inr x) = Inr y \<longleftrightarrow> r = Inr y"
  by (cases r) auto

lemma hc_delete_Inr:
  "hc_delete kv m p a k = Inr k' \<and> k' \<noteq> k \<Longrightarrow> \<exists>oid path. hc_owner p = Inr oid \<and>
     relative_path m oid (user_id p) a = Inr path \<and> kv_delete kv m path k = Inr k'"
proof (cases "hc_owner p")
  case (Inr oid)
  assume h: "hc_delete kv m p a k = Inr k' \<and> k' \<noteq> k"
  show ?thesis
  proof (cases "relative_path m oid (user_id p) a")
    case path: (Inr path)
    then show ?thesis using h Inr by (cases "kv_delete kv m path k") (auto simp: hc_delete_def split: if_splits)
  qed (use h Inr in \<open>simp add: hc_delete_def\<close>)
qed (simp add: hc_delete_def)

lemma hc_owner_Inr: "hc_owner p = Inr oid \<longleftrightarrow> require_org_id p = Inr oid"
  by (auto simp: hc_owner_def result_bind_Inr_iff assert_principal_scope_def dest: require_org_id_ok)

lemma hc_frame:
  assumes read: "\<And>path'. path' \<noteq> path \<Longrightarrow> kv_read kv (hc_mount s) path' k' = kv_read kv (hc_mount s) path' k"
    and path: "relative_path (hc_mount s) oid uid a = Inr path"
    and other: "\<And>oid'. org_id q = Some oid' \<Longrightarrow> (strip oid', strip (user_id q), b) \<noteq> (strip oid, strip uid, a)"
  shows "hc_get kv (hc_mount s) q b k' = hc_get kv (hc_mount s) q b k"
proof (cases "hc_owner q")
  case (Inr oid')
  then have "org_id q = Some oid'" using require_org_id_ok unfolding hc_owner_Inr by blast
  then have "relative_path (hc_mount s) oid' (user_id q) b \<noteq> Inr path" using relative_path_inject [OF path, of oid' "user_id q" b path] other [of oid'] by auto
  then show ?thesis using Inr read
    by (cases "relative_path (hc_mount s) oid' (user_id q) b") (auto simp: hc_get_def)
qed (simp add: hc_get_def)

section \<open>Properties\<close>

text \<open>Vault paths separate principals. Two secrets share a path exactly when organisation, user and provider
  agree after stripping white space. Identities that the interface produces are stripped already, so
  for them a path belongs to one organisation, user and provider.\<close>

theorem vault_paths_separate:
  assumes "relative_path (hc_mount s) oid uid a = Inr path" "relative_path (hc_mount s) oid' uid' b = Inr path'"
  shows "(path = path' \<longleftrightarrow> strip oid = strip oid' \<and> strip uid = strip uid' \<and> a = b) \<and>
    (\<forall>auth hn rq rq' p q. get_request_principal auth hn rq = Inr p \<and> get_request_principal auth hn rq' = Inr q \<and>
       org_id p = Some oid \<and> user_id p = uid \<and> org_id q = Some oid' \<and> user_id q = uid' \<longrightarrow>
       (path = path' \<longleftrightarrow> (org_id p, user_id p, a) = (org_id q, user_id q, b)))"
proof (intro conjI allI impI)
  show inj: "path = path' \<longleftrightarrow> strip oid = strip oid' \<and> strip uid = strip uid' \<and> a = b"
    using assms by (rule relative_path_inject)
  fix auth hn rq rq' p q
  assume h: "get_request_principal auth hn rq = Inr p \<and> get_request_principal auth hn rq' = Inr q \<and>
       org_id p = Some oid \<and> user_id p = uid \<and> org_id q = Some oid' \<and> user_id q = uid'"
  have i: "identified x" if "get_request_principal auth hn r = Inr x" "org_id x = Some y" for r x y
    using that headers_identified [of hn r] token_identified
    by (auto simp: get_request_principal_def anonymous_def split: option.splits sum.splits)
  show "path = path' \<longleftrightarrow> (org_id p, user_id p, a) = (org_id q, user_id q, b)"
    using i [of rq p oid] i [of rq' q oid'] h inj by (auto simp: identified_def)
qed

theorem vault_paths_separate_witness:
  "relative_path (hc_mount default_settings) ''acme'' ''bob'' SLACK = Inr ''atlas/credentials/YWNtZQ/Ym9i/slack'' \<and>
   relative_path (hc_mount default_settings) ''acme'' '' bob'' SLACK = Inr ''atlas/credentials/YWNtZQ/Ym9i/slack'' \<and>
   strip ''bob'' = strip '' bob''"
proof -
  have a: "relative_path (hc_mount default_settings) ''acme'' ''bob'' SLACK = Inr ''atlas/credentials/YWNtZQ/Ym9i/slack''"
    and b: "relative_path (hc_mount default_settings) ''acme'' '' bob'' SLACK = Inr ''atlas/credentials/YWNtZQ/Ym9i/slack''"
    by code_simp+
  then show ?thesis using vault_paths_separate [OF a b] by blast
qed


text \<open>A dictionary as the engine, and a textual form of expiries.\<close>

definition demo_kv :: "pydict dict kv" where
  "demo_kv = \<lparr>kv_write = \<lambda>m path d k. Inr (dict_set (m @ ''/'' @ path) d k),
     kv_read = \<lambda>m path k. (case dict_get k (m @ ''/'' @ path) of
        None \<Rightarrow> Inl (Exn ''InvalidPath'' []) | Some d \<Rightarrow> Inr [(''data'', PDict [(''data'', PDict d)])]),
     kv_delete = \<lambda>m path k. Inr (AList.delete (m @ ''/'' @ path) k),
     kv_list = \<lambda>m path k. Inl (Exn ''InvalidPath'' []), kv_is_vault_error = \<lambda>e. True,
     kv_iso = \<lambda>e. (case e of Aware t \<Rightarrow> CHR ''a'' | Naive t \<Rightarrow> CHR ''n'')
        # (let t = (case e of Aware t \<Rightarrow> t | Naive t \<Rightarrow> t) in (if t < 0 then CHR ''-'' else CHR ''+'') # replicate (nat \<bar>t\<bar>) (CHR ''1'')),
     kv_fromiso = \<lambda>x. (case x of
        c # d # r \<Rightarrow> (let t = (if d = CHR ''-'' then - int (length r) else int (length r)) in
          Inr (if c = CHR ''a'' then Aware t else Naive t))
      | _ \<Rightarrow> Inl (Exn ''ValueError'' []))\<rparr>"

lemma replace_Z_none: "CHR ''Z'' \<notin> set s \<Longrightarrow> replace_Z s = s"
  by (induction s) (auto simp: replace_Z_def)

lemma demo_kv_laws: "kv_laws demo_kv m" "iso_law demo_kv"
proof -
  show "kv_laws demo_kv m"
    by (auto simp: kv_laws_def demo_kv_def get_default_def update_conv' delete_conv')
  have "kv_fromiso demo_kv (replace_Z (kv_iso demo_kv e)) = Inr e" for e
  proof -
    have "CHR ''Z'' \<notin> set (kv_iso demo_kv e)" by (cases e) (auto simp: demo_kv_def Let_def)
    then show ?thesis unfolding replace_Z_none [OF \<open>CHR ''Z'' \<notin> _\<close>] by (cases e) (auto simp: demo_kv_def Let_def)
  qed
  then show "iso_law demo_kv" by (auto simp: iso_law_def demo_kv_def)
qed


end
