(* ===== verification/Assembly.thy ===== *)
theory Assembly
  imports Runner Adapter Ingestion Embeddings Vault
begin

text \<open>
  The factories and \<open>build_graph\<close> of \<^verbatim>\<open>src/src/atlas/orchestration/graph.py\<close>, with the model factory of
  \<^verbatim>\<open>llm.py\<close> and the narrator of \<^verbatim>\<open>responder_llm.py\<close>: from the settings to a compiled agent.

  What the factories build are shared, mutable objects, and that they are shared is the point: the executor, the
  approval node and the ingestion service must write to one audit log, the planner and the executor must ask one
  policy store. The heap is the list of the objects built so far and a reference is an index into it, so that
  sharing is equality of references. Reads and setup statements on a database, the client libraries and the
  language models are the record \<open>services\<close>.
\<close>

section \<open>Objects\<close>

datatype 'w object =
    ConnectionPool string
  | PostgresSaver nat
  | SqliteSaver string
  | InMemorySaver
  | PostgresAuditLog nat
  | InMemoryAuditLog
  | PostgresPolicyStore nat
  | InMemoryPolicyStore
  | PostgresKnowledgeGraph nat "nat option" "'w embedder option"
  | InMemoryKnowledgeGraph "nat option"
  | HashiCorpCredentialVault string
  | InMemoryCredentialVault
  | IngestionServiceObject nat nat nat "extractor option" int int

text \<open>The lines the factories log.\<close>

datatype warning =
    EmailMissing | EmailWithoutAudit | SlackMissing | SlackWithoutAudit
  | EmptyPolicy | PolicyDrift "string set dict" | VaultInMemory | OAuthToolsUnwired

record 'w process =
  objects :: "'w object list"
  pools :: "(string \<times> nat) list"
  warnings :: "warning list"

type_synonym ('w, 'a) build = "'w process \<Rightarrow> 'a result \<times> 'w process"

definition ret :: "'a \<Rightarrow> ('w, 'a) build" where
  "ret x pr = (Inr x, pr)"

definition andthen :: "('w, 'a) build \<Rightarrow> ('a \<Rightarrow> ('w, 'b) build) \<Rightarrow> ('w, 'b) build" where
  "andthen m f pr = (case m pr of (Inl e, pr') \<Rightarrow> (Inl e, pr') | (Inr x, pr') \<Rightarrow> f x pr')"

definition lifted :: "'a result \<Rightarrow> ('w, 'a) build" where
  "lifted r pr = (r, pr)"

definition alloc :: "'w object \<Rightarrow> ('w, nat) build" where
  "alloc x pr = (Inr (length (objects pr)), pr\<lparr>objects := objects pr @ [x]\<rparr>)"

definition warn :: "warning \<Rightarrow> ('w, unit) build" where
  "warn x pr = (Inr (), pr\<lparr>warnings := warnings pr @ [x]\<rparr>)"

definition warn_if :: "bool \<Rightarrow> warning \<Rightarrow> ('w, unit) build" where
  "warn_if b x = (if b then warn x else ret ())"

section \<open>Services\<close>

record chat_model =
  cm_model :: string
  cm_key :: string

record responder_model_chain =
  rm_primary :: chat_model
  rm_fallbacks :: "chat_model list"

record 'w services =
  sv_verr :: verr
  sv_setup :: "string \<Rightarrow> string \<Rightarrow> unit result"
  sv_sqlite :: "string \<Rightarrow> unit result"
  sv_policies :: "string \<Rightarrow> policy_table result"
  sv_login :: "string \<Rightarrow> string \<Rightarrow> string result"
  sv_authenticated :: "string \<Rightarrow> bool"
  sv_vault_setup :: "string \<Rightarrow> unit result"
  sv_resolver :: "nat \<Rightarrow> settings \<Rightarrow> 'w resolver"
  sv_email :: "settings \<Rightarrow> (email_message, 'w) sender"
  sv_slack :: "settings \<Rightarrow> (slack_message, 'w) sender"
  sv_gmail :: "(email_message, 'w) token_sender"
  sv_calendar :: "(calendar_event, 'w) token_sender"
  sv_slack_user :: "(slack_message, 'w) token_sender"
  sv_lax :: "arg_type \<Rightarrow> pyval \<Rightarrow> string + pyval"
  sv_parse_url :: "string \<Rightarrow> url result"
  sv_decode :: "string \<Rightarrow> tool_schema result"
  sv_packaged :: string
  sv_schema_dir :: "string \<Rightarrow> schema_dir"
  sv_network :: "'w network"
  sv_float :: float_env
  sv_sha :: sha
  sv_voyage :: "'w voyage_api"
  sv_extract :: "llm_extractor \<Rightarrow> extractor"
  sv_chat :: "chat_model \<Rightarrow> string \<Rightarrow> string \<Rightarrow> (string \<times> pydict) list result"
  sv_narrate :: "responder_model_chain \<Rightarrow> string \<Rightarrow> string \<Rightarrow> pyval result"
  sv_fresh :: "nat \<Rightarrow> string"

section \<open>Models\<close>

definition llm_build_model :: "settings \<Rightarrow> chat_model result" where
  "llm_build_model s =
     (case anthropic_api_key s of
        Some (c # k) \<Rightarrow> Inr \<lparr>cm_model = model s, cm_key = c # k\<rparr>
      | _ \<Rightarrow> Inl (Exn ''RuntimeError'' (''ANTHROPIC_API_KEY is not set; cannot build a Claude model. ''
               @ ''Set it in the environment or use the offline planner path.'')))"

definition make_plan_fn :: "'w services \<Rightarrow> settings \<Rightarrow> 'w plan_fn" where
  "make_plan_fn sv s = default_plan_fn (has_anthropic_key s)
     (\<lambda>system human. result_bind (llm_build_model s) (\<lambda>m. sv_chat sv m system human)) (sv_fresh sv)"

record responder_narrator =
  rn_key :: string
  rn_model :: string
  rn_fallbacks :: "string list"
  rn_runnable :: "responder_model_chain option"

definition mk_responder_llm :: "string \<Rightarrow> string \<Rightarrow> string list \<Rightarrow> responder_narrator result" where
  "mk_responder_llm api_key m fallbacks =
     (if strip api_key = [] then Inl (Exn ''ValueError'' ''ResponderLLM requires a non-empty OpenRouter API key'')
      else if strip m = [] then Inl (Exn ''ValueError'' ''ResponderLLM requires a non-empty model id'')
      else Inr \<lparr>rn_key = api_key, rn_model = m, rn_fallbacks = fallbacks, rn_runnable = None\<rparr>)"

definition responder_chat_model :: "responder_narrator \<Rightarrow> string \<Rightarrow> chat_model" where
  "responder_chat_model n m = \<lparr>cm_model = m, cm_key = rn_key n\<rparr>"

definition build_runnable :: "responder_narrator \<Rightarrow> responder_model_chain" where
  "build_runnable n = \<lparr>rm_primary = responder_chat_model n (rn_model n),
     rm_fallbacks = map (responder_chat_model n) (rn_fallbacks n)\<rparr>"

text \<open>\<open>ResponderLLM.respond\<close> with the memoized runnable.\<close>

definition responder_respond ::
  "'w services \<Rightarrow> string \<Rightarrow> string \<Rightarrow> responder_narrator \<Rightarrow> string result \<times> responder_narrator" where
  "responder_respond sv request facts n =
     (let runnable = (case rn_runnable n of None \<Rightarrow> build_runnable n | Some r \<Rightarrow> r)
      in (responder_llm (sv_narrate sv runnable) request facts, n\<lparr>rn_runnable := Some runnable\<rparr>))"

record fake_responder =
  fr_response :: string
  fr_fail :: bool
  fr_calls :: "(string \<times> string) list"

definition fake_respond :: "string \<Rightarrow> string \<Rightarrow> fake_responder \<Rightarrow> string result \<times> fake_responder" where
  "fake_respond request facts f =
     (if fr_fail f then (Inl (Exn ''RuntimeError'' ''simulated responder LLM failure''), f)
      else (Inr (fr_response f), f\<lparr>fr_calls := fr_calls f @ [(request, facts)]\<rparr>))"

definition make_responder_llm :: "settings \<Rightarrow> responder_narrator option result" where
  "make_responder_llm s =
     (if \<not> responder_llm_active s then Inr None
      else case openrouter_api_key s of
             None \<Rightarrow> Inr None
           | Some key \<Rightarrow>
               result_bind (mk_responder_llm key (responder_model s) (responder_fallback_model_list s)) (\<lambda>n. Inr (Some n)))"

section \<open>Factories\<close>

text \<open>\<open>_pg_pool\<close> under \<open>lru_cache(maxsize=8)\<close>, the most recently used entry first.\<close>

definition pg_pool :: "string \<Rightarrow> ('w, nat) build" where
  "pg_pool dsn pr =
     (case map_of (pools pr) dsn of
        Some r \<Rightarrow> (Inr r, pr\<lparr>pools := (dsn, r) # filter (\<lambda>(d, _). d \<noteq> dsn) (pools pr)\<rparr>)
      | None \<Rightarrow>
          let r = length (objects pr)
          in (Inr r, pr\<lparr>objects := objects pr @ [ConnectionPool dsn], pools := take 8 ((dsn, r) # pools pr)\<rparr>))"

definition postgres :: "'w services \<Rightarrow> string \<Rightarrow> string \<Rightarrow> (nat \<Rightarrow> 'w object) \<Rightarrow> ('w, nat) build" where
  "postgres sv cls dsn obj =
     andthen (pg_pool dsn) (\<lambda>pool. andthen (lifted (sv_setup sv cls dsn)) (\<lambda>_. alloc (obj pool)))"

definition make_checkpointer :: "'w services \<Rightarrow> settings \<Rightarrow> ('w, nat) build" where
  "make_checkpointer sv s =
     (if str_set (database_url s) then postgres sv ''PostgresSaver'' (the (database_url s)) PostgresSaver
      else if str_set (sqlite_path s)
      then andthen (lifted (sv_sqlite sv (the (sqlite_path s)))) (\<lambda>_. alloc (SqliteSaver (the (sqlite_path s))))
      else alloc InMemorySaver)"

definition make_audit_log :: "'w services \<Rightarrow> settings \<Rightarrow> ('w, nat) build" where
  "make_audit_log sv s =
     (if str_set (database_url s) then postgres sv ''PostgresAuditLog'' (the (database_url s)) PostgresAuditLog
      else alloc InMemoryAuditLog)"

definition make_knowledge_graph :: "'w services \<Rightarrow> settings \<Rightarrow> nat \<Rightarrow> ('w, nat) build" where
  "make_knowledge_graph sv s pol =
     (if str_set (database_url s)
      then andthen (if embeddings_configured s
                    then andthen (lifted (make_embedder (sv_float sv) (sv_sha sv) (sv_voyage sv) s)) (\<lambda>em. ret (Some em))
                    else ret None) (\<lambda>emb.
             postgres sv ''PostgresKnowledgeGraph'' (the (database_url s)) (\<lambda>pool. PostgresKnowledgeGraph pool (Some pol) emb))
      else alloc (InMemoryKnowledgeGraph (Some pol)))"

definition make_ingestion_service :: "'w services \<Rightarrow> settings \<Rightarrow> nat \<Rightarrow> nat \<Rightarrow> nat \<Rightarrow> ('w, nat) build" where
  "make_ingestion_service sv s kg pol audit =
     andthen (if extraction_enabled s
              then andthen (lifted (make_extractor (sv_extract sv) s)) (\<lambda>x. ret (Some x)) else ret None) (\<lambda>ext.
       if extraction_max_entities s \<le> 0 \<or> extraction_max_relations s \<le> 0
       then lifted (Inl (Exn ''ValueError'' ''extraction caps must be positive''))
       else alloc (IngestionServiceObject kg pol audit ext (extraction_max_entities s) (extraction_max_relations s)))"

definition make_policy_store :: "'w services \<Rightarrow> settings \<Rightarrow> ('w, nat) build" where
  "make_policy_store sv s =
     (if str_set (database_url s)
      then andthen (postgres sv ''PostgresPolicyStore'' (the (database_url s)) PostgresPolicyStore) (\<lambda>store.
           andthen (lifted (sv_policies sv (the (database_url s)))) (\<lambda>t.
           andthen (if pg_is_empty t then warn EmptyPolicy
                    else warn_if (missing_default_grants t \<noteq> []) (PolicyDrift (missing_default_grants t))) (\<lambda>_. ret store)))
      else alloc InMemoryPolicyStore)"

definition make_credential_vault :: "'w services \<Rightarrow> settings \<Rightarrow> ('w, nat) build" where
  "make_credential_vault sv s =
     (if credential_vault_enabled s
      then andthen (lifted (hc_build_client (sv_login sv) (sv_authenticated sv) s)) (\<lambda>_.
           andthen (lifted (sv_vault_setup sv (hc_mount s))) (\<lambda>_. alloc (HashiCorpCredentialVault (hc_mount s))))
      else andthen (warn_if (oauth_routes_enabled s \<and> \<not> str_set (database_url s)) VaultInMemory) (\<lambda>_.
           alloc InMemoryCredentialVault))"

definition graph_adapter_engine ::
  "'w services \<Rightarrow> settings \<Rightarrow> 'w resolver option \<Rightarrow> 'w registry \<Rightarrow> ('w, 'w registry) build" where
  "graph_adapter_engine sv s resolver reg =
     andthen (warn_if (resolver = None) OAuthToolsUnwired) (\<lambda>_.
       let dirname = (if adapter_schema_dir s \<noteq> [] then adapter_schema_dir s else sv_packaged sv)
       in lifted (apply_adapter_engine (sv_verr sv) (sv_lax sv) (sv_parse_url sv) (sv_decode sv) dirname
            (sv_schema_dir sv dirname) (map lower (csv (adapter_egress_allowlist s))) (adapter_egress_proxy_url s)
            (adapter_egress_proxy_auth s) (sv_network sv) resolver reg))"

definition live_registry :: "'w services \<Rightarrow> settings \<Rightarrow> 'w resolver option \<Rightarrow> 'w registry result" where
  "live_registry sv s resolver =
     default_registry (sv_verr sv) (email_configured s) (slack_configured s) (database_url s \<noteq> None)
       (sv_email sv s) (sv_slack sv s) (sv_gmail sv) (sv_calendar sv) (sv_slack_user sv) resolver"

text \<open>\<open>knowledge.bind_policy(policy)\<close>.\<close>

definition rebind :: "nat \<Rightarrow> 'w object \<Rightarrow> 'w object" where
  "rebind pol x = (case x of
     PostgresKnowledgeGraph pool _ emb \<Rightarrow> PostgresKnowledgeGraph pool (Some pol) emb
   | InMemoryKnowledgeGraph _ \<Rightarrow> InMemoryKnowledgeGraph (Some pol)
   | _ \<Rightarrow> x)"

definition bind_kg_policy :: "nat \<Rightarrow> nat \<Rightarrow> ('w, unit) build" where
  "bind_kg_policy kg pol pr =
     (Inr (), pr\<lparr>objects := (objects pr)[kg := rebind pol (objects pr ! kg)]\<rparr>)"

section \<open>The agent\<close>

record 'w compiled_graph =
  cg_plan :: "'w plan_fn"
  cg_planner_registry :: "'w registry"
  cg_planner_audit :: nat
  cg_planner_knowledge :: nat
  cg_planner_policy :: nat
  cg_approval_audit :: nat
  cg_executor_registry :: "'w registry"
  cg_executor_audit :: nat
  cg_executor_policy :: nat
  cg_narrator :: "responder_narrator option"
  cg_saver :: nat

record 'w atlas =
  at_graph :: "'w compiled_graph"
  at_audit :: nat
  at_registry :: "'w registry"
  at_knowledge :: nat
  at_policy :: nat
  at_vault :: nat
  at_ingestion :: nat

record 'w injected =
  in_registry :: "'w registry option"
  in_audit :: "nat option"
  in_plan :: "'w plan_fn option"
  in_knowledge :: "nat option"
  in_policy :: "nat option"
  in_saver :: "nat option"

definition or_make :: "'a option \<Rightarrow> ('w, 'a) build \<Rightarrow> ('w, 'a) build" where
  "or_make given mk = (case given of Some x \<Rightarrow> ret x | None \<Rightarrow> mk)"

definition startup_warnings :: "settings \<Rightarrow> ('w, unit) build" where
  "startup_warnings s =
     (let db = str_set (database_url s) in
      andthen (if db \<and> \<not> email_configured s then warn EmailMissing
               else warn_if (email_configured s \<and> \<not> db) EmailWithoutAudit) (\<lambda>_.
      if db \<and> \<not> slack_configured s then warn SlackMissing
      else warn_if (slack_configured s \<and> \<not> db) SlackWithoutAudit))"

definition build_graph :: "'w services \<Rightarrow> settings \<Rightarrow> 'w injected \<Rightarrow> ('w, 'w atlas) build" where
  "build_graph sv s given =
     andthen (startup_warnings s) (\<lambda>_.
     andthen (make_credential_vault sv s) (\<lambda>vault.
     let resolver = (if str_set (database_url s) then Some (sv_resolver sv vault s) else None) in
     andthen (or_make (in_registry given) (lifted (live_registry sv s resolver))) (\<lambda>reg0.
     andthen (if adapter_engine_enabled s then graph_adapter_engine sv s resolver reg0 else ret reg0) (\<lambda>reg.
     andthen (or_make (in_audit given) (make_audit_log sv s)) (\<lambda>audit.
     let plan = (case in_plan given of Some f \<Rightarrow> f | None \<Rightarrow> make_plan_fn sv s) in
     andthen (or_make (in_policy given) (make_policy_store sv s)) (\<lambda>pol.
     andthen (case in_knowledge given of
                None \<Rightarrow> make_knowledge_graph sv s pol
              | Some k \<Rightarrow> andthen (bind_kg_policy k pol) (\<lambda>_. ret k)) (\<lambda>kg.
     andthen (or_make (in_saver given) (make_checkpointer sv s)) (\<lambda>saver.
     andthen (lifted (make_responder_llm s)) (\<lambda>narrator.
     andthen (make_ingestion_service sv s kg pol audit) (\<lambda>ingestion.
       ret \<lparr>at_graph = \<lparr>cg_plan = plan, cg_planner_registry = reg, cg_planner_audit = audit,
              cg_planner_knowledge = kg, cg_planner_policy = pol, cg_approval_audit = audit,
              cg_executor_registry = reg, cg_executor_audit = audit, cg_executor_policy = pol,
              cg_narrator = narrator, cg_saver = saver\<rparr>,
            at_audit = audit, at_registry = reg, at_knowledge = kg, at_policy = pol, at_vault = vault,
            at_ingestion = ingestion\<rparr>))))))))))"

section \<open>Steps of the assembly\<close>

lemma andthen_Inr:
  "andthen m f pr = (Inr y, pr'') \<longleftrightarrow> (\<exists>x pr'. m pr = (Inr x, pr') \<and> f x pr' = (Inr y, pr''))"
  by (auto simp: andthen_def split: prod.splits sum.splits)

lemma ret_Inr [simp]: "ret x pr = (Inr y, pr') \<longleftrightarrow> y = x \<and> pr' = pr"
  by (auto simp: ret_def)

lemma lifted_Inr [simp]: "lifted r pr = (Inr y, pr') \<longleftrightarrow> r = Inr y \<and> pr' = pr"
  by (auto simp: lifted_def)

lemma alloc_Inr [simp]:
  "alloc x pr = (Inr r, pr') \<longleftrightarrow> r = length (objects pr) \<and> pr' = pr\<lparr>objects := objects pr @ [x]\<rparr>"
  by (auto simp: alloc_def)

text \<open>Every cached pool is an open pool of its connection string.\<close>

definition process_ok :: "'w process \<Rightarrow> bool" where
  "process_ok pr \<longleftrightarrow> (\<forall>(dsn, r) \<in> set (pools pr). r < length (objects pr) \<and> objects pr ! r = ConnectionPool dsn)"

definition is_knowledge :: "'w object \<Rightarrow> bool" where
  "is_knowledge x \<longleftrightarrow> (case x of PostgresKnowledgeGraph _ _ _ \<Rightarrow> True | InMemoryKnowledgeGraph _ \<Rightarrow> True | _ \<Rightarrow> False)"

definition bound_policy :: "'w object \<Rightarrow> nat option" where
  "bound_policy x = (case x of PostgresKnowledgeGraph _ p _ \<Rightarrow> p | InMemoryKnowledgeGraph p \<Rightarrow> p | _ \<Rightarrow> None)"

lemma rebind_other [simp]: "\<not> is_knowledge x \<Longrightarrow> rebind p x = x"
  by (cases x) (simp_all add: rebind_def is_knowledge_def)

lemma rebind_knowledge [simp]:
  "is_knowledge (rebind p x) = is_knowledge x" "is_knowledge x \<Longrightarrow> bound_policy (rebind p x) = Some p"
  by (cases x; simp add: rebind_def is_knowledge_def bound_policy_def)+

lemma is_knowledge_simps [simp]:
  "\<not> is_knowledge (ConnectionPool d)" "\<not> is_knowledge (PostgresAuditLog r)" "\<not> is_knowledge InMemoryAuditLog"
  "\<not> is_knowledge (PostgresPolicyStore r)" "\<not> is_knowledge InMemoryPolicyStore"
  by (simp_all add: is_knowledge_def)

text \<open>What a factory may do to the process: it adds objects and keeps the others, up to the policy a knowledge graph is
  bound to, and the pool of the settings' database stays the cached one.\<close>

definition evolves :: "settings \<Rightarrow> 'w process \<Rightarrow> 'w process \<Rightarrow> bool" where
  "evolves s pr pr' \<longleftrightarrow>
     length (objects pr) \<le> length (objects pr') \<and>
     (\<forall>i < length (objects pr). \<not> is_knowledge (objects pr ! i) \<longrightarrow> objects pr' ! i = objects pr ! i) \<and>
     (process_ok pr \<longrightarrow> process_ok pr') \<and> set (warnings pr) \<subseteq> set (warnings pr') \<and>
     (\<forall>r. map_of (pools pr) (the (database_url s)) = Some r \<longrightarrow> map_of (pools pr') (the (database_url s)) = Some r)"

definition appends :: "'w process \<Rightarrow> 'w process \<Rightarrow> bool" where
  "appends pr pr' \<longleftrightarrow> (\<exists>xs. objects pr' = objects pr @ xs)"

definition builds :: "settings \<Rightarrow> ('w, 'a) build \<Rightarrow> bool" where
  "builds s m \<longleftrightarrow> (\<forall>pr x pr'. m pr = (x, pr') \<longrightarrow> evolves s pr pr' \<and> appends pr pr')"

lemma evolves_refl [simp]: "evolves s pr pr"
  by (simp add: evolves_def)

lemma evolves_trans: "evolves s p1 p2 \<Longrightarrow> evolves s p2 p3 \<Longrightarrow> evolves s p1 p3"
  unfolding evolves_def by (metis le_trans less_le_trans subset_trans)

lemma appends_trans: "appends p1 p2 \<Longrightarrow> appends p2 p3 \<Longrightarrow> appends p1 p3"
  by (auto simp: appends_def)

lemma appends_nth: "appends pr pr' \<Longrightarrow> i < length (objects pr) \<Longrightarrow> i < length (objects pr') \<and> objects pr' ! i = objects pr ! i"
  by (auto simp: appends_def nth_append)

lemma builds_ret [intro]: "builds s (ret x)"
  by (simp add: builds_def ret_def appends_def)

lemma builds_lifted [intro]: "builds s (lifted r)"
  by (simp add: builds_def lifted_def appends_def)

lemma builds_warn [intro]: "builds s (warn x)" "builds s (warn_if b x)"
  by (auto simp: builds_def warn_def warn_if_def ret_def appends_def evolves_def process_ok_def)

lemma builds_alloc [intro]: "builds s (alloc x)"
  by (fastforce simp: builds_def alloc_def appends_def evolves_def process_ok_def nth_append)

lemma builds_andthen [intro]:
  assumes "builds s m" "\<And>x. builds s (f x)"
  shows "builds s (andthen m f)"
  unfolding builds_def
proof (intro allI impI)
  fix pr y pr'' assume a: "andthen m f pr = (y, pr'')"
  obtain x pr' where m: "m pr = (x, pr')" by (cases "m pr")
  then have e: "evolves s pr pr'" "appends pr pr'" using assms(1) by (auto simp: builds_def)
  show "evolves s pr pr'' \<and> appends pr pr''"
  proof (cases x)
    case (Inl exc)
    with a m e show ?thesis by (simp add: andthen_def)
  next
    case (Inr v)
    then have "f v pr' = (y, pr'')" using a m by (simp add: andthen_def)
    with assms(2) [of v] e show ?thesis unfolding builds_def using evolves_trans appends_trans by blast
  qed
qed

lemma builds_or_make [intro]: "builds s mk \<Longrightarrow> builds s (or_make given mk)"
  by (cases given) (auto simp: or_make_def)

lemma builds_if [intro]: "builds s m \<Longrightarrow> builds s m' \<Longrightarrow> builds s (if b then m else m')"
  by simp

lemma pools_process_ok:
  "process_ok pr \<Longrightarrow> map_of (pools pr) dsn = Some r \<Longrightarrow> r < length (objects pr) \<and> objects pr ! r = ConnectionPool dsn"
  unfolding process_ok_def by (blast dest: map_of_SomeD)

lemma pg_pool_Inr: "pg_pool dsn pr = (x, pr') \<Longrightarrow> \<exists>r. x = Inr r \<and> map_of (pools pr') dsn = Some r"
  by (auto simp: pg_pool_def Let_def split: option.splits)

lemma builds_pg_pool [intro]:
  assumes "dsn = the (database_url s)"
  shows "builds s (pg_pool dsn)"
  unfolding builds_def
proof (intro allI impI)
  fix pr :: "'a process" and x pr' assume p: "pg_pool dsn pr = (x, pr')"
  show "evolves s pr pr' \<and> appends pr pr'"
  proof (cases "map_of (pools pr) dsn")
    case None
    then have pr': "pr' = pr\<lparr>objects := objects pr @ [ConnectionPool dsn],
        pools := take 8 ((dsn, length (objects pr)) # pools pr)\<rparr>"
      using p by (auto simp: pg_pool_def Let_def)
    have "process_ok pr \<Longrightarrow> process_ok pr'"
      unfolding pr' process_ok_def by (auto simp: nth_append dest!: in_set_takeD)
    moreover have "objects pr' = objects pr @ [ConnectionPool dsn]" "warnings pr' = warnings pr" by (simp_all add: pr')
    ultimately show ?thesis using None assms by (simp add: evolves_def appends_def nth_append)
  next
    case (Some r)
    then have pr': "pr' = pr\<lparr>pools := (dsn, r) # filter (\<lambda>(d, _). d \<noteq> dsn) (pools pr)\<rparr>"
      using p by (auto simp: pg_pool_def Let_def)
    have "process_ok pr \<Longrightarrow> process_ok pr'"
      using Some unfolding pr' process_ok_def by (auto dest: map_of_SomeD)
    then show ?thesis using Some assms by (simp add: pr' evolves_def appends_def)
  qed
qed

lemma builds_postgres [intro]: "dsn = the (database_url s) \<Longrightarrow> builds s (postgres sv cls dsn obj)"
  unfolding postgres_def by (intro builds_andthen builds_pg_pool builds_lifted builds_alloc)

lemma postgres_Inr:
  assumes "postgres sv cls dsn obj pr = (Inr x, pr')"
  shows "\<exists>r. map_of (pools pr') dsn = Some r \<and> x < length (objects pr') \<and> objects pr' ! x = obj r"
  using assms unfolding postgres_def andthen_Inr by (auto dest: pg_pool_Inr)

lemma builds_factories [intro]:
  "builds s (make_checkpointer sv s)" "builds s (make_audit_log sv s)" "builds s (make_knowledge_graph sv s pol)"
  "builds s (make_ingestion_service sv s kg pol audit)" "builds s (make_policy_store sv s)"
  "builds s (make_credential_vault sv s)" "builds s (graph_adapter_engine sv s resolver reg)" "builds s (startup_warnings s)"
  unfolding make_checkpointer_def make_audit_log_def make_knowledge_graph_def make_ingestion_service_def
    make_policy_store_def make_credential_vault_def graph_adapter_engine_def startup_warnings_def Let_def
  by (intro builds_andthen builds_if builds_postgres builds_lifted builds_alloc builds_ret builds_warn refl)+

lemma builds_evolves: "builds s m \<Longrightarrow> m pr = (Inr x, pr') \<Longrightarrow> evolves s pr pr' \<and> appends pr pr'"
  by (auto simp: builds_def)

lemma evolves_object:
  "evolves s pr pr' \<Longrightarrow> i < length (objects pr) \<Longrightarrow> objects pr ! i = x \<Longrightarrow> \<not> is_knowledge x \<Longrightarrow>
   i < length (objects pr') \<and> objects pr' ! i = x"
  by (auto simp: evolves_def)

lemma evolves_pool: "evolves s pr pr' \<Longrightarrow> map_of (pools pr) (the (database_url s)) = Some r \<Longrightarrow>
    map_of (pools pr') (the (database_url s)) = Some r"
  by (simp add: evolves_def)

text \<open>What a factory returns, stated of the process it leaves.\<close>

definition db_object :: "settings \<Rightarrow> 'w process \<Rightarrow> nat \<Rightarrow> (nat \<Rightarrow> 'w object) \<Rightarrow> 'w object \<Rightarrow> bool" where
  "db_object s pr x obj fallback \<longleftrightarrow> x < length (objects pr) \<and>
     (if str_set (database_url s)
      then \<exists>r. map_of (pools pr) (the (database_url s)) = Some r \<and> objects pr ! x = obj r
      else objects pr ! x = fallback)"

lemma db_object_evolves:
  "db_object s pr x obj fb \<Longrightarrow> evolves s pr pr' \<Longrightarrow> (\<And>r. \<not> is_knowledge (obj r)) \<Longrightarrow> \<not> is_knowledge fb \<Longrightarrow>
   db_object s pr' x obj fb"
  unfolding db_object_def by (auto split: if_splits dest: evolves_pool evolves_object)

lemma make_audit_log_Inr: "make_audit_log sv s pr = (Inr x, pr') \<Longrightarrow> db_object s pr' x PostgresAuditLog InMemoryAuditLog"
  by (auto simp: make_audit_log_def db_object_def dest: postgres_Inr split: if_splits)

lemma make_policy_store_Inr:
  "make_policy_store sv s pr = (Inr x, pr') \<Longrightarrow> db_object s pr' x PostgresPolicyStore InMemoryPolicyStore"
  by (fastforce simp: make_policy_store_def db_object_def andthen_Inr warn_if_def warn_def
      dest: postgres_Inr split: if_splits)

lemma make_knowledge_graph_Inr:
  assumes "make_knowledge_graph sv s pol pr = (Inr x, pr')"
  shows "\<exists>emb. db_object s pr' x (\<lambda>r. PostgresKnowledgeGraph r (Some pol) emb) (InMemoryKnowledgeGraph (Some pol))"
proof (cases "str_set (database_url s)")
  case True
  with assms obtain emb p1 where "postgres sv ''PostgresKnowledgeGraph'' (the (database_url s))
      (\<lambda>pool. PostgresKnowledgeGraph pool (Some pol) emb) p1 = (Inr x, pr')"
    by (auto simp: make_knowledge_graph_def andthen_Inr)
  from postgres_Inr [OF this] True show ?thesis by (auto simp: db_object_def)
qed (use assms in \<open>auto simp: make_knowledge_graph_def db_object_def\<close>)

lemma make_checkpointer_Inr:
  "make_checkpointer sv s pr = (Inr x, pr') \<Longrightarrow>
   db_object s pr' x PostgresSaver (if str_set (sqlite_path s) then SqliteSaver (the (sqlite_path s)) else InMemorySaver)"
  by (auto simp: make_checkpointer_def db_object_def andthen_Inr dest: postgres_Inr split: if_splits)

lemma make_ingestion_service_Inr:
  "make_ingestion_service sv s kg pol audit pr = (Inr x, pr') \<Longrightarrow> x < length (objects pr') \<and>
   (\<exists>ext. objects pr' ! x = IngestionServiceObject kg pol audit ext (extraction_max_entities s) (extraction_max_relations s))"
  by (auto simp: make_ingestion_service_def andthen_Inr split: if_splits)

lemma db_object_appends:
  "db_object s pr x obj fb \<Longrightarrow> evolves s pr pr' \<Longrightarrow> appends pr pr' \<Longrightarrow> db_object s pr' x obj fb"
  unfolding db_object_def using appends_nth [of pr pr' x] by (auto split: if_splits dest: evolves_pool)

lemma bind_kg_policy_Inr:
  assumes "bind_kg_policy k pol pr = (x, pr')" "k < length (objects pr)" "is_knowledge (objects pr ! k)"
  shows "evolves s pr pr' \<and> k < length (objects pr') \<and> is_knowledge (objects pr' ! k) \<and>
    bound_policy (objects pr' ! k) = Some pol"
proof -
  have pr': "pr' = pr\<lparr>objects := (objects pr)[k := rebind pol (objects pr ! k)]\<rparr>"
    using assms(1) by (simp add: bind_kg_policy_def)
  have "objects pr ! y = ConnectionPool d \<Longrightarrow> (objects pr)[k := rebind pol (objects pr ! k)] ! y = ConnectionPool d" for y d
    using assms(3) by (cases "y = k") auto
  then have "process_ok pr \<Longrightarrow> process_ok pr'" unfolding pr' process_ok_def by fastforce
  then show ?thesis using assms(2,3) by (auto simp: pr' evolves_def nth_list_update)
qed

text \<open>The stages of a successful assembly.\<close>

lemma build_graph_stages:
  assumes "build_graph sv s given pr = (Inr a, pr')"
  obtains vault p1 p2 p3 p4 p5 p6 p7 p8 reg0 narrator resolver where
    "startup_warnings s pr = (Inr (), p1)" "make_credential_vault sv s p1 = (Inr vault, p2)"
    "resolver = (if str_set (database_url s) then Some (sv_resolver sv vault s) else None)"
    "or_make (in_registry given) (lifted (live_registry sv s resolver)) p2 = (Inr reg0, p3)"
    "(if adapter_engine_enabled s then graph_adapter_engine sv s resolver reg0 else ret reg0) p3 = (Inr (at_registry a), p4)"
    "or_make (in_audit given) (make_audit_log sv s) p4 = (Inr (at_audit a), p5)"
    "or_make (in_policy given) (make_policy_store sv s) p5 = (Inr (at_policy a), p6)"
    "(case in_knowledge given of None \<Rightarrow> make_knowledge_graph sv s (at_policy a)
      | Some k \<Rightarrow> andthen (bind_kg_policy k (at_policy a)) (\<lambda>_. ret k)) p6 = (Inr (at_knowledge a), p7)"
    "or_make (in_saver given) (make_checkpointer sv s) p7 = (Inr (cg_saver (at_graph a)), p8)"
    "make_responder_llm s = Inr narrator"
    "make_ingestion_service sv s (at_knowledge a) (at_policy a) (at_audit a) p8 = (Inr (at_ingestion a), pr')"
    "cg_planner_audit (at_graph a) = at_audit a" "cg_approval_audit (at_graph a) = at_audit a"
    "cg_executor_audit (at_graph a) = at_audit a" "cg_planner_policy (at_graph a) = at_policy a"
    "cg_executor_policy (at_graph a) = at_policy a" "cg_planner_knowledge (at_graph a) = at_knowledge a"
    "cg_planner_registry (at_graph a) = at_registry a" "cg_executor_registry (at_graph a) = at_registry a"
  using assms unfolding build_graph_def andthen_Inr Let_def ret_Inr lifted_Inr
  apply (elim exE conjE)
  apply hypsubst
  subgoal premises prems by (rule prems(1)) (use prems(2-) in \<open>simp_all cong: option.case_cong\<close>)
  done

lemma or_make_Inr: "or_make given mk pr = (Inr x, pr') \<Longrightarrow> given = Some x \<and> pr' = pr \<or> given = None \<and> mk pr = (Inr x, pr')"
  by (cases given) (auto simp: or_make_def)

lemma or_make_step: "or_make given mk pr = (Inr x, pr') \<Longrightarrow> builds s mk \<Longrightarrow> evolves s pr pr' \<and> appends pr pr'"
  by (rule builds_evolves [OF builds_or_make])

text \<open>The collaborators of an assembled agent, in the final process.\<close>

lemma assembled:
  assumes "build_graph sv s given pr = (Inr a, pr')"
    and "\<forall>k. in_knowledge given = Some k \<longrightarrow> k < length (objects pr) \<and> is_knowledge (objects pr ! k)"
  shows "evolves s pr pr' \<and> (\<exists>p1. startup_warnings s pr = (Inr (), p1) \<and> evolves s p1 pr') \<and>
    (in_audit given = None \<longrightarrow> db_object s pr' (at_audit a) PostgresAuditLog InMemoryAuditLog) \<and>
    (in_policy given = None \<longrightarrow> db_object s pr' (at_policy a) PostgresPolicyStore InMemoryPolicyStore) \<and>
    (in_knowledge given = None \<longrightarrow> (\<exists>emb. db_object s pr' (at_knowledge a)
       (\<lambda>r. PostgresKnowledgeGraph r (Some (at_policy a)) emb) (InMemoryKnowledgeGraph (Some (at_policy a))))) \<and>
    (in_saver given = None \<longrightarrow> db_object s pr' (cg_saver (at_graph a)) PostgresSaver
       (if str_set (sqlite_path s) then SqliteSaver (the (sqlite_path s)) else InMemorySaver)) \<and>
    bound_policy (objects pr' ! at_knowledge a) = Some (at_policy a) \<and>
    (\<exists>ext n m. objects pr' ! at_ingestion a =
       IngestionServiceObject (at_knowledge a) (at_policy a) (at_audit a) ext n m)"
  using assms(1)
proof (cases rule: build_graph_stages)
  case (1 vault p1 p2 p3 p4 p5 p6 p7 p8 reg0 narrator resolver)
  note e = builds_evolves [OF builds_factories(8) 1(1)] builds_evolves [OF builds_factories(6) 1(2)]
    or_make_step [OF 1(4) builds_lifted [of s]] builds_evolves [OF builds_if [OF builds_factories(7) builds_ret] 1(5)]
    or_make_step [OF 1(6) builds_factories(2)] or_make_step [OF 1(7) builds_factories(5)]
    or_make_step [OF 1(9) builds_factories(1)] builds_evolves [OF builds_factories(4) 1(11)]
  have to6: "evolves s pr p6" "appends pr p6"
    using evolves_trans [OF evolves_trans [OF evolves_trans [OF evolves_trans [OF evolves_trans]]]] e
      appends_trans [OF appends_trans [OF appends_trans [OF appends_trans [OF appends_trans]]]] by blast+
  have k7: "evolves s p6 p7 \<and> at_knowledge a < length (objects p7) \<and>
      bound_policy (objects p7 ! at_knowledge a) = Some (at_policy a) \<and>
      (in_knowledge given = None \<longrightarrow> (\<exists>emb. db_object s p7 (at_knowledge a)
         (\<lambda>r. PostgresKnowledgeGraph r (Some (at_policy a)) emb) (InMemoryKnowledgeGraph (Some (at_policy a)))))"
  proof (cases "in_knowledge given")
    case None
    then have mk: "make_knowledge_graph sv s (at_policy a) p6 = (Inr (at_knowledge a), p7)" using 1(8) by simp
    from make_knowledge_graph_Inr [OF this] builds_evolves [OF builds_factories(3) mk] None show ?thesis
      by (auto simp: db_object_def bound_policy_def split: if_splits)
  next
    case (Some k)
    with 1(8) have b: "bind_kg_policy k (at_policy a) p6 = (Inr (), p7)" "at_knowledge a = k"
      by (auto simp: andthen_Inr)
    from appends_nth [OF to6(2), of k] assms(2) Some have "k < length (objects p6) \<and> is_knowledge (objects p6 ! k)" by simp
    with bind_kg_policy_Inr [OF b(1)] b(2) Some show ?thesis by auto
  qed
  have to8: "evolves s p8 pr'" "appends p8 pr'" using e(8) by simp_all
  have to7: "evolves s p7 pr'" "appends p7 pr'" using evolves_trans [OF _ to8(1)] appends_trans [OF _ to8(2)] e(7) by simp_all
  have to6': "evolves s p6 pr'" using evolves_trans [OF _ to7(1)] k7 by simp
  have "evolves s p5 pr'" using evolves_trans [OF _ to6'] e(6) by simp
  note to = this to6' to7 to8
  have "in_audit given = None \<longrightarrow> db_object s pr' (at_audit a) PostgresAuditLog InMemoryAuditLog"
    using or_make_Inr [OF 1(6)] db_object_evolves [OF make_audit_log_Inr to(1)] by auto
  moreover have "in_policy given = None \<longrightarrow> db_object s pr' (at_policy a) PostgresPolicyStore InMemoryPolicyStore"
    using or_make_Inr [OF 1(7)] db_object_evolves [OF make_policy_store_Inr to(2)] by auto
  moreover have "in_saver given = None \<longrightarrow> db_object s pr' (cg_saver (at_graph a)) PostgresSaver
       (if str_set (sqlite_path s) then SqliteSaver (the (sqlite_path s)) else InMemorySaver)"
    using or_make_Inr [OF 1(9)] db_object_appends [OF make_checkpointer_Inr to(5,6)] by auto
  moreover have "bound_policy (objects pr' ! at_knowledge a) = Some (at_policy a)"
    using k7 appends_nth [OF to(4)] by metis
  moreover have "in_knowledge given = None \<longrightarrow> (\<exists>emb. db_object s pr' (at_knowledge a)
       (\<lambda>r. PostgresKnowledgeGraph r (Some (at_policy a)) emb) (InMemoryKnowledgeGraph (Some (at_policy a))))"
    using k7 db_object_appends [OF _ to(3,4)] by blast
  moreover have "\<exists>p1. startup_warnings s pr = (Inr (), p1) \<and> evolves s p1 pr'"
    using 1(1) evolves_trans [OF evolves_trans [OF evolves_trans [OF evolves_trans [OF evolves_trans]]]] e to(2) by blast
  moreover have "evolves s pr pr'" by (rule evolves_trans [OF to6(1) to(2)])
  ultimately show ?thesis using make_ingestion_service_Inr [OF 1(11)] by blast
qed

lemma db_object_pool:
  "db_object s pr x obj fb \<Longrightarrow> process_ok pr \<Longrightarrow> str_set (database_url s) \<Longrightarrow>
   objects pr ! x = obj (the (map_of (pools pr) (the (database_url s)))) \<and>
   objects pr ! the (map_of (pools pr) (the (database_url s))) = ConnectionPool (the (database_url s))"
  by (auto simp: db_object_def dest: pools_process_ok)

lemma assembled_postgres:
  assumes "build_graph sv s given pr = (Inr a, pr')" "process_ok pr'" "str_set (database_url s)"
    and k: "\<forall>k. in_knowledge given = Some k \<longrightarrow> k < length (objects pr) \<and> is_knowledge (objects pr ! k)"
  shows "\<exists>pool emb.
       (in_audit given = None \<longrightarrow> objects pr' ! at_audit a = PostgresAuditLog pool \<and>
          objects pr' ! pool = ConnectionPool (the (database_url s))) \<and>
       (in_policy given = None \<longrightarrow> objects pr' ! at_policy a = PostgresPolicyStore pool) \<and>
       (in_knowledge given = None \<longrightarrow>
          objects pr' ! at_knowledge a = PostgresKnowledgeGraph pool (Some (at_policy a)) emb) \<and>
       (in_saver given = None \<longrightarrow> objects pr' ! cg_saver (at_graph a) = PostgresSaver pool)"
proof -
  note f = assembled [OF assms(1) k]
  let ?r = "the (map_of (pools pr') (the (database_url s)))"
  obtain emb where emb: "in_knowledge given = None \<longrightarrow> db_object s pr' (at_knowledge a)
       (\<lambda>r. PostgresKnowledgeGraph r (Some (at_policy a)) emb) (InMemoryKnowledgeGraph (Some (at_policy a)))"
    using f by (cases "in_knowledge given") auto
  have pa: "objects pr' ! at_audit a = PostgresAuditLog ?r \<and> objects pr' ! ?r = ConnectionPool (the (database_url s))"
    if "in_audit given = None"
    using db_object_pool [OF _ assms(2,3), of "at_audit a" PostgresAuditLog InMemoryAuditLog] f that by simp
  have pp: "objects pr' ! at_policy a = PostgresPolicyStore ?r" if "in_policy given = None"
    using db_object_pool [OF _ assms(2,3), of "at_policy a" PostgresPolicyStore InMemoryPolicyStore] f that by simp
  have pk: "objects pr' ! at_knowledge a = PostgresKnowledgeGraph ?r (Some (at_policy a)) emb" if "in_knowledge given = None"
    using db_object_pool [OF mp [OF emb that] assms(2,3)] by blast
  have "in_saver given = None \<longrightarrow> db_object s pr' (cg_saver (at_graph a)) PostgresSaver
       (if str_set (sqlite_path s) then SqliteSaver (the (sqlite_path s)) else InMemorySaver)" using f by blast
  from db_object_pool [OF mp [OF this] assms(2,3)]
  have ps: "objects pr' ! cg_saver (at_graph a) = PostgresSaver ?r" if "in_saver given = None" using that by blast
  from pa pp pk ps show ?thesis by (intro exI [of _ ?r] exI [of _ emb] conjI impI) simp_all
qed


text \<open>The live tools of the default registry.\<close>

lemma live_registry_tools:
  "\<exists>reg. live_registry sv s resolver = Inr reg \<and>
     dict_get reg ''send_email'' = Some (send_email_tool (sv_verr sv)
       (if email_configured s \<and> database_url s \<noteq> None then Some (sv_email sv s) else None)) \<and>
     dict_get reg ''slack_post'' = Some (slack_post_tool (sv_verr sv)
       (if slack_configured s \<and> database_url s \<noteq> None then Some (sv_slack sv s) else None)) \<and>
     dict_get reg ''gmail_send'' = Some (if resolver \<noteq> None \<and> database_url s \<noteq> None
       then gmail_send_tool (sv_verr sv) (Some (sv_gmail sv)) resolver else gmail_send_tool (sv_verr sv) None None)"
proof -
  obtain g c su r where o: "resolve_oauth_tools (database_url s \<noteq> None) resolver (sv_gmail sv) (sv_calendar sv)
      (sv_slack_user sv) = (g, c, su, r)"
    by (metis prod_cases4)
  have n: "t_name (search_tool v) = ''search''" "t_name (send_email_tool v e) = ''send_email''"
    "t_name (slack_post_tool v e') = ''slack_post''" "t_name (gmail_send_tool v g' r') = ''gmail_send''"
    "t_name (calendar_create_event_tool v c' r') = ''calendar_create_event''"
    "t_name (slack_post_as_user_tool v su' r') = ''slack_post_as_user''" for v e e' g' r' c' su'
    by (simp_all add: tool_defs)
  have "gmail_send_tool (sv_verr sv) g r = (if resolver \<noteq> None \<and> database_url s \<noteq> None
      then gmail_send_tool (sv_verr sv) (Some (sv_gmail sv)) resolver else gmail_send_tool (sv_verr sv) None None)"
    using o by (cases resolver) (auto simp: resolve_oauth_tools_def split: if_splits)
  moreover have "live_registry sv s resolver = Inr (map (\<lambda>t. (t_name t, t)) (builtin_tools (sv_verr sv)
      (resolve_sender (email_configured s) (database_url s \<noteq> None) (sv_email sv s))
      (resolve_sender (slack_configured s) (database_url s \<noteq> None) (sv_slack sv s)) g c su r))"
    unfolding live_registry_def by (rule default_registry_tools [OF o])
  ultimately show ?thesis
    by (intro exI [of _ "map (\<lambda>t. (t_name t, t)) (builtin_tools (sv_verr sv)
      (resolve_sender (email_configured s) (database_url s \<noteq> None) (sv_email sv s))
      (resolve_sender (slack_configured s) (database_url s \<noteq> None) (sv_slack sv s)) g c su r)"] conjI)
      (simp_all add: builtin_tools_def n resolve_sender_def)
qed


definition nothing_given :: "'w injected" where
  "nothing_given = \<lparr>in_registry = None, in_audit = None, in_plan = None, in_knowledge = None, in_policy = None,
     in_saver = None\<rparr>"

lemma unset_database: "\<not> str_set v \<longleftrightarrow> v = None \<or> v = Some []"
  by (auto simp: str_set_def split: option.splits)


definition demo_services :: "unit services" where
  "demo_services = \<lparr>sv_verr = (\<lambda>_ _. []), sv_setup = (\<lambda>_ _. Inr ()), sv_sqlite = (\<lambda>_. Inr ()), sv_policies = (\<lambda>_. Inr []),
     sv_login = (\<lambda>_ _. Inr []), sv_authenticated = (\<lambda>_. True), sv_vault_setup = (\<lambda>_. Inr ()),
     sv_resolver = (\<lambda>_ _ _ _ _ w. (Inr ''token'', w)), sv_email = (\<lambda>_ _ w. (Inr PNone, w)),
     sv_slack = (\<lambda>_ _ w. (Inr PNone, w)), sv_gmail = (\<lambda>_ _ w. (Inr PNone, w)), sv_calendar = (\<lambda>_ _ w. (Inr PNone, w)),
     sv_slack_user = (\<lambda>_ _ w. (Inr PNone, w)), sv_lax = (\<lambda>_ v. Inr v), sv_parse_url = (\<lambda>_. Inl (Exn ''InvalidURL'' [])),
     sv_decode = (\<lambda>_. Inl (Exn ''ValueError'' [])), sv_packaged = [], sv_schema_dir = (\<lambda>_. None),
     sv_network = \<lparr>nw_dns = (\<lambda>_ _ _. Inr []), nw_send = (\<lambda>_ w. (Inl (Exn ''ConnectError'' []), w))\<rparr>,
     sv_float = \<lparr>fl_rnd = (\<lambda>x. x), fl_sum = sum_list, fl_repr = (\<lambda>_. [])\<rparr>, sv_sha = (\<lambda>_ _. 0), sv_voyage = (\<lambda>_ _ w _ _. (Inr [], w)),
     sv_extract = (\<lambda>_ _. Inr empty_extraction), sv_chat = (\<lambda>_ _ _. Inr []), sv_narrate = (\<lambda>_ _ _. Inr PNone),
     sv_fresh = (\<lambda>_. ''act_1'')\<rparr>"

definition demo_process :: "unit process" where
  "demo_process = \<lparr>objects = [], pools = [], warnings = []\<rparr>"

lemma demo_builds:
  assumes "make_responder_llm s = Inr None" "\<not> embeddings_configured s" "\<not> extraction_enabled s"
    "0 < extraction_max_entities s" "0 < extraction_max_relations s" "\<not> credential_vault_enabled s" "\<not> adapter_engine_enabled s"
  shows "\<exists>a pr'. build_graph demo_services s nothing_given demo_process = (Inr a, pr')"
proof -
  define resolver where "resolver = (if str_set (database_url s) then Some (sv_resolver demo_services 0 s) else None)"
  obtain reg where "live_registry demo_services s resolver = Inr reg" using live_registry_tools by blast
  with assms show ?thesis
    by (auto simp: build_graph_def andthen_def nothing_given_def or_make_def startup_warnings_def warn_if_def warn_def ret_def
        lifted_def alloc_def make_credential_vault_def make_audit_log_def make_policy_store_def make_knowledge_graph_def
        make_checkpointer_def make_ingestion_service_def postgres_def pg_pool_def demo_process_def demo_services_def
        resolver_def pg_is_empty_def Let_def)
qed

lemma demo_assembly:
  "s \<in> {default_settings\<lparr>database_url := Some d\<rparr>,
     default_settings\<lparr>database_url := Some d, resend_api_key := Some k, email_from := Some e\<rparr>} \<Longrightarrow>
   \<exists>a pr'. build_graph demo_services s nothing_given demo_process = (Inr a, pr')"
  by (rule demo_builds)
    (auto simp: make_responder_llm_def responder_llm_active_def embeddings_configured_def extraction_enabled_def
      credential_vault_enabled_def vault_configured_def vault_has_role_def nonempty_str_def nonempty_secret_def default_settings_def)

section \<open>Properties\<close>

text \<open>C14: one of everything. When \<open>build_graph\<close> returns an agent, the planner, the approval node, the executor and the
  ingestion service write to the same audit log, the planner, the executor, the ingestion service and the knowledge
  graph ask the same policy store, and the planner reads the graph that ingestion writes, also when a graph was
  injected that had been bound to another policy. The collaborators that were not injected are the Postgres ones over
  one shared connection pool of the configured database when a database is configured, and in memory when not.\<close>

theorem assembled_agent_shares:
  assumes "build_graph sv s given pr = (Inr a, pr')" "process_ok pr"
    and "\<forall>k. in_knowledge given = Some k \<longrightarrow> k < length (objects pr) \<and> is_knowledge (objects pr ! k)"
  shows "process_ok pr' \<and>
    {cg_planner_audit (at_graph a), cg_approval_audit (at_graph a), cg_executor_audit (at_graph a)} = {at_audit a} \<and>
    {cg_planner_policy (at_graph a), cg_executor_policy (at_graph a)} = {at_policy a} \<and>
    cg_planner_knowledge (at_graph a) = at_knowledge a \<and>
    bound_policy (objects pr' ! at_knowledge a) = Some (at_policy a) \<and>
    (\<exists>ext n m. objects pr' ! at_ingestion a =
       IngestionServiceObject (at_knowledge a) (at_policy a) (at_audit a) ext n m) \<and>
    (str_set (database_url s) \<longrightarrow> (\<exists>pool emb.
       (in_audit given = None \<longrightarrow> objects pr' ! at_audit a = PostgresAuditLog pool \<and>
          objects pr' ! pool = ConnectionPool (the (database_url s))) \<and>
       (in_policy given = None \<longrightarrow> objects pr' ! at_policy a = PostgresPolicyStore pool) \<and>
       (in_knowledge given = None \<longrightarrow>
          objects pr' ! at_knowledge a = PostgresKnowledgeGraph pool (Some (at_policy a)) emb) \<and>
       (in_saver given = None \<longrightarrow> objects pr' ! cg_saver (at_graph a) = PostgresSaver pool))) \<and>
    (\<not> str_set (database_url s) \<longrightarrow>
       (in_audit given = None \<longrightarrow> objects pr' ! at_audit a = InMemoryAuditLog) \<and>
       (in_policy given = None \<longrightarrow> objects pr' ! at_policy a = InMemoryPolicyStore) \<and>
       (in_knowledge given = None \<longrightarrow> objects pr' ! at_knowledge a = InMemoryKnowledgeGraph (Some (at_policy a))))"
proof -
  note f = assembled [OF assms(1,3)]
  have ok: "process_ok pr'" using f assms(2) by (simp add: evolves_def)
  have "\<not> str_set (database_url s) \<longrightarrow>
       (in_audit given = None \<longrightarrow> objects pr' ! at_audit a = InMemoryAuditLog) \<and>
       (in_policy given = None \<longrightarrow> objects pr' ! at_policy a = InMemoryPolicyStore) \<and>
       (in_knowledge given = None \<longrightarrow> objects pr' ! at_knowledge a = InMemoryKnowledgeGraph (Some (at_policy a)))"
    using f unfolding db_object_def by auto
  moreover have "bound_policy (objects pr' ! at_knowledge a) = Some (at_policy a)" using f by simp
  moreover have "\<exists>ext n m. objects pr' ! at_ingestion a =
      IngestionServiceObject (at_knowledge a) (at_policy a) (at_audit a) ext n m" using f by simp
  moreover have "cg_planner_audit (at_graph a) = at_audit a \<and> cg_approval_audit (at_graph a) = at_audit a \<and>
      cg_executor_audit (at_graph a) = at_audit a \<and> cg_planner_policy (at_graph a) = at_policy a \<and>
      cg_executor_policy (at_graph a) = at_policy a \<and> cg_planner_knowledge (at_graph a) = at_knowledge a"
    using assms(1) by (cases rule: build_graph_stages) simp
  ultimately show ?thesis using ok assembled_postgres [OF assms(1) ok _ assms(3)] by simp
qed

definition demo_db :: settings where
  "demo_db = default_settings\<lparr>database_url := Some ''postgres''\<rparr>"

theorem assembled_agent_shares_witness:
  "\<exists>a pr' pool. build_graph demo_services demo_db nothing_given demo_process = (Inr a, pr') \<and>
     objects pr' ! at_audit a = PostgresAuditLog pool \<and> objects pr' ! pool = ConnectionPool ''postgres''"
proof -
  have "str_set (database_url demo_db)" by (simp add: demo_db_def str_set_def)
  obtain a pr' where b: "build_graph demo_services demo_db nothing_given demo_process = (Inr a, pr')"
    using demo_assembly [of demo_db] unfolding demo_db_def by blast
  from assembled_agent_shares [OF b] \<open>str_set (database_url demo_db)\<close> show ?thesis
    using b by (auto simp: nothing_given_def demo_process_def process_ok_def demo_db_def)
qed


definition demo_example_env :: settings where
  "demo_example_env = default_settings\<lparr>database_url := Some [], resend_api_key := Some ''key'', email_from := Some ''a@b.co''\<rparr>"


end
