(* ===== verification/App.thy ===== *)
theory App
  imports Service Assembly
begin

text \<open>
  \<open>create_app\<close> of \<^verbatim>\<open>src/src/atlas/interface/app.py\<close>: what the FastAPI application keeps in \<open>app.state\<close>, built from the
  settings or injected. The routers are the calls of theory \<open>Service\<close>, the handlers of \<open>OAuth\<close> and of \<open>Ingestion\<close>;
  the exception handlers are \<open>error_body\<close> of theory \<open>Interface\<close>.
\<close>

record ('w, 'l) app_state =
  ap_settings :: settings
  ap_atlas :: "'w atlas"
  ap_vault :: nat
  ap_authenticator :: "oidc option"
  ap_rate_limiter :: "(string \<Rightarrow> 'l \<Rightarrow> rate_decision \<times> 'l) option"

definition no_injection :: "'w injected" where
  "no_injection = \<lparr>in_registry = None, in_audit = None, in_plan = None, in_knowledge = None, in_policy = None, in_saver = None\<rparr>"

definition create_app :: "'w services \<Rightarrow> jwt_library \<Rightarrow> (ratelimit \<Rightarrow> string \<Rightarrow> 'l \<Rightarrow> (bool \<times> real) result \<times> 'l)
    \<Rightarrow> ('l \<Rightarrow> real) \<Rightarrow> 'w atlas option \<Rightarrow> settings \<Rightarrow> oidc option \<Rightarrow> (string \<Rightarrow> 'l \<Rightarrow> rate_decision \<times> 'l) option
    \<Rightarrow> ('w, ('w, 'l) app_state) build" where
  "create_app sv jl limit clock given s authenticator limiter =
     andthen (or_make given (build_graph sv s no_injection)) (\<lambda>built.
     let auth = (case authenticator of Some a \<Rightarrow> Some a | None \<Rightarrow> build_authenticator jl s) in
     andthen (case limiter of Some l \<Rightarrow> ret (Some l) | None \<Rightarrow> lifted (build_rate_limiter limit clock s)) (\<lambda>rl.
       ret \<lparr>ap_settings = s, ap_atlas = built, ap_vault = at_vault built, ap_authenticator = auth, ap_rate_limiter = rl\<rparr>))"

section \<open>Identity and throttling of an application\<close>

lemma build_authenticator_iff: "build_authenticator jl s \<noteq> None \<longleftrightarrow> oidc_enabled s"
  by (simp add: build_authenticator_def oidc_enabled_def)

lemma build_rate_limiter_total:
  "\<exists>rl. build_rate_limiter limit clock s = Inr rl \<and> (rl \<noteq> None \<longleftrightarrow> rate_limit_configured s)"
  by (auto simp: build_rate_limiter_def rate_limit_configured_def nonempty_str_def nonempty_secret_def Let_def
      split: option.splits)

text \<open>A failing limiter backend never refuses a call.\<close>

lemma backend_failure_allows:
  assumes "build_rate_limiter limit clock s = Inr (Some acq)" "\<And>rl key l. \<exists>e. fst (limit rl key l) = Inl e"
  shows "rd_allowed (fst (acq key l))"
proof -
  obtain rl where "acq = (\<lambda>key w. upstash_acquire (limit rl) (clock (snd (limit rl key w))) key w)"
    using assms(1) by (auto simp: build_rate_limiter_def Let_def split: if_splits option.splits)
  moreover obtain e where "fst (limit rl key l) = Inl e" using assms(2) by blast
  ultimately show ?thesis by (cases "limit rl key l") (simp add: upstash_acquire_def)
qed

text \<open>An application that was given no authenticator resolves identities from verified tokens exactly when OIDC is
  enabled, and never starts with a broken limiter.\<close>

lemma created_app:
  assumes "create_app sv jl limit clock given s None None pr = (Inr app, pr')"
  shows "(ap_authenticator app \<noteq> None \<longleftrightarrow> oidc_enabled s) \<and> (ap_rate_limiter app \<noteq> None \<longleftrightarrow> rate_limit_configured s) \<and>
    ap_vault app = at_vault (ap_atlas app) \<and> ap_settings app = s"
proof -
  obtain rl where rl: "build_rate_limiter limit clock s = Inr rl" "rl \<noteq> None \<longleftrightarrow> rate_limit_configured s"
    using build_rate_limiter_total by blast
  from assms have "ap_authenticator app = build_authenticator jl s" "ap_rate_limiter app = rl"
      "ap_vault app = at_vault (ap_atlas app)" "ap_settings app = s"
    by (auto simp: create_app_def andthen_Inr lifted_def Let_def rl(1))
  with build_authenticator_iff [of jl s] rl(2) show ?thesis by simp
qed

lemma app_identity:
  assumes "create_app sv jl limit clock given s None None pr = (Inr app, pr')" "oidc_enabled s"
    and "get_request_principal (ap_authenticator app) (settings_headers s) rq = Inr p"
  shows "identified p \<and> p \<noteq> anonymous"
proof -
  obtain a where "ap_authenticator app = Some a" using created_app [OF assms(1)] assms(2) by auto
  with assms(3) obtain token where "principal_from_token a token = Inr p"
    by (auto simp: get_request_principal_def split: option.splits sum.splits)
  from token_identified [OF this] show ?thesis by (auto simp: identified_def)
qed

end
