(* ===== verification/Workers.thy ===== *)
theory Workers
  imports Execution
begin

text \<open>
  Several processes over one Postgres audit log, as two machines whose steps interleave arbitrarily.

  The first is \<open>_append_event\<close> of \<^verbatim>\<open>src/src/atlas/persistence/audit_store.py\<close>, statement by statement: the advisory
  lock, the read of the tail, the insert and the commit, with transactions that may be lost at any point. A
  statement sees the committed rows (read committed), an insert is seen by others once it is committed, and the lock is
  released at the end of its transaction.

  The second is \<open>execute_guarded\<close> of \<^verbatim>\<open>src/src/atlas/execution.py\<close> by several workers on the same action: asking the
  ledger, running the tool and recording the outcome are separate steps on the shared log and world.
\<close>

section \<open>Concurrent appends\<close>

datatype tx = Idle | Waiting audit_event | Locked audit_event | Linked audit_event chained_record
  | Inserted audit_event chained_record

record appenders =
  ap_rows :: "audit_row list"
  ap_lock :: "nat option"
  ap_tx :: "nat \<Rightarrow> tx"
  ap_done :: "audit_event list"
  ap_raised :: "exn list"

definition set_tx :: "nat \<Rightarrow> tx \<Rightarrow> appenders \<Rightarrow> appenders" where
  "set_tx i x s = s\<lparr>ap_tx := (ap_tx s)(i := x)\<rparr>"

text \<open>\<open>pg_advisory_xact_lock\<close> waits until no other transaction holds the lock.\<close>

definition lock_free :: "appenders \<Rightarrow> bool" where
  "lock_free s \<longleftrightarrow> ap_lock s = None"

definition take_lock :: "nat \<Rightarrow> audit_event \<Rightarrow> appenders \<Rightarrow> appenders" where
  "take_lock i e s = set_tx i (Locked e) s\<lparr>ap_lock := Some i\<rparr>"

text \<open>The end of a transaction: the lock is released if it was held.\<close>

definition end_tx :: "nat \<Rightarrow> appenders \<Rightarrow> appenders" where
  "end_tx i s = set_tx i Idle s\<lparr>ap_lock := (if ap_lock s = Some i then None else ap_lock s)\<rparr>"

definition read_tail :: "audit_env \<Rightarrow> pg_env \<Rightarrow> nat \<Rightarrow> audit_event \<Rightarrow> appenders \<Rightarrow> appenders" where
  "read_tail env db i e s =
     (case pg_tail db (ap_rows s) of
        Inl x \<Rightarrow> end_tx i s\<lparr>ap_raised := ap_raised s @ [x]\<rparr>
      | Inr tail \<Rightarrow> set_tx i (Linked e (link env tail e)) s)"

definition insert_row :: "nat \<Rightarrow> audit_event \<Rightarrow> chained_record \<Rightarrow> appenders \<Rightarrow> appenders" where
  "insert_row i e r s =
     (if cr_seq r \<in> set (map row_seq (ap_rows s))
      then end_tx i s\<lparr>ap_raised := ap_raised s @ [Exn ''UniqueViolation'' ''atlas_audit_log_pkey'']\<rparr>
      else set_tx i (Inserted e r) s)"

definition commit_row :: "pg_env \<Rightarrow> nat \<Rightarrow> audit_event \<Rightarrow> chained_record \<Rightarrow> appenders \<Rightarrow> appenders" where
  "commit_row db i e r s = end_tx i s\<lparr>ap_rows := ap_rows s @ [record_to_row db r], ap_done := ap_done s @ [e]\<rparr>"

inductive astep :: "audit_env \<Rightarrow> pg_env \<Rightarrow> appenders \<Rightarrow> appenders \<Rightarrow> bool" for env :: audit_env and db :: pg_env where
  enter: "ap_tx s i = Idle \<Longrightarrow> utc_event e \<Longrightarrow> astep env db s (set_tx i (Waiting e) s)"
| lock: "ap_tx s i = Waiting e \<Longrightarrow> lock_free s \<Longrightarrow> astep env db s (take_lock i e s)"
| read: "ap_tx s i = Locked e \<Longrightarrow> astep env db s (read_tail env db i e s)"
| insert: "ap_tx s i = Linked e r \<Longrightarrow> astep env db s (insert_row i e r s)"
| commit: "ap_tx s i = Inserted e r \<Longrightarrow> astep env db s (commit_row db i e r s)"
| lost: "astep env db s (end_tx i s)"

definition appenders_init :: "audit_row list \<Rightarrow> appenders" where
  "appenders_init t = \<lparr>ap_rows = t, ap_lock = None, ap_tx = (\<lambda>_. Idle), ap_done = [], ap_raised = []\<rparr>"

text \<open>What every interleaving keeps. A transaction past the lock holds it, and a linked record continues the
  committed chain.\<close>

fun past_lock :: "tx \<Rightarrow> bool" where
  "past_lock (Locked e) = True"
| "past_lock (Linked e r) = True"
| "past_lock (Inserted e r) = True"
| "past_lock x = False"

fun tx_ok :: "audit_env \<Rightarrow> pg_env \<Rightarrow> audit_row list \<Rightarrow> tx \<Rightarrow> bool" where
  "tx_ok env db t Idle = True"
| "tx_ok env db t (Waiting e) = utc_event e"
| "tx_ok env db t (Locked e) = utc_event e"
| "tx_ok env db t (Linked e r) = (utc_event e \<and> pg_append_event env db t e = Inr (t @ [record_to_row db r]) \<and>
     cr_seq r \<notin> set (map row_seq t))"
| "tx_ok env db t (Inserted e r) = (utc_event e \<and> pg_append_event env db t e = Inr (t @ [record_to_row db r]))"

definition appenders_ok :: "audit_env \<Rightarrow> pg_env \<Rightarrow> audit_row list \<Rightarrow> appenders \<Rightarrow> bool" where
  "appenders_ok env db t0 s \<longleftrightarrow>
     pg_log_ok env db (ap_rows s) \<and> append_all (pg_append_event env db) t0 (ap_done s) = Inr (ap_rows s) \<and>
     ap_raised s = [] \<and> (\<forall>e \<in> set (ap_done s). utc_event e) \<and>
     (\<forall>i. (past_lock (ap_tx s i) \<longrightarrow> ap_lock s = Some i) \<and> tx_ok env db (ap_rows s) (ap_tx s i))"

lemma appenders_ok_tx:
  "appenders_ok env db t0 s \<Longrightarrow> ap_tx s i = x \<Longrightarrow> tx_ok env db (ap_rows s) x \<and> (past_lock x \<longrightarrow> ap_lock s = Some i)"
  by (auto simp: appenders_ok_def)

lemma append_all_snoc: "append_all app s (es @ [e]) = result_bind (append_all app s es) (\<lambda>s'. app s' e)"
proof (induction es arbitrary: s)
  case Nil
  then show ?case by (cases "app s e") simp_all
next
  case (Cons x es)
  then show ?case by (cases "app s x") simp_all
qed

lemma end_tx_simps [simp]:
  "ap_rows (end_tx i s) = ap_rows s" "ap_done (end_tx i s) = ap_done s" "ap_raised (end_tx i s) = ap_raised s"
  "ap_tx (end_tx i s) = (ap_tx s)(i := Idle)" "ap_lock (end_tx i s) = (if ap_lock s = Some i then None else ap_lock s)"
  by (simp_all add: end_tx_def set_tx_def)

lemma set_tx_simps [simp]:
  "ap_rows (set_tx i x s) = ap_rows s" "ap_done (set_tx i x s) = ap_done s" "ap_raised (set_tx i x s) = ap_raised s"
  "ap_tx (set_tx i x s) = (ap_tx s)(i := x)" "ap_lock (set_tx i x s) = ap_lock s"
  by (simp_all add: set_tx_def)

lemma tail_link:
  assumes "pg_log_ok env db t" "utc_event e"
  obtains tail where "pg_tail db t = Inr tail" "cr_seq (link env tail e) \<notin> set (map row_seq t)"
    "pg_append_event env db t e = Inr (t @ [record_to_row db (link env tail e)])"
proof -
  obtain rs where "pg_load db t = Inr rs" using pg_audit.load_ok [OF assms(1)] by blast
  from pg_append_records [OF assms this] obtain t' where a: "pg_append_event env db t e = Inr t'" by blast
  then obtain tail where "pg_tail db t = Inr tail" by (auto simp: pg_append_event_def result_bind_Inr_iff)
  with a show thesis by (intro that) (auto simp: pg_append_event_def Let_def split: if_splits)
qed

lemma astep_ok:
  assumes "astep env db s s'" "appenders_ok env db t0 s"
  shows "appenders_ok env db t0 s'"
  using assms(1)
proof (cases rule: astep.cases)
  case (enter i e)
  with assms(2) show ?thesis by (simp add: appenders_ok_def)
next
  case (lock i e)
  then have "\<not> past_lock (ap_tx s j)" for j
    using assms(2) by (auto simp: appenders_ok_def lock_free_def)
  moreover have "utc_event e" using appenders_ok_tx [OF assms(2) lock(2)] by simp
  ultimately show ?thesis using lock(1) assms(2) by (auto simp: appenders_ok_def take_lock_def)
next
  case (read i e)
  have ok: "pg_log_ok env db (ap_rows s)" "tx_ok env db (ap_rows s) (Locked e)" "ap_lock s = Some i"
    using appenders_ok_tx [OF assms(2) read(2)] assms(2) by (auto simp: appenders_ok_def)
  obtain tail where "pg_tail db (ap_rows s) = Inr tail" "cr_seq (link env tail e) \<notin> set (map row_seq (ap_rows s))"
      "pg_append_event env db (ap_rows s) e = Inr (ap_rows s @ [record_to_row db (link env tail e)])"
    using tail_link [OF ok(1)] ok(2) by auto
  with read ok assms(2) show ?thesis by (auto simp: appenders_ok_def read_tail_def)
next
  case (insert i e r)
  have ok: "tx_ok env db (ap_rows s) (Linked e r)" "ap_lock s = Some i"
    using appenders_ok_tx [OF assms(2) insert(2)] by auto
  with insert assms(2) show ?thesis by (auto simp: appenders_ok_def insert_row_def)
next
  case (commit i e r)
  have ok: "tx_ok env db (ap_rows s) (Inserted e r)" "ap_lock s = Some i" "pg_log_ok env db (ap_rows s)"
    using appenders_ok_tx [OF assms(2) commit(2)] assms(2) by (auto simp: appenders_ok_def)
  have others: "\<not> past_lock (ap_tx s j)" if "j \<noteq> i" for j
    using assms(2) ok(2) that by (auto simp: appenders_ok_def)
  have free: "tx_ok env db t (ap_tx s j)" if "j \<noteq> i" for j t
    using appenders_ok_tx [OF assms(2), of j] others [OF that] by (cases "ap_tx s j") auto
  have "pg_log_ok env db (ap_rows s @ [record_to_row db r])"
    using pg_audit.load_ok [OF ok(3)] pg_append_records [OF ok(3)] ok(1) by fastforce
  with commit assms(2) ok free others show ?thesis
    by (auto simp: appenders_ok_def commit_row_def append_all_snoc)
next
  case (lost i)
  with assms(2) show ?thesis by (auto simp: appenders_ok_def)
qed

lemma appenders_init_ok: "pg_log_ok env db t \<Longrightarrow> appenders_ok env db t (appenders_init t)"
  by (simp add: appenders_ok_def appenders_init_def)

lemma asteps_ok: "(astep env db)\<^sup>*\<^sup>* s s' \<Longrightarrow> appenders_ok env db t s \<Longrightarrow> appenders_ok env db t s'"
  by (induction rule: rtranclp_induct) (auto intro: astep_ok)

text \<open>A transaction that holds the lock, left alone, commits: the interleaving never blocks for good.\<close>

lemma holder_can_commit:
  assumes ok: "appenders_ok env db t0 s" and tx: "ap_tx s i = Locked e"
  shows "\<exists>s'. (astep env db)\<^sup>*\<^sup>* s s' \<and> ap_done s' = ap_done s @ [e] \<and> ap_tx s' i = Idle \<and> ap_lock s' = None"
proof -
  have u: "pg_log_ok env db (ap_rows s)" "utc_event e" "ap_lock s = Some i"
    using appenders_ok_tx [OF ok tx] ok by (auto simp: appenders_ok_def)
  obtain tail where t: "pg_tail db (ap_rows s) = Inr tail" "cr_seq (link env tail e) \<notin> set (map row_seq (ap_rows s))"
    using tail_link [OF u(1,2)] by blast
  let ?r = "link env tail e"
  let ?s1 = "read_tail env db i e s" and ?s2 = "insert_row i e ?r (read_tail env db i e s)"
  let ?s3 = "commit_row db i e ?r ?s2"
  have s1: "astep env db s ?s1" by (rule astep.read [OF tx])
  have t1: "ap_tx ?s1 i = Linked e ?r" by (simp add: read_tail_def t(1))
  have s2: "astep env db ?s1 ?s2" by (rule astep.insert [OF t1])
  have t2: "ap_tx ?s2 i = Inserted e ?r" using t(2) by (simp add: insert_row_def read_tail_def t(1))
  have "astep env db ?s2 ?s3" by (rule astep.commit [OF t2])
  with s1 s2 have "(astep env db)\<^sup>*\<^sup>* s ?s3" by (meson converse_rtranclp_into_rtranclp r_into_rtranclp)
  then show ?thesis using t u(3) by (intro exI [of _ ?s3]) (simp add: commit_row_def insert_row_def read_tail_def)
qed

section \<open>Concurrent executions of one action\<close>

datatype phase = Ready | Replaying | Passed | Ran action_result | Finished action_result

record 'w workers =
  wk_log :: audit_log
  wk_world :: 'w
  wk_phase :: "nat \<Rightarrow> phase"

definition set_phase :: "nat \<Rightarrow> phase \<Rightarrow> 'w workers \<Rightarrow> 'w workers" where
  "set_phase i ph s = s\<lparr>wk_phase := (wk_phase s)(i := ph)\<rparr>"

text \<open>Between the question to the ledger and the record of the outcome.\<close>

definition in_window :: "phase \<Rightarrow> bool" where
  "in_window ph = (case ph of Passed \<Rightarrow> True | Ran _ \<Rightarrow> True | _ \<Rightarrow> False)"

definition ask_ledger :: "proposed_action \<Rightarrow> nat \<Rightarrow> 'w workers \<Rightarrow> 'w workers" where
  "ask_ledger a i s =
     set_phase i (if requires_approval (TierEnum (pa_tier a)) \<and> has_executed (wk_log s) (pa_id a) then Replaying else Passed) s"

definition replay :: "audit_env \<Rightarrow> proposed_action \<Rightarrow> audit_tool_context option \<Rightarrow> nat \<Rightarrow> 'w workers \<Rightarrow> 'w workers" where
  "replay env a extra i s =
     (let lg = replay_skipped env (wk_log s) a ''already executed'' extra
      in set_phase i (Finished (replay_result a lg)) s\<lparr>wk_log := lg\<rparr>)"

definition run_tool :: "'w registry \<Rightarrow> proposed_action \<Rightarrow> principal \<Rightarrow> nat \<Rightarrow> 'w workers \<Rightarrow> 'w workers" where
  "run_tool reg a p i s = (let (r, w) = execute reg a p (wk_world s) in set_phase i (Ran r) s\<lparr>wk_world := w\<rparr>)"

definition record_outcome :: "audit_env \<Rightarrow> audit_tool_context option \<Rightarrow> nat \<Rightarrow> action_result \<Rightarrow> 'w workers \<Rightarrow> 'w workers" where
  "record_outcome env extra i r s =
     (if ar_ok r
      then (case executed env (wk_log s) r extra of
              Inl _ \<Rightarrow> s
            | Inr lg \<Rightarrow> set_phase i (Finished r) s\<lparr>wk_log := lg\<rparr>)
      else set_phase i (Finished r) s\<lparr>wk_log := failed env (wk_log s) r extra\<rparr>)"

text \<open>With \<open>one_writer\<close> a worker asks only while no other one is in its window, which is what the documentation
  presupposes and the resume lock of a process enforces.\<close>

inductive wstep :: "audit_env \<Rightarrow> 'w registry \<Rightarrow> proposed_action \<Rightarrow> principal \<Rightarrow> audit_tool_context option \<Rightarrow> bool
    \<Rightarrow> 'w workers \<Rightarrow> 'w workers \<Rightarrow> bool" for env reg a p extra one_writer where
  ask: "wk_phase s i = Ready \<Longrightarrow> (one_writer \<Longrightarrow> \<forall>j. j \<noteq> i \<longrightarrow> \<not> in_window (wk_phase s j)) \<Longrightarrow>
    wstep env reg a p extra one_writer s (ask_ledger a i s)"
| replay: "wk_phase s i = Replaying \<Longrightarrow> wstep env reg a p extra one_writer s (replay env a extra i s)"
| run: "wk_phase s i = Passed \<Longrightarrow> wstep env reg a p extra one_writer s (run_tool reg a p i s)"
| outcome: "wk_phase s i = Ran r \<Longrightarrow> wstep env reg a p extra one_writer s (record_outcome env extra i r s)"

text \<open>One worker alone does what \<open>execute_guarded\<close> does.\<close>

lemma set_phase_simps [simp]:
  "wk_log (set_phase i ph s) = wk_log s" "wk_world (set_phase i ph s) = wk_world s"
  "wk_phase (set_phase i ph s) = (wk_phase s)(i := ph)"
  by (simp_all add: set_phase_def)

lemma solo_run:
  assumes "wk_phase s i = Ready" "one_writer \<Longrightarrow> \<forall>j. j \<noteq> i \<longrightarrow> \<not> in_window (wk_phase s j)"
    and "execute_guarded env reg a p extra (wk_log s) (wk_world s) = (Inr r, lg, w)"
  shows "\<exists>s'. (wstep env reg a p extra one_writer)\<^sup>*\<^sup>* s s' \<and> wk_log s' = lg \<and> wk_world s' = w \<and>
    wk_phase s' = (wk_phase s)(i := Finished r)"
proof -
  let ?R = "wstep env reg a p extra one_writer" and ?s1 = "ask_ledger a i s"
  have s1: "?R s ?s1" by (rule wstep.ask [OF assms(1,2)])
  show ?thesis
  proof (cases "requires_approval (TierEnum (pa_tier a)) \<and> has_executed (wk_log s) (pa_id a)")
    case True
    have p1: "wk_phase ?s1 i = Replaying" using True by (simp add: ask_ledger_def)
    have "?R ?s1 (replay env a extra i ?s1)" by (rule wstep.replay [OF p1])
    with s1 have "?R\<^sup>*\<^sup>* s (replay env a extra i ?s1)" by (meson converse_rtranclp_into_rtranclp r_into_rtranclp)
    moreover have "r = replay_result a (replay_skipped env (wk_log s) a ''already executed'' extra)"
        "lg = replay_skipped env (wk_log s) a ''already executed'' extra" "w = wk_world s"
      using assms(3) True by (auto simp: execute_guarded_def Let_def)
    ultimately show ?thesis
      by (intro exI [of _ "replay env a extra i ?s1"]) (simp add: replay_def Let_def ask_ledger_def True)
  next
    case False
    have p1: "wk_phase ?s1 i = Passed" using False by (simp add: ask_ledger_def)
    obtain q v where x: "execute reg a p (wk_world s) = (q, v)" by (cases "execute reg a p (wk_world s)")
    let ?s2 = "run_tool reg a p i ?s1" and ?s3 = "record_outcome env extra i q (run_tool reg a p i ?s1)"
    have s2: "?R ?s1 ?s2" by (rule wstep.run [OF p1])
    have e2: "?s2 = set_phase i (Ran q) ?s1\<lparr>wk_world := v\<rparr>" using x by (simp add: run_tool_def ask_ledger_def)
    then have p2: "wk_phase ?s2 i = Ran q" by simp
    have "?R ?s2 ?s3" by (rule wstep.outcome [OF p2])
    with s1 s2 have "?R\<^sup>*\<^sup>* s ?s3" by (meson converse_rtranclp_into_rtranclp r_into_rtranclp)
    moreover have "wk_log ?s3 = lg \<and> wk_world ?s3 = w \<and> wk_phase ?s3 = (wk_phase s)(i := Finished r)"
      using assms(3) False x unfolding e2
      by (auto simp: execute_guarded_def record_outcome_def executed_def ask_ledger_def split: if_splits)
    ultimately show ?thesis by blast
  qed
qed

text \<open>What holds with one writer at a time: at most one counted execution, none while a worker is in its window, and
  at most one worker there.\<close>

definition window_ok :: "proposed_action \<Rightarrow> 'w workers \<Rightarrow> bool" where
  "window_ok a s \<longleftrightarrow> exec_count (pa_id a) (wk_log s) \<le> 1 \<and>
     (\<forall>i. in_window (wk_phase s i) \<longrightarrow> exec_count (pa_id a) (wk_log s) = 0 \<and> (\<forall>j. in_window (wk_phase s j) \<longrightarrow> j = i)) \<and>
     (\<forall>i r. wk_phase s i = Ran r \<longrightarrow> ar_id r = pa_id a)"

lemma wstep_window:
  assumes gated: "pa_tier a \<noteq> READ" and step: "wstep env reg a p extra True s s'" and ok: "window_ok a s"
  shows "window_ok a s'"
  using step
proof (cases rule: wstep.cases)
  case (ask i)
  then have others: "\<not> in_window (wk_phase s j)" for j by (cases "j = i") (auto simp: in_window_def)
  with gated ok ask(1) exec_count_0 [of "pa_id a" "wk_log s"] show ?thesis
    by (auto simp: window_ok_def ask_ledger_def in_window_def split: if_splits phase.splits)
next
  case (replay i)
  then have "exec_count (pa_id a) (wk_log s') = exec_count (pa_id a) (wk_log s)"
    by (simp add: replay_def Let_def replay_skipped_def exec_count_record)
  with ok replay show ?thesis by (auto simp: window_ok_def replay_def Let_def in_window_def)
next
  case (run i)
  obtain r w where x: "execute reg a p (wk_world s) = (r, w)" by (cases "execute reg a p (wk_world s)")
  then have "ar_id r = pa_id a" using execute_id(1) [of reg a p "wk_world s"] by simp
  moreover have w: "in_window (wk_phase s i)" using run by (simp add: in_window_def)
  then have none: "exec_count (pa_id a) (wk_log s) = 0" and alone: "\<And>j. in_window (wk_phase s j) \<Longrightarrow> j = i"
    using ok unfolding window_ok_def by blast+
  ultimately show ?thesis using ok run x none alone by (auto simp: window_ok_def run_tool_def)
next
  case (outcome i r)
  have w: "in_window (wk_phase s i)" using outcome by (simp add: in_window_def)
  then have none: "exec_count (pa_id a) (wk_log s) = 0" and alone: "\<And>j. in_window (wk_phase s j) \<Longrightarrow> j = i"
    using ok unfolding window_ok_def by blast+
  have "exec_count (pa_id a) (wk_log s') \<le> 1 \<and> wk_phase s' = (wk_phase s)(i := Finished r)"
    using outcome none by (auto simp: record_outcome_def executed_def failed_def exec_count_record)
  with ok alone show ?thesis by (auto simp: window_ok_def in_window_def)
qed

lemma wsteps_window:
  "(wstep env reg a p extra True)\<^sup>*\<^sup>* s s' \<Longrightarrow> pa_tier a \<noteq> READ \<Longrightarrow> window_ok a s \<Longrightarrow> window_ok a s'"
  by (induction rule: rtranclp_induct) (auto intro: wstep_window)

definition workers_init :: "audit_log \<Rightarrow> 'w \<Rightarrow> 'w workers" where
  "workers_init lg w = \<lparr>wk_log = lg, wk_world = w, wk_phase = (\<lambda>_. Ready)\<rparr>"

section \<open>Properties\<close>

text \<open>C10: concurrent appends neither fork the chain nor fail. However the transactions of any number of processes on
  the audit table interleave, also when some are lost, no append raises, the committed rows are exactly those that
  appending the committed events one after the other in the order of their commits gives, and the table loads as a
  chain that verifies and has these events after those that were there. A process that holds the lock can always
  go on to commit, which frees the lock.\<close>

theorem concurrent_appends_linearise:
  assumes "pg_log_ok env db t" "pg_load db t = Inr rs0" "(astep env db)\<^sup>*\<^sup>* (appenders_init t) s"
  shows "ap_raised s = [] \<and> append_all (pg_append_event env db) t (ap_done s) = Inr (ap_rows s) \<and>
    (\<exists>rs. pg_load db (ap_rows s) = Inr rs \<and> cv_ok (verify_chain env rs) \<and>
       list_all2 (same_event env) (events rs) (events rs0 @ ap_done s)) \<and>
    (\<forall>i e. ap_tx s i = Locked e \<longrightarrow>
       (\<exists>s'. (astep env db)\<^sup>*\<^sup>* s s' \<and> ap_done s' = ap_done s @ [e] \<and> ap_lock s' = None))"
proof -
  have ok: "appenders_ok env db t s" using asteps_ok [OF assms(3) appenders_init_ok [OF assms(1)]] .
  then have d: "ap_raised s = []" "append_all (pg_append_event env db) t (ap_done s) = Inr (ap_rows s)"
      "\<forall>e \<in> set (ap_done s). utc_event e" by (auto simp: appenders_ok_def)
  from pg_audit.append_all_ok [OF assms(1,2) d(3)] d(2) obtain rs where
    "pg_load db (ap_rows s) = Inr rs" "chain_ok env rs" "list_all2 (same_event env) (events rs) (events rs0 @ ap_done s)"
    by auto
  then have "\<exists>rs. pg_load db (ap_rows s) = Inr rs \<and> cv_ok (verify_chain env rs) \<and>
      list_all2 (same_event env) (events rs) (events rs0 @ ap_done s)" by (auto simp: verify_chain_ok)
  with d(1,2) holder_can_commit [OF ok] show ?thesis by blast
qed

theorem concurrent_appends_linearise_witness:
  "\<exists>s. (astep demo_env demo_db)\<^sup>*\<^sup>* (appenders_init []) s \<and> ap_tx s 0 = Locked demo_event \<and> ap_tx s 1 = Waiting demo_event \<and>
     ap_raised s = [] \<and> (\<exists>s'. (astep demo_env demo_db)\<^sup>*\<^sup>* s s' \<and> ap_done s' = [demo_event])"
proof -
  let ?s0 = "appenders_init []" and ?R = "astep demo_env demo_db"
  let ?s1 = "set_tx 0 (Waiting demo_event) ?s0"
  let ?s2 = "set_tx 1 (Waiting demo_event) ?s1"
  let ?s3 = "take_lock 0 demo_event ?s2"
  have u: "utc_event demo_event" by (simp add: demo_event_def utc_event_def)
  have "?R ?s0 ?s1" by (rule astep.enter) (simp_all add: appenders_init_def u)
  moreover have "?R ?s1 ?s2" by (rule astep.enter) (simp_all add: appenders_init_def u)
  moreover have "?R ?s2 ?s3" by (rule astep.lock) (simp_all add: appenders_init_def lock_free_def)
  ultimately have r: "?R\<^sup>*\<^sup>* ?s0 ?s3" by (meson converse_rtranclp_into_rtranclp r_into_rtranclp)
  have t: "ap_tx ?s3 0 = Locked demo_event" "ap_tx ?s3 1 = Waiting demo_event" "ap_done ?s3 = []"
    by (simp_all add: take_lock_def appenders_init_def)
  have i: "pg_log_ok demo_env demo_db []" "pg_load demo_db [] = Inr []"
    using demo_db_laws(1) by (simp_all add: pg_log_ok_def pg_load_def)
  from concurrent_appends_linearise [OF i r] t r show ?thesis by (intro exI [of _ ?s3]) auto
qed

definition demo_workers :: "email_message fake_sender workers" where
  "demo_workers = workers_init [] (fake_init False)"

text \<open>Both workers ask, both run the tool, both record.\<close>

definition demo_asked :: "email_message fake_sender workers" where
  "demo_asked = ask_ledger demo_action 1 (ask_ledger demo_action 0 demo_workers)"

definition demo_sent :: "email_message fake_sender workers" where
  "demo_sent = run_tool demo_registry demo_action anonymous 1 (run_tool demo_registry demo_action anonymous 0 demo_asked)"

definition outcome_of :: "'w workers \<Rightarrow> nat \<Rightarrow> action_result" where
  "outcome_of s i = (case wk_phase s i of Ran r \<Rightarrow> r | _ \<Rightarrow> replay_result demo_action [])"

definition demo_recorded :: "email_message fake_sender workers" where
  "demo_recorded = record_outcome demo_env None 1 (outcome_of demo_sent 1)
     (record_outcome demo_env None 0 (outcome_of demo_sent 0) demo_sent)"

lemma demo_race_eval:
  "(case wk_phase demo_sent 0 of Ran _ \<Rightarrow> True | _ \<Rightarrow> False) \<and>
   (case wk_phase (record_outcome demo_env None 0 (outcome_of demo_sent 0) demo_sent) 1 of Ran r \<Rightarrow> ar_ok r | _ \<Rightarrow> False) \<and>
   exec_count ''act_1'' (wk_log demo_recorded) = 2 \<and> length (fs_sent (wk_world demo_recorded)) = 2"
  by code_simp

lemma demo_race:
  "(wstep demo_env demo_registry demo_action anonymous None False)\<^sup>*\<^sup>* demo_workers demo_recorded"
proof -
  let ?R = "wstep demo_env demo_registry demo_action anonymous None False"
  let ?r1 = "record_outcome demo_env None 0 (outcome_of demo_sent 0) demo_sent"
  have p: "wk_phase demo_asked 0 = Passed" "wk_phase demo_asked 1 = Passed"
    by (simp_all add: demo_asked_def ask_ledger_def demo_workers_def workers_init_def events_def has_executed_iff)
  have "?R demo_workers (ask_ledger demo_action 0 demo_workers)"
    by (rule wstep.ask) (simp_all add: demo_workers_def workers_init_def)
  moreover have "?R (ask_ledger demo_action 0 demo_workers) demo_asked"
    unfolding demo_asked_def by (rule wstep.ask) (simp_all add: demo_workers_def workers_init_def ask_ledger_def)
  moreover have "?R demo_asked (run_tool demo_registry demo_action anonymous 0 demo_asked)" by (rule wstep.run [OF p(1)])
  moreover have "?R (run_tool demo_registry demo_action anonymous 0 demo_asked) demo_sent"
    unfolding demo_sent_def by (rule wstep.run) (simp add: run_tool_def p(2) [unfolded One_nat_def] split: prod.splits)
  moreover have "?R demo_sent ?r1"
    by (rule wstep.outcome) (use demo_race_eval in \<open>auto simp: outcome_of_def split: phase.splits\<close>)
  moreover have "wk_phase demo_sent 1 = wk_phase ?r1 1"
    by (simp add: record_outcome_def split: sum.splits)
  then have "?R ?r1 demo_recorded"
    unfolding demo_recorded_def
    by (intro wstep.outcome) (use demo_race_eval in \<open>auto simp: outcome_of_def split: phase.splits\<close>)
  ultimately show ?thesis by (meson converse_rtranclp_into_rtranclp r_into_rtranclp)
qed

text \<open>C11: what the ledger guards and what it does not. As long as one worker at a time is between its question to the
  ledger and its record of the outcome, a gated action that was executed at most once so far is never executed a
  second time, however the workers interleave, and a worker that is alone does exactly what \<open>execute_guarded\<close> does.
  Without that discipline the ledger does not help: two workers that both ask before either records both send
  the message and both record a counted execution.\<close>

theorem ledger_needs_one_writer:
  assumes "pa_tier a \<noteq> READ" "exec_count (pa_id a) lg \<le> 1"
    and "(wstep env reg a p extra True)\<^sup>*\<^sup>* (workers_init lg w) s"
  shows "exec_count (pa_id a) (wk_log s) \<le> 1 \<and>
    (\<forall>i r lg' w'. wk_phase s i = Ready \<and> (\<forall>j. \<not> in_window (wk_phase s j)) \<and>
       execute_guarded env reg a p extra (wk_log s) (wk_world s) = (Inr r, lg', w') \<longrightarrow>
       (\<exists>s'. (wstep env reg a p extra True)\<^sup>*\<^sup>* s s' \<and> wk_log s' = lg' \<and> wk_world s' = w' \<and> wk_phase s' i = Finished r)) \<and>
    (\<exists>s2. (wstep demo_env demo_registry demo_action anonymous None False)\<^sup>*\<^sup>* demo_workers s2 \<and>
       exec_count (pa_id demo_action) (wk_log s2) = 2 \<and> length (fs_sent (wk_world s2)) = 2)"
proof (intro conjI allI impI)
  have "window_ok a (workers_init lg w)" using assms(2) by (simp add: window_ok_def workers_init_def in_window_def)
  from wsteps_window [OF assms(3,1) this] show "exec_count (pa_id a) (wk_log s) \<le> 1" by (simp add: window_ok_def)
next
  fix i r lg' w'
  assume h: "wk_phase s i = Ready \<and> (\<forall>j. \<not> in_window (wk_phase s j)) \<and>
       execute_guarded env reg a p extra (wk_log s) (wk_world s) = (Inr r, lg', w')"
  then obtain s' where "(wstep env reg a p extra True)\<^sup>*\<^sup>* s s'" "wk_log s' = lg'" "wk_world s' = w'"
      "wk_phase s' = (wk_phase s)(i := Finished r)"
    using solo_run [of s i True env reg a p extra r lg' w'] by blast
  then show "\<exists>s'. (wstep env reg a p extra True)\<^sup>*\<^sup>* s s' \<and> wk_log s' = lg' \<and> wk_world s' = w' \<and> wk_phase s' i = Finished r"
    by (intro exI [of _ s']) simp
next
  show "\<exists>s2. (wstep demo_env demo_registry demo_action anonymous None False)\<^sup>*\<^sup>* demo_workers s2 \<and>
       exec_count (pa_id demo_action) (wk_log s2) = 2 \<and> length (fs_sent (wk_world s2)) = 2"
    using demo_race demo_race_eval by (intro exI [of _ demo_recorded]) (simp add: demo_action_def)
qed

theorem ledger_needs_one_writer_witness:
  "\<exists>s. (wstep demo_env demo_registry demo_action anonymous None True)\<^sup>*\<^sup>* demo_workers s \<and>
     exec_count (pa_id demo_action) (wk_log s) \<le> 1 \<and> (\<exists>r. wk_phase s 0 = Finished r)"
proof -
  obtain r lg w where x: "execute_guarded demo_env demo_registry demo_action anonymous None [] (fake_init False) = (Inr r, lg, w)"
    using execute_guarded_returns [of demo_env demo_registry demo_action anonymous None "[]" "fake_init False"]
    by (metis prod.collapse)
  have init: "exec_count (pa_id demo_action) [] \<le> 1" "pa_tier demo_action \<noteq> READ"
    by (simp_all add: exec_count_def events_def demo_action_def)
  have f: "wk_phase demo_workers 0 = Ready \<and> (\<forall>j. \<not> in_window (wk_phase demo_workers j)) \<and>
      execute_guarded demo_env demo_registry demo_action anonymous None (wk_log demo_workers) (wk_world demo_workers) = (Inr r, lg, w)"
    using x by (simp add: demo_workers_def workers_init_def in_window_def)
  have z: "(wstep demo_env demo_registry demo_action anonymous None True)\<^sup>*\<^sup>* (workers_init [] (fake_init False)) demo_workers"
    by (simp add: demo_workers_def)
  from ledger_needs_one_writer [OF init(2,1) z] f obtain s where
    s: "(wstep demo_env demo_registry demo_action anonymous None True)\<^sup>*\<^sup>* demo_workers s" "wk_phase s 0 = Finished r"
    by blast
  with ledger_needs_one_writer [OF init(2,1), of demo_env demo_registry anonymous None "fake_init False" s]
  have "exec_count (pa_id demo_action) (wk_log s) \<le> 1" by (simp add: demo_workers_def)
  with s show ?thesis by blast
qed


end
