(* ===== verification/Spec2Isabelle.thy ===== *)
theory Spec2Isabelle
  imports Resume_Lock Backends Judge Streaming App Workers Admin
begin

text \<open>
  A verification library for \<^emph>\<open>atlas\<close>, an agent runtime whose core is a governed plan/approve/execute
  loop. Source paths below are relative to \<^verbatim>\<open>src/src/atlas\<close> unless they start with \<^verbatim>\<open>src/\<close>.

  \<^bigskip>
  \<^bold>\<open>The program.\<close> A request of a principal starts a turn of a compiled graph. The planner retrieves the knowledge
  that the principal may read, asks a model (or a keyword heuristic) for tool calls and turns them into proposed actions
  with the risk tier and the permission that the tool declares; actions that the role policy does not authorize are
  dropped. Gated tiers stop at a durable interrupt until a human resumes the thread; the executor authorizes each
  action again, runs the approved and the READ ones through a guard that makes gated actions idempotent, and the
  responder words an answer with sources and a confidence. Every decision is a record of one append-only hash chain. An HTTP
  service resolves identities, serialises resumes per thread, limits rates, streams turns as server-sent events,
  ingests documents into the knowledge graph and connects OAuth accounts, whose tokens live in a vault per principal.
  Policies, audit log, knowledge and credentials have in-memory and durable backends.

  \<^bigskip>
  \<^bold>\<open>Theories and the code they model.\<close> A theory has the definitions in the order of the code, then lemmas, then its
  properties with their witnesses.

  \<^item> \<open>Prelude\<close>, \<open>Pyvalue\<close>: the Python that the sources use: exceptions as values, strings, dictionaries, JSON-like
    values, and the canonical JSON of \<^verbatim>\<open>governance/audit.py\<close>, which is injective up to the order of keys.
  \<^item> \<open>Actions\<close>: \<^verbatim>\<open>actions.py\<close>. \<open>Rbac\<close>: \<^verbatim>\<open>governance/rbac.py\<close>, \<^verbatim>\<open>governance/policy.py\<close>,
    \<^verbatim>\<open>persistence/policy_store.py\<close>. \<open>Admin\<close>: \<^verbatim>\<open>src/scripts/manage_policy.py\<close>, \<^verbatim>\<open>manage_credentials.py\<close>.
  \<^item> \<open>Audit_Log\<close>: \<^verbatim>\<open>governance/audit.py\<close>, \<^verbatim>\<open>persistence/audit_store.py\<close>. The state is the list of records;
    the Postgres state is the list of rows.
  \<^item> \<open>Integrations\<close>: the senders of \<^verbatim>\<open>integrations/\<close>. \<open>Credentials\<close>: \<^verbatim>\<open>governance/credentials.py\<close>. \<open>Vault\<close>:
    \<^verbatim>\<open>persistence/hashicorp_vault.py\<close>. \<open>Tools\<close>: \<^verbatim>\<open>tools.py\<close>. \<open>Egress\<close>: \<^verbatim>\<open>tool_egress.py\<close>. \<open>Adapter\<close>:
    \<^verbatim>\<open>adapter_engine.py\<close>. \<open>Execution\<close>: \<^verbatim>\<open>execution.py\<close>.
  \<^item> \<open>Knowledge\<close>: \<^verbatim>\<open>knowledge/interfaces.py\<close>, \<^verbatim>\<open>memory_store.py\<close>. \<open>Embeddings\<close>: \<^verbatim>\<open>knowledge/embeddings.py\<close>.
    \<open>Knowledge_Store\<close>: \<^verbatim>\<open>persistence/knowledge_store.py\<close>; the state is the record \<open>kgdb\<close> of the tables. \<open>Ingestion\<close>:
    \<^verbatim>\<open>knowledge/ingestion.py\<close>, \<^verbatim>\<open>extraction.py\<close>, \<^verbatim>\<open>interface/kg_routes.py\<close>. \<open>Backends\<close>: ingestion over either graph.
  \<^item> \<open>Confidence\<close>: \<^verbatim>\<open>governance/confidence.py\<close>. \<open>Orchestration\<close>: \<^verbatim>\<open>orchestration/state.py\<close>, \<^verbatim>\<open>nodes.py\<close>.
    \<open>Graph\<close>: the compiled graph of \<^verbatim>\<open>orchestration/graph.py\<close> as an inductive step relation over checkpoints, in which
    threads interleave. \<open>Runner\<close>: the same graph as functions that run one turn. \<open>Assembly\<close>: the factories and
    \<open>build_graph\<close> of \<^verbatim>\<open>graph.py\<close>, \<^verbatim>\<open>llm.py\<close>, \<^verbatim>\<open>orchestration/responder_llm.py\<close>, over a heap of shared objects.
  \<^item> \<open>Config\<close>: \<^verbatim>\<open>config.py\<close>. \<open>Interface\<close>: \<^verbatim>\<open>interface/security.py\<close>, \<^verbatim>\<open>auth.py\<close>, \<^verbatim>\<open>rate_limit.py\<close>, \<^verbatim>\<open>schemas.py\<close>,
    \<^verbatim>\<open>routes.py\<close>, \<^verbatim>\<open>app.py\<close>. \<open>Resume_Lock\<close>: \<^verbatim>\<open>interface/resume_lock.py\<close>, an interleaving machine over a heap of
    lock entries. \<open>Streaming\<close>: \<^verbatim>\<open>interface/sse.py\<close>, two interleaving tasks. \<open>Service\<close>: the routes with their
    dependencies as a sequence of calls over the turns of \<open>Runner\<close>. \<open>App\<close>: \<open>create_app\<close> of \<^verbatim>\<open>interface/app.py\<close>. \<open>Base64\<close>, \<open>OAuth\<close>: the OAuth
    modules of \<^verbatim>\<open>interface/\<close> and \<^verbatim>\<open>integrations/\<close>.
  \<^item> \<open>Workers\<close>: several processes on one Postgres audit log: \<open>_append_event\<close> of \<^verbatim>\<open>persistence/audit_store.py\<close> and
    \<open>execute_guarded\<close> of \<^verbatim>\<open>execution.py\<close>, statement by statement, in any interleaving.
  \<^item> \<open>Eval_Gate\<close>: the deterministic gate under \<^verbatim>\<open>src/evals\<close>, whose oracles run on the modelled graph. \<open>Judge\<close>: the
    telemetry of \<^verbatim>\<open>src/evals/llm_judge\<close>, which cannot change the gate's verdict.

  \<^bigskip>
  \<^bold>\<open>What the lemmas show.\<close>

  \<^item> Governance: every event that an action ran has, earlier in the log, its proposal with the declared tier and, for a
    gated tier, an approval of that id; a gated id runs at most once; each node is characterised exactly (which events,
    in which order, with which effect); a resume value can only decide pending gated ids. Turns refine the step
    relation, so the invariants hold for what a turn leaves behind, and the gate's golden traces pass.
  \<^item> Audit: logs written through either backend verify, editing a record in place is detected unless the digest
    collides, steps only append. Appends of several processes linearise in the order of their commits; the ledger makes
    gated actions idempotent for one writer at a time and, as a run shows, not for two.
  \<^item> Authorization and knowledge: role expansion and matching agree with a decision grant by grant; the Postgres policy
    store refines the mapping; a query returns only readable entities and misses none within its limit, in memory and
    through the SQL predicate and paging; writes to Postgres refine writes to memory, so ingesting into either is the same.
  \<^item> Credentials and egress: a token is the asking principal's own; both vaults keep the contract; an OAuth callback
    stores only what its signed state binds; an outbound call of a schema tool is pinned to a public address of an
    allowlisted route; schema tools are gated.
  \<^item> Service: in any sequence of HTTP calls and edits, a gated action that ran was approved by an earlier request of the
    identified caller who had started the thread; refused calls leave the system as it was; resumes only by the owner, one at a time per thread and without deadlock; a stream holds its lease while the
    graph may run, ends in every interleaving and delivers the sequential events; settings are accepted exactly when no
    feature is half configured; the assembled agent has one audit log, policy store and graph.

  \<^bigskip>
  \<^bold>\<open>Interfaces.\<close> The abstract classes and shared contracts of the code are locales, each interpreted on the models of its
  implementations: \<open>policy_store\<close> (mapping, table), \<open>chain_store\<close> (memory, Postgres), \<open>credential_vault\<close> (memory; the
  durable vault is compared with it in \<open>Vault\<close>), \<open>knowledge_graph\<close> (memory, Postgres), \<open>embedding_provider\<close>
  (deterministic, Voyage), \<open>kg_backend\<close> (memory, Postgres).

  \<^bigskip>
  \<^bold>\<open>Conventions and parameters.\<close> A raised exception is \<open>Inl (Exn class msg)\<close>, an HTTP error \<open>Inl\<close> of a status. A string is
  a list of code points below 256. A dictionary is an association list in insertion order. A float is a real number
  with an explicit rounding. Side effects thread an abstract world \<open>'w\<close>, which a raising call may have changed. What is
  outside the repository is a parameter: the language models, HTTP and provider SDKs, DNS, PyJWT, the clock, fresh ids,
  SHA-256 and HMAC, \<open>json.loads\<close>, pydantic's coercions and error texts, Authlib, hvac and the Vault server, Voyage, the
  server-dependent parts of Postgres (collation, full-text match, \<open>jsonb\<close>, casts, vector scan), LangGraph's
  checkpointing and anyio's streams. The digest is arbitrary: statements on tampering name the collision instead of
  excluding it. Hypotheses on parameters are the documented behaviour that the code relies on (\<open>kv_laws\<close>, \<open>cast_law\<close>,
  the law of the JSON parser), each shown to be satisfiable by a witness.

  \<^bigskip>
  \<^bold>\<open>Loops and fuel.\<close> Loops are structural recursions or functions with a termination proof (the backfill decreases the
  rows without an embedding it may still see, the chunker the rest of the text, the paging loops the rows beyond the
  offset), so no result depends on fuel. The interleaving machines have no bound on their runs; for the stream a
  measure shows that every run is finite.

  \<^bigskip>
  \<^bold>\<open>Not modelled.\<close> The demonstration and the server start scripts (\<^verbatim>\<open>src/scripts/demo_*.py\<close>, \<^verbatim>\<open>run_api.py\<close>,
  \<^verbatim>\<open>src/main.py\<close>, \<^verbatim>\<open>src/evals/run_evals.py\<close>), which print, start a server or forward to another entry point;
  \<^verbatim>\<open>orchestration/serde.py\<close>, an allowlist for LangGraph's serializer; package initialisers; abstract base classes,
  whose contracts are the locales; argparse, the static DDL text, the JSON framing of a server-sent event and the MIME encoding
  of a mail. Crashes between a side effect and its audit event, statements of other database sessions inside one
  operation (except the appends of \<open>Workers\<close>), code points above 255, non-finite floats and the wording of log
  lines are outside the model.
\<close>

section \<open>Ingestion into Postgres\<close>


definition demo_store :: "nat pg_kg_env" where
  "demo_store = \<lparr>pe_float = \<lparr>fl_rnd = (\<lambda>x. x), fl_sum = sum_list, fl_repr = (\<lambda>_. ''0'')\<rparr>,
     pe_collate = (\<lambda>s. s), pe_fts = (\<lambda>_ _. False), pe_fold = lower, pe_cast = (\<lambda>s. Inr (length s div 2)),
     pe_width = int, pe_nearest = (\<lambda>_ rows. Inr rows), pe_vector_ddl = (\<lambda>_. Inr ())\<rparr>"

lemma length_join_ones: "v \<noteq> [] \<Longrightarrow> length (join '','' (map (\<lambda>_. ''0'') v)) = 2 * length v - 1"
proof (induction v)
  case (Cons x v)
  then show ?case by (cases v) auto
qed simp

lemma demo_store_cast: "cast_law demo_store"
  unfolding cast_law_def
proof (intro allI impI)
  fix v :: vec
  assume "v \<noteq> []"
  then have "length (vector_literal (pe_float demo_store) v) = 2 * length v + 1"
    using length_join_ones [of v] by (cases v) (simp_all add: vector_literal_def demo_store_def)
  then show "\<exists>x. pe_cast demo_store (vector_literal (pe_float demo_store) v) = Inr x \<and> pe_width demo_store x = int (length v)"
    by (simp add: demo_store_def)
qed

definition demo_empty :: "nat kgdb" where
  "demo_empty = \<lparr>db_rows = [], db_relations = [], db_uniq = False, db_dim = None\<rparr>"


end
